(* ===== verification/Mei_Prelude.thy ===== *)
theory Mei_Prelude
  imports Main
begin

text \<open>
  Shared vocabulary of the development: the exceptions the Python code raises, the result
  type that carries them, database transactions that commit or roll back, and tables kept
  as lists of rows.  Every component theory imports this one.
\<close>

section \<open>Exceptions and results\<close>

text \<open>
  One constructor per exception class of the modelled code.  A message text is not kept;
  the machine-readable code (\<open>ValidationError.code\<close>, the reason of a denied admission) is.
\<close>

datatype exn =
    ValueError
  | TypeError
  | OverflowError
  | IndexError
  | KeyError
  | ZeroDivision
  | InvalidOperation
  | DoesNotExist
  | IntegrityError
  | DataError
  | Http404
  | PermissionDenied
  | ValidationError string
  | IllegalTransition
  | ImmutableVersion
  | PlaybookInvalid
  | DagCycle "string list"
  | VersionConflict
  | StaleObservation
  | IntentConflict
  | StaleClaim
  | StaleFence
  | AdmissionDenied string
  | BudgetDenied string
  | JournalError
  | NoEffectiveParameter
  | NoEffectiveDueRule
  | UnknownCapability
  | UnknownFeature
  | GrantSeat
  | GrantNotPermitted
  | GrantConflict
  | PortalStashMiss
  | TaxProfileConflict
  | TenantReadOnly
  | MissingTenantContext

type_synonym 'a res = "exn + 'a"

definition res_bind :: "'a res \<Rightarrow> ('a \<Rightarrow> 'b res) \<Rightarrow> 'b res" where
  "res_bind m f = (case m of Inl e \<Rightarrow> Inl e | Inr x \<Rightarrow> f x)"

definition require :: "bool \<Rightarrow> exn \<Rightarrow> unit res" where
  "require b e = (if b then Inr () else Inl e)"

definition the_row :: "'a option \<Rightarrow> exn \<Rightarrow> 'a res" where
  "the_row r e = (case r of None \<Rightarrow> Inl e | Some x \<Rightarrow> Inr x)"

named_theorems res_simps "evaluation of results"
named_theorems res_iff "when a composed result is a success"

lemma res_bind_Inl [simp, res_simps]: "res_bind (Inl e) f = Inl e"
  by (simp add: res_bind_def)

lemma res_bind_Inr [simp, res_simps]: "res_bind (Inr x) f = f x"
  by (simp add: res_bind_def)

lemma res_bind_eq_Inr [res_iff]:
  "res_bind m f = Inr y \<longleftrightarrow> (\<exists>x. m = Inr x \<and> f x = Inr y)"
  by (cases m) auto

lemma res_bind_InrE:
  assumes "res_bind x f = Inr y"
  obtains a where "x = Inr a" "f a = Inr y"
  using assms by (auto simp: res_bind_eq_Inr)

lemma res_bind_eq_Inl:
  "res_bind m f = Inl e \<longleftrightarrow> m = Inl e \<or> (\<exists>x. m = Inr x \<and> f x = Inl e)"
  by (cases m) auto

lemma res_bind_cong [fundef_cong]:
  "m = m' \<Longrightarrow> (\<And>x. m' = Inr x \<Longrightarrow> f x = g x) \<Longrightarrow> res_bind m f = res_bind m' g"
  by (cases m') auto

lemma res_bind_assoc: "res_bind (res_bind m f) g = res_bind m (\<lambda>x. res_bind (f x) g)"
  by (cases m) auto

lemma require_simps [simp, res_simps]:
  "require True e = Inr ()"
  "require False e = Inl e"
  by (simp_all add: require_def)

lemma require_eq_Inr [simp, res_iff]: "require b e = Inr u \<longleftrightarrow> b"
  by (simp add: require_def)

lemma require_eq_Inl [simp]: "require b e = Inl e' \<longleftrightarrow> \<not> b \<and> e' = e"
  by (auto simp: require_def)

lemma the_row_simps [simp, res_simps]:
  "the_row None e = Inl e"
  "the_row (Some x) e = Inr x"
  by (simp_all add: the_row_def)

lemma the_row_eq_Inr [simp, res_iff]: "the_row r e = Inr x \<longleftrightarrow> r = Some x"
  by (simp add: the_row_def split: option.splits)

lemma the_row_eq_Inl [simp]: "the_row r e = Inl e' \<longleftrightarrow> r = None \<and> e' = e"
  by (auto simp: the_row_def split: option.splits)

text \<open>A comprehension whose element may raise: the first exception ends it.\<close>

fun res_map :: "('a \<Rightarrow> 'b res) \<Rightarrow> 'a list \<Rightarrow> 'b list res" where
  "res_map f [] = Inr []"
| "res_map f (x # xs) = res_bind (f x) (\<lambda>y. res_bind (res_map f xs) (\<lambda>ys. Inr (y # ys)))"

lemma res_map_cong [fundef_cong]:
  "xs = ys \<Longrightarrow> (\<And>x. x \<in> set ys \<Longrightarrow> f x = g x) \<Longrightarrow> res_map f xs = res_map g ys"
proof (induction ys arbitrary: xs)
  case Nil
  then show ?case by simp
next
  case (Cons y ys)
  then have "f y = g y" "res_map f ys = res_map g ys" by simp_all
  with Cons.prems(1) show ?case by simp
qed

lemma res_map_total: "(\<And>x. x \<in> set xs \<Longrightarrow> f x = Inr (g x)) \<Longrightarrow> res_map f xs = Inr (map g xs)"
  by (induction xs) simp_all

text \<open>If every exception an element can raise is the same one, the order does not matter.\<close>

lemma res_map_fails:
  "(\<And>x e'. x \<in> set xs \<Longrightarrow> f x = Inl e' \<Longrightarrow> e' = e) \<Longrightarrow> x \<in> set xs \<Longrightarrow> f x = Inl e \<Longrightarrow>
     res_map f xs = Inl e"
proof (induction xs)
  case Nil
  then show ?case by simp
next
  case (Cons y ys)
  show ?case
  proof (cases "f y")
    case (Inl e')
    with Cons.prems(1)[of y] show ?thesis by simp
  next
    case (Inr z)
    with Cons.prems(2,3) have "x \<in> set ys" by auto
    with Cons.IH Cons.prems(1,3) have "res_map f ys = Inl e" by (meson list.set_intros(2))
    with Inr show ?thesis by simp
  qed
qed

section \<open>Transactions\<close>

text \<open>
  A database block is a function from the state to an exception or a result with the new
  state.  \<open>atomic\<close> is \<^verbatim>\<open>transaction.atomic()\<close> (and \<^verbatim>\<open>tenant_context\<close>, which opens one): an
  exception that leaves the block rolls every write back.
\<close>

type_synonym ('s, 'a) tx = "'s \<Rightarrow> ('a \<times> 's) res"

definition atomic :: "('s, 'a) tx \<Rightarrow> 's \<Rightarrow> 'a res \<times> 's" where
  "atomic f s = (case f s of Inl e \<Rightarrow> (Inl e, s) | Inr (a, s') \<Rightarrow> (Inr a, s'))"

lemma atomic_Inl [simp]: "f s = Inl e \<Longrightarrow> atomic f s = (Inl e, s)"
  by (simp add: atomic_def)

lemma atomic_Inr [simp]: "f s = Inr (a, s') \<Longrightarrow> atomic f s = (Inr a, s')"
  by (simp add: atomic_def)

lemma atomic_eq_Inr: "atomic f s = (Inr a, s') \<longleftrightarrow> f s = Inr (a, s')"
  by (auto simp: atomic_def split: sum.splits)

lemma atomic_rollback: "fst (atomic f s) = Inl e \<Longrightarrow> snd (atomic f s) = s"
  by (auto simp: atomic_def split: sum.splits)

lemma atomic_invariant:
  assumes "I s" "\<And>a s'. f s = Inr (a, s') \<Longrightarrow> I s'"
  shows "I (snd (atomic f s))"
  using assms by (auto simp: atomic_def split: sum.splits)

section \<open>Tables as lists of rows\<close>

text \<open>
  A table is the list of its rows in insertion order; \<open>find\<close> is \<^verbatim>\<open>.filter(...).first()\<close> and
  \<open>row_put\<close> is \<^verbatim>\<open>row.save()\<close>: it writes the row back under its key.
\<close>

definition row_put :: "('r \<Rightarrow> 'k) \<Rightarrow> 'r \<Rightarrow> 'r list \<Rightarrow> 'r list" where
  "row_put key r rows = map (\<lambda>x. if key x = key r then r else x) rows"

definition row_get :: "('r \<Rightarrow> 'k) \<Rightarrow> 'k \<Rightarrow> 'r list \<Rightarrow> 'r option" where
  "row_get key k rows = find (\<lambda>x. key x = k) rows"

lemma row_put_Nil [simp]: "row_put key r [] = []"
  by (simp add: row_put_def)

lemma row_put_Cons [simp]:
  "row_put key r (x # xs) = (if key x = key r then r else x) # row_put key r xs"
  by (simp add: row_put_def)

lemma row_put_keys [simp]: "map key (row_put key r rows) = map key rows"
  by (induction rows) auto

lemma length_row_put [simp]: "length (row_put key r rows) = length rows"
  by (simp add: row_put_def)

lemma row_put_absent: "key r \<notin> key ` set rows \<Longrightarrow> row_put key r rows = rows"
  by (induction rows) (auto simp: image_iff)

lemma row_put_append [simp]: "row_put key r (xs @ ys) = row_put key r xs @ row_put key r ys"
  by (simp add: row_put_def)

lemma set_row_put: "set (row_put key r rows) \<subseteq> insert r (set rows)"
  by (auto simp: row_put_def)

lemma set_row_put_eq:
  "set (row_put key r rows) =
     {x \<in> set rows. key x \<noteq> key r} \<union> (if key r \<in> key ` set rows then {r} else {})"
  by (auto simp: row_put_def image_iff)

lemma find_Some_iff_first: "find P xs = Some x \<Longrightarrow> x \<in> set xs \<and> P x"
  by (auto simp: find_Some_iff)

lemma row_get_Some: "row_get key k rows = Some r \<Longrightarrow> r \<in> set rows \<and> key r = k"
  unfolding row_get_def by (drule find_Some_iff_first) simp

lemma row_get_None [simp]: "row_get key k rows = None \<longleftrightarrow> k \<notin> key ` set rows"
  by (auto simp: row_get_def find_None_iff)

lemma row_get_row_put:
  "row_get key k (row_put key r rows) =
     (if k = key r \<and> k \<in> key ` set rows then Some r else row_get key k rows)"
  by (induction rows) (auto simp: row_get_def)

lemma row_get_simps [simp]:
  "row_get key k [] = None"
  "row_get key k (x # xs) = (if key x = k then Some x else row_get key k xs)"
  by (simp_all add: row_get_def)

lemma row_get_append:
  "row_get key k (xs @ ys) = (case row_get key k xs of None \<Rightarrow> row_get key k ys | Some r \<Rightarrow> Some r)"
  by (induction xs) (auto simp: row_get_def)

lemma row_get_unique:
  "distinct (map key rows) \<Longrightarrow> r \<in> set rows \<Longrightarrow> row_get key (key r) rows = Some r"
  by (induction rows) (auto simp: row_get_def image_iff)

lemma row_put_same: "distinct (map key rows) \<Longrightarrow> r \<in> set rows \<Longrightarrow> row_put key r rows = rows"
  by (induction rows) (auto simp: image_iff row_put_absent)

text \<open>Replacing one row changes a total by the difference of the two rows.\<close>

lemma sum_list_row_put:
  fixes f :: "'r \<Rightarrow> int"
  assumes "distinct (map key rows)" "r0 \<in> set rows" "key r = key r0"
  shows "sum_list (map f (row_put key r rows)) = sum_list (map f rows) - f r0 + f r"
  using assms
proof (induction rows)
  case Nil
  then show ?case by simp
next
  case (Cons x xs)
  show ?case
  proof (cases "x = r0")
    case True
    with Cons.prems have "key r \<notin> key ` set xs" by auto
    with True Cons.prems show ?thesis by (simp add: row_put_absent)
  next
    case False
    with Cons.prems have "r0 \<in> set xs" "key x \<noteq> key r" by auto
    with Cons show ?thesis by auto
  qed
qed

section \<open>Numbers as text\<close>

text \<open>Python's \<^verbatim>\<open>str(int)\<close>.\<close>

fun str_nat :: "nat \<Rightarrow> string" where
  "str_nat n =
     (if n < 10 then [char_of (48 + n)] else str_nat (n div 10) @ [char_of (48 + n mod 10)])"

declare str_nat.simps [simp del]

definition str_int :: "int \<Rightarrow> string" where
  "str_int i = (if i < 0 then CHR ''-'' # str_nat (nat (- i)) else str_nat (nat i))"

text \<open>Python's whitespace, and \<^verbatim>\<open>str.strip()\<close>.\<close>

definition is_space :: "char \<Rightarrow> bool" where
  "is_space c = (let n = (of_char c :: nat) in
     9 \<le> n \<and> n \<le> 13 \<or> 28 \<le> n \<and> n \<le> 32 \<or> n = 133 \<or> n = 160)"

definition strip :: "string \<Rightarrow> string" where
  "strip s = rev (dropWhile is_space (rev (dropWhile is_space s)))"

section \<open>Python dictionaries as lists of items\<close>

text \<open>
  \<^verbatim>\<open>dict.fromkeys\<close> keeps the first of equal keys; a dictionary built from a sequence of items
  answers with the last value of a key.
\<close>

definition dict_fromkeys :: "'k list \<Rightarrow> 'k list" where
  "dict_fromkeys keys = rev (remdups (rev keys))"

definition dict_get :: "('k \<times> 'v) list \<Rightarrow> 'k \<Rightarrow> 'v \<Rightarrow> 'v" where
  "dict_get items k d = (case map_of (rev items) k of None \<Rightarrow> d | Some v \<Rightarrow> v)"

lemma set_dict_fromkeys [simp]: "set (dict_fromkeys keys) = set keys"
  by (simp add: dict_fromkeys_def)

lemma distinct_dict_fromkeys [simp]: "distinct (dict_fromkeys keys)"
  by (simp add: dict_fromkeys_def)

lemma dict_fromkeys_single [simp]: "dict_fromkeys [k] = [k]"
  by (simp add: dict_fromkeys_def)

lemma dict_get_Nil [simp]: "dict_get [] k d = d"
  by (simp add: dict_get_def)

text \<open>An answer depends only on the items under its key.\<close>

lemma dict_get_filter:
  "(\<And>v. P (k, v)) \<Longrightarrow> dict_get (filter P items) k d = dict_get items k d"
proof -
  assume P: "\<And>v. P (k, v)"
  have "map_of (filter P xs) k = map_of xs k" for xs
    using P by (induction xs) auto
  then show ?thesis by (simp add: dict_get_def rev_filter)
qed

lemma dict_get_mem:
  "dict_get items k d = v \<Longrightarrow> v \<noteq> d \<Longrightarrow> (k, v) \<in> set items"
  by (auto simp: dict_get_def dest!: map_of_SomeD split: option.splits)

lemma map_of_graph: "map_of (map (\<lambda>x. (x, f x)) keys) k = (if k \<in> set keys then Some (f k) else None)"
  by (induction keys) auto

lemma dict_get_map_key: "k \<in> set keys \<Longrightarrow> dict_get (map (\<lambda>x. (x, f x)) keys) k d = f k"
  by (simp add: dict_get_def rev_map map_of_graph)

end
