(* ===== verification/Fiscal_Documents.thy ===== *)
theory Fiscal_Documents
  imports Mei_Prelude
begin

text \<open>
  \<^verbatim>\<open>apps/fiscal/validators.py\<close> and \<^verbatim>\<open>apps/fiscal/formatting.py\<close>: the normalized form of
  a CNPJ or CPF, the modulo-11 check digits, the validators with the code of each refusal,
  and the display masks.  A Python string is a list of ASCII characters here, so
  \<^verbatim>\<open>str.upper\<close> and \<^verbatim>\<open>str.isdigit\<close> are their ASCII cases.
\<close>

section \<open>Strings of the standard library\<close>

definition char_ord :: "char \<Rightarrow> int" where
  "char_ord c = of_char c"

definition upper_char :: "char \<Rightarrow> char" where
  "upper_char c = (if 97 \<le> char_ord c \<and> char_ord c \<le> 122 then char_of (char_ord c - 32) else c)"

definition is_digit_char :: "char \<Rightarrow> bool" where
  "is_digit_char c \<longleftrightarrow> 48 \<le> char_ord c \<and> char_ord c \<le> 57"

definition str_isdigit :: "string \<Rightarrow> bool" where
  "str_isdigit s \<longleftrightarrow> s \<noteq> [] \<and> list_all is_digit_char s"

section \<open>validators.py\<close>

definition CNPJ_ALPHABET :: string where
  "CNPJ_ALPHABET = ''0123456789ABCDEFGHIJKLMNOPQRSTUVWXYZ''"

definition CPF_ALPHABET :: string where
  "CPF_ALPHABET = ''0123456789''"

definition CNPJ_LENGTH :: nat where "CNPJ_LENGTH = 14"
definition CNPJ_BASE_LENGTH :: nat where "CNPJ_BASE_LENGTH = 12"
definition CPF_LENGTH :: nat where "CPF_LENGTH = 11"
definition CPF_BASE_LENGTH :: nat where "CPF_BASE_LENGTH = 9"

definition MASK_CHARACTERS :: string where
  "MASK_CHARACTERS =
     [CHR ''.'', CHR ''-'', CHR ''/'', CHR '' '', CHR 0x09, CHR 0x0A, CHR 0x0D]"

definition CNPJ_MAX_WEIGHT :: int where "CNPJ_MAX_WEIGHT = 9"
definition CPF_MAX_WEIGHT :: int where "CPF_MAX_WEIGHT = 11"

definition normalize_document :: "string \<Rightarrow> string" where
  "normalize_document v = map upper_char (filter (\<lambda>c. c \<notin> set MASK_CHARACTERS) v)"

definition character_value :: "char \<Rightarrow> int" where
  "character_value c = char_ord c - 48"

fun remainder_loop :: "int \<Rightarrow> int \<Rightarrow> int \<Rightarrow> string \<Rightarrow> int" where
  "remainder_loop max_weight acc weight [] = acc"
| "remainder_loop max_weight acc weight (c # cs) =
     remainder_loop max_weight (acc + character_value c * weight)
       (if weight = max_weight then 2 else weight + 1) cs"

definition remainder :: "string \<Rightarrow> int \<Rightarrow> int" where
  "remainder operand max_weight = remainder_loop max_weight 0 2 (rev operand) mod 11"

definition cnpj_check_digit_remainder :: "string \<Rightarrow> int" where
  "cnpj_check_digit_remainder operand = remainder operand CNPJ_MAX_WEIGHT"

definition clamp :: "int \<Rightarrow> int" where
  "clamp r = (if r < 2 then 0 else 11 - r)"

definition check_digit :: "string \<Rightarrow> int \<Rightarrow> int" where
  "check_digit operand max_weight = clamp (remainder operand max_weight)"

definition both_check_digits :: "string \<Rightarrow> int \<Rightarrow> string" where
  "both_check_digits base max_weight =
     (let first = check_digit base max_weight;
          second = check_digit (base @ str_int first) max_weight
      in str_int first @ str_int second)"

definition cnpj_check_digits :: "string \<Rightarrow> string" where
  "cnpj_check_digits base = both_check_digits base CNPJ_MAX_WEIGHT"

definition cpf_check_digits :: "string \<Rightarrow> string" where
  "cpf_check_digits base = both_check_digits base CPF_MAX_WEIGHT"

definition reject_wrong_length :: "string \<Rightarrow> nat \<Rightarrow> string \<Rightarrow> unit res" where
  "reject_wrong_length v expected code = require (length v = expected) (ValidationError code)"

definition reject_bad_characters :: "string \<Rightarrow> string \<Rightarrow> string \<Rightarrow> unit res" where
  "reject_bad_characters v alphabet code =
     require (filter (\<lambda>c. c \<notin> set alphabet) v = []) (ValidationError code)"

definition reject_degenerate :: "string \<Rightarrow> string \<Rightarrow> unit res" where
  "reject_degenerate v code = require (card (set v) \<noteq> 1) (ValidationError code)"

definition reject_non_numeric_check_digits :: "string \<Rightarrow> nat \<Rightarrow> string \<Rightarrow> unit res" where
  "reject_non_numeric_check_digits v base_length code =
     require (str_isdigit (drop base_length v)) (ValidationError code)"

definition validate_cnpj :: "string \<Rightarrow> unit res" where
  "validate_cnpj v =
     (let n = normalize_document v in
      res_bind (reject_wrong_length n CNPJ_LENGTH ''cnpj_length'') (\<lambda>_.
      res_bind (reject_bad_characters n CNPJ_ALPHABET ''cnpj_characters'') (\<lambda>_.
      res_bind (reject_degenerate n ''cnpj_degenerate'') (\<lambda>_.
      res_bind (reject_non_numeric_check_digits n CNPJ_BASE_LENGTH
                  ''cnpj_check_digit_characters'') (\<lambda>_.
        require (drop CNPJ_BASE_LENGTH n = cnpj_check_digits (take CNPJ_BASE_LENGTH n))
          (ValidationError ''cnpj_check_digits''))))))"

definition validate_cpf :: "string \<Rightarrow> unit res" where
  "validate_cpf v =
     (let n = normalize_document v in
      res_bind (reject_wrong_length n CPF_LENGTH ''cpf_length'') (\<lambda>_.
      res_bind (reject_bad_characters n CPF_ALPHABET ''cpf_characters'') (\<lambda>_.
      res_bind (reject_degenerate n ''cpf_degenerate'') (\<lambda>_.
        require (drop CPF_BASE_LENGTH n = cpf_check_digits (take CPF_BASE_LENGTH n))
          (ValidationError ''cpf_check_digits'')))))"

section \<open>formatting.py\<close>

fun mask_parts :: "string \<Rightarrow> nat list \<Rightarrow> string list" where
  "mask_parts s [] = []"
| "mask_parts s (k # ks) = take k s # mask_parts (drop k s) ks"

fun mask_join :: "string \<Rightarrow> string list \<Rightarrow> string list \<Rightarrow> string res" where
  "mask_join masked [] [] = Inr masked"
| "mask_join masked (sep # seps) (part # parts) = mask_join (masked @ sep @ part) seps parts"
| "mask_join masked _ _ = Inl ValueError"

definition apply_mask :: "string \<Rightarrow> nat \<Rightarrow> nat list \<Rightarrow> string list \<Rightarrow> string res" where
  "apply_mask v expected_length groups separators =
     (let n = normalize_document v in
      if length n \<noteq> expected_length then Inl ValueError
      else case mask_parts n groups of
             [] \<Rightarrow> Inl IndexError
           | p # ps \<Rightarrow> mask_join p separators ps)"

definition format_cnpj :: "string \<Rightarrow> string res" where
  "format_cnpj v = apply_mask v CNPJ_LENGTH [2, 3, 3, 4, 2] [''.'', ''.'', ''/'', ''-'']"

definition format_cpf :: "string \<Rightarrow> string res" where
  "format_cpf v = apply_mask v CPF_LENGTH [3, 3, 3, 2] [''.'', ''.'', ''-'']"

lemmas document_lengths = CNPJ_LENGTH_def CNPJ_BASE_LENGTH_def CPF_LENGTH_def CPF_BASE_LENGTH_def
  CNPJ_MAX_WEIGHT_def CPF_MAX_WEIGHT_def

lemmas document_rejects = reject_wrong_length_def reject_bad_characters_def reject_degenerate_def
  reject_non_numeric_check_digits_def

section \<open>Normalization\<close>

lemma char_ord_char_of: "0 \<le> k \<Longrightarrow> k < 256 \<Longrightarrow> char_ord (char_of k) = k"
  by (simp add: char_ord_def)

lemma char_ord_inject: "char_ord c = char_ord d \<longleftrightarrow> c = d"
  by (simp add: char_ord_def)

lemma upper_char_idem [simp]: "upper_char (upper_char c) = upper_char c"
proof (cases "97 \<le> char_ord c \<and> char_ord c \<le> 122")
  case True
  then have "char_ord (char_of (char_ord c - 32) :: char) = char_ord c - 32"
    by (intro char_ord_char_of) auto
  with True show ?thesis by (simp add: upper_char_def)
next
  case False
  then have "upper_char c = c" by (auto simp: upper_char_def)
  then show ?thesis by simp
qed

lemma mask_ord: "c \<in> set MASK_CHARACTERS \<longleftrightarrow> char_ord c \<in> {46, 45, 47, 32, 9, 10, 13}"
proof -
  have ords: "char_ord CHR ''.'' = 46" "char_ord CHR ''-'' = 45" "char_ord CHR ''/'' = 47"
    "char_ord CHR '' '' = 32" "char_ord CHR 0x09 = 9" "char_ord CHR 0x0A = 10"
    "char_ord CHR 0x0D = 13"
    by (simp_all add: char_ord_def)
  show ?thesis
    by (simp only: MASK_CHARACTERS_def list.set insert_iff empty_iff
        char_ord_inject [symmetric] ords)
qed

lemma upper_char_mask [simp]: "upper_char c \<in> set MASK_CHARACTERS \<longleftrightarrow> c \<in> set MASK_CHARACTERS"
proof (cases "97 \<le> char_ord c \<and> char_ord c \<le> 122")
  case True
  then have "char_ord (upper_char c) = char_ord c - 32"
    by (simp add: upper_char_def char_ord_char_of)
  with True show ?thesis by (auto simp: mask_ord)
next
  case False
  then show ?thesis by (auto simp: upper_char_def)
qed

lemma normalize_append [simp]:
  "normalize_document (a @ b) = normalize_document a @ normalize_document b"
  by (simp add: normalize_document_def)

lemma normalize_Nil [simp]: "normalize_document [] = []"
  by (simp add: normalize_document_def)

lemma normalize_idem [simp]: "normalize_document (normalize_document v) = normalize_document v"
  by (induction v) (auto simp: normalize_document_def)

lemma normalize_fix_iff:
  "normalize_document s = s \<longleftrightarrow> (\<forall>c \<in> set s. upper_char c = c \<and> c \<notin> set MASK_CHARACTERS)"
proof (induction s)
  case Nil
  then show ?case by simp
next
  case (Cons c s)
  have len: "length (normalize_document s) \<le> length s"
    by (simp add: normalize_document_def)
  show ?case
  proof (cases "c \<in> set MASK_CHARACTERS")
    case True
    then have "normalize_document (c # s) = normalize_document s"
      by (simp add: normalize_document_def)
    with True len show ?thesis by auto
  next
    case False
    then have "normalize_document (c # s) = upper_char c # normalize_document s"
      by (simp add: normalize_document_def)
    with False Cons show ?thesis by auto
  qed
qed

lemma normalize_take_drop:
  assumes "normalize_document s = s"
  shows "normalize_document (take k s) = take k s" "normalize_document (drop k s) = drop k s"
  using assms unfolding normalize_fix_iff by (meson in_set_takeD in_set_dropD)+

lemma normalize_separators [simp]:
  "normalize_document ''.'' = []" "normalize_document ''-'' = []" "normalize_document ''/'' = []"
  by (simp_all add: normalize_document_def MASK_CHARACTERS_def)

section \<open>Masks\<close>

lemma mask_join_normalize:
  "mask_join m seps parts = Inr r \<Longrightarrow> (\<And>s. s \<in> set seps \<Longrightarrow> normalize_document s = []) \<Longrightarrow>
   normalize_document r = normalize_document m @ normalize_document (concat parts)"
  by (induction m seps parts rule: mask_join.induct) auto

lemma mask_join_defined: "length seps = length parts \<Longrightarrow> \<exists>r. mask_join m seps parts = Inr r"
  by (induction m seps parts rule: mask_join.induct) auto

lemma concat_mask_parts: "sum_list ks = length s \<Longrightarrow> concat (mask_parts s ks) = s"
  by (induction s ks rule: mask_parts.induct) auto

lemma length_mask_parts [simp]: "length (mask_parts s ks) = length ks"
  by (induction s ks rule: mask_parts.induct) auto

lemma apply_mask_Inr:
  assumes "apply_mask v n (k # ks) seps = Inr r" "sum_list (k # ks) = n"
    "\<And>s. s \<in> set seps \<Longrightarrow> normalize_document s = []"
  shows "normalize_document r = normalize_document v"
proof -
  let ?n = "normalize_document v"
  from assms have len: "length ?n = n"
    and join: "mask_join (take k ?n) seps (mask_parts (drop k ?n) ks) = Inr r"
    by (auto simp: apply_mask_def Let_def split: if_splits)
  have "concat (mask_parts (drop k ?n) ks) = drop k ?n"
    using assms(2) len by (intro concat_mask_parts) auto
  then have "normalize_document r =
      normalize_document (take k ?n) @ normalize_document (drop k ?n)"
    using mask_join_normalize[OF join assms(3)] by simp
  then show ?thesis by (simp flip: normalize_append)
qed

lemma apply_mask_defined_iff:
  assumes "length seps = length ks"
  shows "(\<exists>r. apply_mask v n (k # ks) seps = Inr r) \<longleftrightarrow> length (normalize_document v) = n"
  using mask_join_defined[of seps "mask_parts (drop k (normalize_document v)) ks"
      "take k (normalize_document v)"] assms
  by (auto simp: apply_mask_def Let_def)

section \<open>Check digits\<close>

lemma clamp_range: "0 \<le> r \<Longrightarrow> r < 11 \<Longrightarrow> 0 \<le> clamp r \<and> clamp r \<le> 9"
  by (simp add: clamp_def)

lemma check_digit_range: "0 \<le> check_digit s w" "check_digit s w \<le> 9"
  using clamp_range[of "remainder s w"] by (simp_all add: check_digit_def remainder_def)

lemma str_int_digit: "0 \<le> d \<Longrightarrow> d \<le> 9 \<Longrightarrow> str_int d = [char_of (48 + nat d)]"
  by (simp add: str_int_def str_nat.simps)

lemma str_int_check_digit: "str_int (check_digit s w) = [char_of (48 + nat (check_digit s w))]"
  using check_digit_range[of s w] by (simp add: str_int_digit)

lemma cpf_alphabet_digit: "c \<in> set CPF_ALPHABET \<longleftrightarrow> is_digit_char c"
proof -
  have ords: "char_ord CHR ''0'' = 48" "char_ord CHR ''1'' = 49" "char_ord CHR ''2'' = 50"
    "char_ord CHR ''3'' = 51" "char_ord CHR ''4'' = 52" "char_ord CHR ''5'' = 53"
    "char_ord CHR ''6'' = 54" "char_ord CHR ''7'' = 55" "char_ord CHR ''8'' = 56"
    "char_ord CHR ''9'' = 57"
    by (simp_all add: char_ord_def)
  have "c \<in> set CPF_ALPHABET \<longleftrightarrow>
      char_ord c = 48 \<or> char_ord c = 49 \<or> char_ord c = 50 \<or> char_ord c = 51 \<or> char_ord c = 52 \<or>
      char_ord c = 53 \<or> char_ord c = 54 \<or> char_ord c = 55 \<or> char_ord c = 56 \<or> char_ord c = 57"
    by (simp only: CPF_ALPHABET_def list.set insert_iff empty_iff
        char_ord_inject [symmetric] ords simp_thms)
  also have "\<dots> \<longleftrightarrow> is_digit_char c" by (simp add: is_digit_char_def) presburger
  finally show ?thesis .
qed

lemma digit_normal: "is_digit_char c \<Longrightarrow> upper_char c = c \<and> c \<notin> set MASK_CHARACTERS"
  by (auto simp: is_digit_char_def upper_char_def mask_ord)

lemma normalize_digits: "list_all is_digit_char s \<Longrightarrow> normalize_document s = s"
  by (auto simp: normalize_fix_iff list_all_iff digit_normal)

lemma digit_char_ord: "d < 10 \<Longrightarrow> char_ord (char_of (48 + d :: nat)) = 48 + int d"
proof -
  assume "d < 10"
  then have "char_ord (char_of (48 + int d)) = 48 + int d"
    by (intro char_ord_char_of) auto
  then show ?thesis using char_of_nat [of "48 + d", where ?'a = int] by simp
qed

lemma both_check_digits_shape:
  "\<exists>a b. both_check_digits base w = [char_of (48 + a), char_of (48 + b)] \<and> a < (10::nat) \<and> b < (10::nat)"
proof -
  let ?f = "check_digit base w" and ?g = "check_digit (base @ str_int (check_digit base w)) w"
  have "nat ?f < 10" "nat ?g < 10"
    using check_digit_range[of base w] check_digit_range[of "base @ str_int ?f" w] by auto
  then show ?thesis
    unfolding both_check_digits_def Let_def str_int_check_digit append_Cons append_Nil by blast
qed

lemma both_check_digits_digits:
  "length (both_check_digits base w) = 2" "list_all is_digit_char (both_check_digits base w)"
  using both_check_digits_shape[of base w] by (auto simp: is_digit_char_def digit_char_ord)

lemma both_check_digits_isdigit [simp]: "str_isdigit (both_check_digits base w)"
  using both_check_digits_digits[of base w] by (auto simp: str_isdigit_def)

lemma length_cnpj_check_digits [simp]: "length (cnpj_check_digits base) = 2"
  by (simp add: cnpj_check_digits_def both_check_digits_digits)

lemma length_cpf_check_digits [simp]: "length (cpf_check_digits base) = 2"
  by (simp add: cpf_check_digits_def both_check_digits_digits)

subsection \<open>The weights\<close>

text \<open>The weight of the \<open>k\<close>-th character from the right.\<close>

definition weight_at :: "int \<Rightarrow> nat \<Rightarrow> int" where
  "weight_at w k = 2 + int (k mod nat (w - 1))"

lemma weight_at_0 [simp]: "weight_at w 0 = 2"
  by (simp add: weight_at_def)

lemma weight_at_Suc:
  assumes "2 \<le> w"
  shows "weight_at w (Suc k) = (if weight_at w k = w then 2 else weight_at w k + 1)"
  using assms by (auto simp: weight_at_def mod_Suc)

lemma remainder_loop_sum:
  assumes "2 \<le> w"
  shows "remainder_loop w acc (weight_at w k) cs =
    acc + (\<Sum>i<length cs. character_value (cs ! i) * weight_at w (k + i))"
proof (induction cs arbitrary: acc k)
  case Nil
  then show ?case by simp
next
  case (Cons c cs)
  have "remainder_loop w acc (weight_at w k) (c # cs) =
      remainder_loop w (acc + character_value c * weight_at w k) (weight_at w (Suc k)) cs"
    by (simp add: weight_at_Suc[OF assms])
  also have "\<dots> = acc + (\<Sum>i<length (c # cs). character_value ((c # cs) ! i) * weight_at w (k + i))"
    by (simp add: Cons.IH sum.lessThan_Suc_shift del: sum.lessThan_Suc)
  finally show ?case .
qed

lemma remainder_sum:
  assumes "2 \<le> w"
  shows "remainder s w =
    (\<Sum>i<length s. character_value (rev s ! i) * weight_at w i) mod 11"
  using remainder_loop_sum[OF assms, of 0 0 "rev s"] by (simp add: remainder_def)

lemma remainder_difference:
  assumes "2 \<le> w"
  shows "remainder (xs @ a # ys) w = remainder (xs @ b # ys) w \<longleftrightarrow>
    11 dvd (character_value a - character_value b) * weight_at w (length ys)"
proof -
  let ?n = "length xs + length ys + 1" and ?k = "length ys"
  define s where "s c i = character_value (rev (xs @ c # ys) ! i) * weight_at w i" for c i
  have rest: "s c i = s d i" if "i \<noteq> ?k" for c d i
    using that by (auto simp: s_def nth_append nth_Cons split: nat.splits)
  have tot: "(\<Sum>i<?n. s c i) = s c ?k + (\<Sum>i\<in>{..<?n} - {?k}. s c i)" for c
    by (rule sum.remove) auto
  have "(\<Sum>i\<in>{..<?n} - {?k}. s a i) = (\<Sum>i\<in>{..<?n} - {?k}. s b i)"
    by (intro sum.cong rest) auto
  moreover have "s c ?k = character_value c * weight_at w ?k" for c
    by (simp add: s_def nth_append)
  ultimately have diff: "(\<Sum>i<?n. s a i) - (\<Sum>i<?n. s b i) =
      (character_value a - character_value b) * weight_at w ?k"
    using tot[of a] tot[of b] by (simp add: left_diff_distrib del: sum.lessThan_Suc)
  have "remainder (xs @ c # ys) w = (\<Sum>i<?n. s c i) mod 11" for c
    using remainder_sum[OF assms, of "xs @ c # ys"]
    by (simp add: s_def del: sum.lessThan_Suc)
  then show ?thesis by (simp only: mod_eq_dvd_iff diff)
qed

text \<open>
  The interface of a modulo-11 scheme: on operands of at most \<open>width\<close> characters every
  weight is invertible modulo 11.  The CNPJ scheme promises it for every operand, the CPF
  scheme only for the nine characters of its base.
\<close>

locale mod11_scheme =
  fixes max_weight :: int and width :: nat
  assumes max_weight_ge: "2 \<le> max_weight"
    and weight_invertible:
      "k < width \<Longrightarrow> 2 \<le> weight_at max_weight k \<and> weight_at max_weight k \<le> 10"
begin

lemma substitution_congruent:
  assumes "length (xs @ a # ys) \<le> width"
  shows "remainder (xs @ a # ys) max_weight = remainder (xs @ b # ys) max_weight \<longleftrightarrow>
    character_value a mod 11 = character_value b mod 11"
proof -
  define u where "u = weight_at max_weight (length ys)"
  define d where "d = character_value a - character_value b"
  have "2 \<le> u \<and> u \<le> 10"
    using assms weight_invertible[of "length ys"] by (simp add: u_def)
  then have "u = 2 \<or> u = 3 \<or> u = 4 \<or> u = 5 \<or> u = 6 \<or> u = 7 \<or> u = 8 \<or> u = 9 \<or> u = 10"
    by presburger
  then have "coprime 11 u" by (elim disjE; simp only:; code_simp)
  then have "11 dvd d * u \<longleftrightarrow> 11 dvd d" by (rule coprime_dvd_mult_left_iff)
  then show ?thesis
    using remainder_difference[OF max_weight_ge, of xs a ys b]
    by (simp add: u_def d_def mod_eq_dvd_iff)
qed

end

interpretation cnpj: mod11_scheme CNPJ_MAX_WEIGHT n for n
proof
  show "2 \<le> CNPJ_MAX_WEIGHT" by (simp add: CNPJ_MAX_WEIGHT_def)
  fix k :: nat
  have "k mod 8 < 8" by simp
  then show "2 \<le> weight_at CNPJ_MAX_WEIGHT k \<and> weight_at CNPJ_MAX_WEIGHT k \<le> 10"
    by (simp add: CNPJ_MAX_WEIGHT_def weight_at_def)
qed

interpretation cpf: mod11_scheme CPF_MAX_WEIGHT 9
proof
  show "2 \<le> CPF_MAX_WEIGHT" by (simp add: CPF_MAX_WEIGHT_def)
  fix k :: nat assume "k < 9"
  then show "2 \<le> weight_at CPF_MAX_WEIGHT k \<and> weight_at CPF_MAX_WEIGHT k \<le> 10"
    by (simp add: CPF_MAX_WEIGHT_def weight_at_def)
qed


section \<open>Properties\<close>

lemma validate_cnpj_cong: "normalize_document a = normalize_document b \<Longrightarrow> validate_cnpj a = validate_cnpj b"
  by (simp add: validate_cnpj_def)

lemma validate_cpf_cong: "normalize_document a = normalize_document b \<Longrightarrow> validate_cpf a = validate_cpf b"
  by (simp add: validate_cpf_def)

lemmas document_bounds = CNPJ_LENGTH_def CNPJ_BASE_LENGTH_def CPF_LENGTH_def CPF_BASE_LENGTH_def

text \<open>the CNPJ validator accepts a string exactly when its normalized form has fourteen
  characters of the alphabet, is not one repeated character, and ends in the two check digits of
  its first twelve characters; the separate refusal of lettered check digits never refuses
  anything the checksum would accept.\<close>

theorem validate_cnpj_accepts_iff:
  "validate_cnpj v = Inr () \<longleftrightarrow>
     (let n = normalize_document v in
      length n = 14 \<and> set n \<subseteq> set CNPJ_ALPHABET \<and> card (set n) \<noteq> 1 \<and>
      n = take 12 n @ cnpj_check_digits (take 12 n))"
proof -
  let ?n = "normalize_document v"
  have a: "filter (\<lambda>c. c \<notin> set CNPJ_ALPHABET) ?n = [] \<longleftrightarrow> set ?n \<subseteq> set CNPJ_ALPHABET"
    by (auto simp: filter_empty_conv)
  have b: "drop 12 ?n = cnpj_check_digits (take 12 ?n) \<longleftrightarrow>
      ?n = take 12 ?n @ cnpj_check_digits (take 12 ?n)"
    by (metis append_take_drop_id same_append_eq)
  have c: "drop 12 ?n = cnpj_check_digits (take 12 ?n) \<Longrightarrow> str_isdigit (drop 12 ?n)"
    by (simp add: cnpj_check_digits_def)
  show ?thesis
    using c
    by (auto simp: validate_cnpj_def Let_def document_rejects document_bounds res_bind_eq_Inr
        a simp flip: b)
qed

text \<open>the validators only look at the normalized form, and a displayed document is
  validated like the stored one: where the mask can be applied (exactly when the normalized
  value has the document's length) the masked text normalizes back to the same characters.\<close>

theorem format_cnpj_round_trip:
  "((\<exists>m. format_cnpj v = Inr m) \<longleftrightarrow> length (normalize_document v) = 14) \<and>
   (\<forall>m. format_cnpj v = Inr m \<longrightarrow>
      normalize_document m = normalize_document v \<and> validate_cnpj m = validate_cnpj v)"
proof -
  have norm: "normalize_document m = normalize_document v" if "format_cnpj v = Inr m" for m
    using that unfolding format_cnpj_def by (rule apply_mask_Inr) (auto simp: document_bounds)
  have "(\<exists>m. format_cnpj v = Inr m) \<longleftrightarrow> length (normalize_document v) = 14"
    unfolding format_cnpj_def by (subst apply_mask_defined_iff) (simp_all add: document_bounds)
  with norm show ?thesis by (auto intro: validate_cnpj_cong)
qed

theorem format_cnpj_round_trip_witness:
  "format_cnpj ''12abc34501de35'' = Inr ''12.ABC.345/01DE-35'' \<and>
   normalize_document ''12.ABC.345/01DE-35'' = normalize_document ''12abc34501de35''"
proof -
  have f: "format_cnpj ''12abc34501de35'' = Inr ''12.ABC.345/01DE-35''" by code_simp
  with format_cnpj_round_trip [of "''12abc34501de35''"] show ?thesis by blast
qed

text \<open>over any operand, replacing one character leaves the CNPJ remainder unchanged exactly
  when the two characters' values are congruent modulo 11; so substitutions inside a residue
  class of the 36-letter alphabet are undetectable and all others change the remainder.\<close>

theorem cnpj_substitution_iff:
  "cnpj_check_digit_remainder (xs @ a # ys) = cnpj_check_digit_remainder (xs @ b # ys) \<longleftrightarrow>
   character_value a mod 11 = character_value b mod 11"
  unfolding cnpj_check_digit_remainder_def
  using cnpj.substitution_congruent[of xs a ys "length (xs @ a # ys)" b] by simp

text \<open>completing a nine-digit base with its own check digits gives a CPF that the validator
  accepts, unless the result is one repeated character.\<close>

theorem cpf_completed_base_is_valid:
  assumes "length base = 9" "set base \<subseteq> set CPF_ALPHABET"
    "card (set (base @ cpf_check_digits base)) \<noteq> 1"
  shows "validate_cpf (base @ cpf_check_digits base) = Inr ()"
proof -
  have digits: "list_all is_digit_char (base @ cpf_check_digits base)"
    using assms(2) both_check_digits_digits(2)[of base CPF_MAX_WEIGHT]
    by (auto simp: list_all_iff cpf_alphabet_digit cpf_check_digits_def)
  then have n: "normalize_document (base @ cpf_check_digits base) = base @ cpf_check_digits base"
    by (rule normalize_digits)
  have "filter (\<lambda>c. c \<notin> set CPF_ALPHABET) (base @ cpf_check_digits base) = []"
    using digits by (simp only: filter_empty_conv cpf_alphabet_digit list_all_iff) simp
  then show ?thesis
    using assms(1,3) by (simp add: validate_cpf_def n document_rejects document_bounds del: normalize_append)
qed

theorem cpf_completed_base_is_valid_witness:
  "validate_cpf (''111444777'' @ cpf_check_digits ''111444777'') = Inr () \<and>
   cpf_check_digits ''111444777'' = ''35''"
proof -
  have d: "cpf_check_digits ''111444777'' = ''35''" by code_simp
  have "validate_cpf (''111444777'' @ cpf_check_digits ''111444777'') = Inr ()"
    by (rule cpf_completed_base_is_valid) (unfold d, simp, code_simp, code_simp)
  with d show ?thesis by blast
qed

text \<open>every CPF made of one repeated digit carries the check digits the published arithmetic
  asks for, and the validator refuses all of them with the degenerate code.\<close>

theorem repeated_digit_cpf:
  "is_digit_char c \<longrightarrow>
     cpf_check_digits (replicate 9 c) = [c, c] \<and>
     validate_cpf (replicate 11 c) = Inl (ValidationError ''cpf_degenerate'')"
proof
  assume c: "is_digit_char c"
  then have "c \<in> set CPF_ALPHABET" by (simp add: cpf_alphabet_digit)
  then have "cpf_check_digits (replicate 9 c) = [c, c]"
    by (simp only: CPF_ALPHABET_def list.set insert_iff empty_iff) (elim disjE; simp only:; code_simp)
  moreover have "normalize_document (replicate 11 c) = replicate 11 c"
    using c by (intro normalize_digits) (simp add: list_all_iff)
  moreover have "card (set (replicate 11 c)) = 1" by simp
  moreover have "filter (\<lambda>d. d \<notin> set CPF_ALPHABET) (replicate 11 c) = []"
    using \<open>c \<in> set CPF_ALPHABET\<close> by simp
  ultimately show "cpf_check_digits (replicate 9 c) = [c, c] \<and>
      validate_cpf (replicate 11 c) = Inl (ValidationError ''cpf_degenerate'')"
    by (simp add: validate_cpf_def document_rejects document_bounds)
qed

theorem repeated_digit_cpf_witness:
  "cpf_check_digits (replicate 9 CHR ''7'') = ''77'' \<and> is_digit_char CHR ''7''"
proof -
  have "is_digit_char CHR ''7''" by code_simp
  with repeated_digit_cpf [of "CHR ''7''"] show ?thesis by simp
qed

text \<open>the check digits do not detect every single-digit error: the clamp maps the remainders
  0 and 1 to the same digit and the first digit of the base has weight eleven in the second sum,
  so two valid CPFs can differ in exactly one digit of the base.\<close>

theorem cpf_single_digit_collision:
  "\<exists>a b rest. a \<noteq> b \<and> validate_cpf (a # rest) = Inr () \<and> validate_cpf (b # rest) = Inr ()"
proof -
  have "CHR ''1'' \<noteq> CHR ''2''" by simp
  moreover have "validate_cpf ''10000000108'' = Inr ()" by code_simp
  moreover have "validate_cpf ''20000000108'' = Inr ()" by code_simp
  ultimately show ?thesis by blast
qed

end
