(* ===== verification/Py_Date.thy ===== *)
theory Py_Date
  imports Mei_Prelude
begin

text \<open>
  Python's \<^verbatim>\<open>datetime.date\<close> as the code uses it: the proleptic Gregorian calendar, the
  constructor that raises on an impossible day, day arithmetic that raises outside the
  years 1 to 9999, weekdays and the ordinal order.  The ordinal lemmas let the deadline
  components reason about days as integers.
\<close>

section \<open>Dates\<close>

datatype date = Date (d_year: int) (d_month: int) (d_day: int)

definition leap_year :: "int \<Rightarrow> bool" where
  "leap_year y \<longleftrightarrow> y mod 4 = 0 \<and> (y mod 100 \<noteq> 0 \<or> y mod 400 = 0)"

definition days_in_month :: "int \<Rightarrow> int \<Rightarrow> int" where
  "days_in_month y m =
     (if m = 2 then (if leap_year y then 29 else 28)
      else if m = 4 \<or> m = 6 \<or> m = 9 \<or> m = 11 then 30 else 31)"

text \<open>A day of the calendar, whatever its year, and one Python can represent.\<close>

definition calendar_day :: "date \<Rightarrow> bool" where
  "calendar_day d \<longleftrightarrow>
     1 \<le> d_month d \<and> d_month d \<le> 12 \<and> 1 \<le> d_day d \<and>
     d_day d \<le> days_in_month (d_year d) (d_month d)"

definition valid_date :: "date \<Rightarrow> bool" where
  "valid_date d \<longleftrightarrow> calendar_day d \<and> 1 \<le> d_year d \<and> d_year d \<le> 9999"

definition mk_date :: "int \<Rightarrow> int \<Rightarrow> int \<Rightarrow> date res" where
  "mk_date y m d = (if valid_date (Date y m d) then Inr (Date y m d) else Inl ValueError)"

text \<open>\<^verbatim>\<open>calendar.monthrange(y, m)[1]\<close>, which refuses a month outside 1..12.\<close>

definition monthrange_days :: "int \<Rightarrow> int \<Rightarrow> int res" where
  "monthrange_days y m = (if 1 \<le> m \<and> m \<le> 12 then Inr (days_in_month y m) else Inl ValueError)"

definition month_start :: "date \<Rightarrow> date" where
  "month_start d = Date (d_year d) (d_month d) 1"

instantiation date :: linorder
begin

definition less_eq_date :: "date \<Rightarrow> date \<Rightarrow> bool" where
  "less_eq_date a b \<longleftrightarrow>
     d_year a < d_year b \<or>
     d_year a = d_year b \<and>
       (d_month a < d_month b \<or> d_month a = d_month b \<and> d_day a \<le> d_day b)"

definition less_date :: "date \<Rightarrow> date \<Rightarrow> bool" where
  "less_date a b \<longleftrightarrow>
     d_year a < d_year b \<or>
     d_year a = d_year b \<and>
       (d_month a < d_month b \<or> d_month a = d_month b \<and> d_day a < d_day b)"

instance
proof
  fix a b c :: date
  show "a < b \<longleftrightarrow> a \<le> b \<and> \<not> b \<le> a"
    by (auto simp: less_eq_date_def less_date_def)
  show "a \<le> a" by (simp add: less_eq_date_def)
  show "a \<le> b \<Longrightarrow> b \<le> c \<Longrightarrow> a \<le> c" by (auto simp: less_eq_date_def)
  show "a \<le> b \<Longrightarrow> b \<le> a \<Longrightarrow> a = b"
    by (cases a; cases b) (auto simp: less_eq_date_def)
  show "a \<le> b \<or> b \<le> a" by (auto simp: less_eq_date_def)
qed

end

section \<open>Ordinals\<close>

definition days_before_year :: "int \<Rightarrow> int" where
  "days_before_year y =
     (let p = y - 1 in p * 365 + p div 4 - p div 100 + p div 400)"

definition days_before_month :: "int \<Rightarrow> int \<Rightarrow> int" where
  "days_before_month y m =
     (let f = (if leap_year y then 1 else 0) in
      if m \<le> 1 then 0 else if m = 2 then 31 else if m = 3 then 59 + f
      else if m = 4 then 90 + f else if m = 5 then 120 + f else if m = 6 then 151 + f
      else if m = 7 then 181 + f else if m = 8 then 212 + f else if m = 9 then 243 + f
      else if m = 10 then 273 + f else if m = 11 then 304 + f else 334 + f)"

definition to_ordinal :: "date \<Rightarrow> int" where
  "to_ordinal d =
     days_before_year (d_year d) + days_before_month (d_year d) (d_month d) + d_day d"

text \<open>\<^verbatim>\<open>date.weekday()\<close>: Monday is 0 and Sunday is 6.\<close>

definition weekday :: "date \<Rightarrow> int" where
  "weekday d = (to_ordinal d + 6) mod 7"

definition next_day :: "date \<Rightarrow> date" where
  "next_day d =
     (if d_day d < days_in_month (d_year d) (d_month d)
      then Date (d_year d) (d_month d) (d_day d + 1)
      else if d_month d < 12 then Date (d_year d) (d_month d + 1) 1
      else Date (d_year d + 1) 1 1)"

definition prev_day :: "date \<Rightarrow> date" where
  "prev_day d =
     (if 1 < d_day d then Date (d_year d) (d_month d) (d_day d - 1)
      else if 1 < d_month d
      then Date (d_year d) (d_month d - 1) (days_in_month (d_year d) (d_month d - 1))
      else Date (d_year d - 1) 12 31)"

fun shift_days :: "(date \<Rightarrow> date) \<Rightarrow> nat \<Rightarrow> date \<Rightarrow> date" where
  "shift_days f 0 d = d"
| "shift_days f (Suc n) d = shift_days f n (f d)"

text \<open>\<^verbatim>\<open>day + timedelta(days=n)\<close>: an overflow outside the years 1..9999 raises.\<close>

definition add_days :: "date \<Rightarrow> int \<Rightarrow> date res" where
  "add_days d n =
     (let d' = (if 0 \<le> n then shift_days next_day (nat n) d
                else shift_days prev_day (nat (- n)) d)
      in if 1 \<le> d_year d' \<and> d_year d' \<le> 9999 then Inr d' else Inl OverflowError)"

subsection \<open>The ordinal is the position of the day\<close>

lemma days_in_month_bounds: "28 \<le> days_in_month y m \<and> days_in_month y m \<le> 31"
  by (simp add: days_in_month_def)

lemma month_cases_int:
  assumes "1 \<le> m" "m \<le> (12::int)"
  shows "m = 1 \<or> m = 2 \<or> m = 3 \<or> m = 4 \<or> m = 5 \<or> m = 6 \<or> m = 7 \<or> m = 8 \<or> m = 9 \<or>
         m = 10 \<or> m = 11 \<or> m = 12"
  using assms by presburger

lemma days_before_month_Suc:
  assumes "1 \<le> m" "m < 12"
  shows "days_before_month y (m + 1) = days_before_month y m + days_in_month y m"
proof -
  from assms have "m = 1 \<or> m = 2 \<or> m = 3 \<or> m = 4 \<or> m = 5 \<or> m = 6 \<or> m = 7 \<or> m = 8 \<or> m = 9 \<or>
      m = 10 \<or> m = 11" by presburger
  then show ?thesis by (elim disjE) (simp_all add: days_before_month_def days_in_month_def)
qed

lemma int_div_Suc:
  assumes "0 < (k::int)"
  shows "(p + 1) div k = p div k + (if (p + 1) mod k = 0 then 1 else 0)"
proof -
  define q r where "q = p div k" and "r = p mod k"
  have p: "p = k * q + r" and r: "0 \<le> r" "r < k"
    using assms by (simp_all add: q_def r_def)
  show ?thesis
  proof (cases "r + 1 < k")
    case True
    with p r have "(p + 1) div k = q" "(p + 1) mod k = r + 1"
      by (auto intro: int_div_pos_eq[where r = "r + 1"] int_mod_pos_eq[where q = q])
    with r show ?thesis by (simp add: q_def)
  next
    case False
    with r have "r = k - 1" by simp
    with p have "p + 1 = k * (q + 1)" by (simp add: distrib_left)
    then have "(p + 1) div k = q + 1" "(p + 1) mod k = 0"
      using assms by (simp_all only: nonzero_mult_div_cancel_left mod_mult_self1_is_0 less_irrefl)
    then show ?thesis by (simp add: q_def)
  qed
qed

lemma mod_zero_400: "(y::int) mod 400 = 0 \<Longrightarrow> y mod 100 = 0"
proof -
  assume "y mod 400 = 0"
  moreover have "y mod 400 mod 100 = y mod 100" by (rule mod_mod_cancel) simp
  ultimately show ?thesis by simp
qed

lemma mod_zero_100: "(y::int) mod 100 = 0 \<Longrightarrow> y mod 4 = 0"
proof -
  assume "y mod 100 = 0"
  moreover have "y mod 100 mod 4 = y mod 4" by (rule mod_mod_cancel) simp
  ultimately show ?thesis by simp
qed

lemma int_div_pred:
  "0 < (k::int) \<Longrightarrow> y div k = (y - 1) div k + (if y mod k = 0 then 1 else 0)"
  using int_div_Suc[of k "y - 1"] by simp

lemma leap_count_step:
  fixes y a b c a' b' c' :: int
  assumes "a = a' + (if p then 1 else 0)" "b = b' + (if q then 1 else 0)"
    "c = c' + (if r then 1 else 0)" "r \<Longrightarrow> q" "q \<Longrightarrow> p"
  shows "y * 365 + a - b + c =
    (y - 1) * 365 + a' - b' + c' + (if p \<and> (\<not> q \<or> r) then 366 else 365)"
  using assms by (cases p; cases q; cases r; simp)

lemma days_before_year_Suc:
  "days_before_year (y + 1) = days_before_year y + (if leap_year y then 366 else 365)"
proof -
  have l: "days_before_year (y + 1) = y * 365 + y div 4 - y div 100 + y div 400"
    by (simp add: days_before_year_def)
  have r: "days_before_year y =
      (y - 1) * 365 + (y - 1) div 4 - (y - 1) div 100 + (y - 1) div 400"
    by (simp only: days_before_year_def Let_def)
  show ?thesis
    unfolding l r leap_year_def
    by (rule leap_count_step [OF int_div_pred int_div_pred int_div_pred
          mod_zero_400 mod_zero_100]) (simp_all only: zero_less_numeral)
qed

lemma days_before_year_December:
  "days_before_month y 12 + 31 = (if leap_year y then 366 else 365)"
  by (simp add: days_before_month_def)

lemma calendar_day_next [simp]: "calendar_day d \<Longrightarrow> calendar_day (next_day d)"
  using days_in_month_bounds[of "d_year d" "d_month d + 1"]
    days_in_month_bounds[of "d_year d + 1" 1]
  by (auto simp: calendar_day_def next_day_def)

lemma calendar_day_prev [simp]: "calendar_day d \<Longrightarrow> calendar_day (prev_day d)"
  using days_in_month_bounds[of "d_year d" "d_month d - 1"]
  by (auto simp: calendar_day_def prev_day_def days_in_month_def)

lemma to_ordinal_next_day: "calendar_day d \<Longrightarrow> to_ordinal (next_day d) = to_ordinal d + 1"
proof -
  assume c: "calendar_day d"
  show ?thesis
  proof (cases "d_day d < days_in_month (d_year d) (d_month d)")
    case True
    then show ?thesis by (simp add: next_day_def to_ordinal_def)
  next
    case False
    with c have last: "d_day d = days_in_month (d_year d) (d_month d)"
      by (simp add: calendar_day_def)
    show ?thesis
    proof (cases "d_month d < 12")
      case True
      with c last show ?thesis
        by (simp add: next_day_def to_ordinal_def calendar_day_def days_before_month_Suc)
    next
      case 12: False
      with c have "d_month d = 12" by (simp add: calendar_day_def)
      with last show ?thesis
        using days_before_year_December[of "d_year d"]
        by (simp add: next_day_def to_ordinal_def days_before_year_Suc days_in_month_def)
          (simp add: days_before_month_def)
    qed
  qed
qed

lemma next_prev_day: "calendar_day d \<Longrightarrow> next_day (prev_day d) = d"
  using days_in_month_bounds[of "d_year d" "d_month d"]
  by (cases d) (auto simp: calendar_day_def next_day_def prev_day_def days_in_month_def)

lemma to_ordinal_prev_day: "calendar_day d \<Longrightarrow> to_ordinal (prev_day d) = to_ordinal d - 1"
  using to_ordinal_next_day[of "prev_day d"] by (simp add: next_prev_day)

lemma calendar_day_shift [simp]:
  "calendar_day d \<Longrightarrow> calendar_day (shift_days next_day n d)"
  "calendar_day d \<Longrightarrow> calendar_day (shift_days prev_day n d)"
  by (induction n arbitrary: d) auto

lemma to_ordinal_shift:
  "calendar_day d \<Longrightarrow> to_ordinal (shift_days next_day n d) = to_ordinal d + int n"
  "calendar_day d \<Longrightarrow> to_ordinal (shift_days prev_day n d) = to_ordinal d - int n"
  by (induction n arbitrary: d) (auto simp: to_ordinal_next_day to_ordinal_prev_day)

lemma add_days_ordinal:
  assumes "calendar_day d" "add_days d n = Inr d'"
  shows "to_ordinal d' = to_ordinal d + n" "valid_date d'"
  using assms
  by (auto simp: add_days_def Let_def valid_date_def to_ordinal_shift split: if_splits)

subsection \<open>The ordinal order is the calendar order\<close>

lemma days_before_year_mono: "y \<le> y' \<Longrightarrow> days_before_year y \<le> days_before_year y'"
proof -
  have "days_before_year y \<le> days_before_year (y + int n)" for n
  proof (induction n)
    case 0
    then show ?case by simp
  next
    case (Suc n)
    have "days_before_year (y + int (Suc n)) =
        days_before_year (y + int n) + (if leap_year (y + int n) then 366 else 365)"
      using days_before_year_Suc[of "y + int n"] by (simp add: ac_simps)
    with Suc show ?case by (simp split: if_splits)
  qed
  from this[of "nat (y' - y)"] show "y \<le> y' \<Longrightarrow> ?thesis" by simp
qed

lemma days_before_month_mono:
  assumes "1 \<le> m" "m < m'" "m' \<le> 12"
  shows "days_before_month y m + days_in_month y m \<le> days_before_month y m'"
proof -
  have "m + 1 + int n \<le> 12 \<Longrightarrow>
      days_before_month y (m + 1) \<le> days_before_month y (m + 1 + int n)" for n
  proof (induction n)
    case 0
    then show ?case by simp
  next
    case (Suc n)
    with assms have "days_before_month y (m + 1 + int (Suc n)) =
        days_before_month y (m + 1 + int n) + days_in_month y (m + 1 + int n)"
      using days_before_month_Suc[of "m + 1 + int n" y] by (simp add: ac_simps)
    with Suc show ?case using days_in_month_bounds[of y "m + 1 + int n"] by simp
  qed
  from this[of "nat (m' - (m + 1))"] assms show ?thesis
    by (simp add: days_before_month_Suc)
qed

lemma to_ordinal_year_bounds:
  assumes "calendar_day d"
  shows "days_before_year (d_year d) < to_ordinal d"
    and "to_ordinal d \<le> days_before_year (d_year d + 1)"
proof -
  have m: "1 \<le> d_month d" "d_month d \<le> 12" and d: "1 \<le> d_day d"
    "d_day d \<le> days_in_month (d_year d) (d_month d)"
    using assms by (auto simp: calendar_day_def)
  have nn: "0 \<le> days_before_month (d_year d) (d_month d)"
    by (simp add: days_before_month_def Let_def)
  then show "days_before_year (d_year d) < to_ordinal d"
    using d by (simp add: to_ordinal_def)
  have "days_before_month (d_year d) (d_month d) + d_day d \<le>
      (if leap_year (d_year d) then 366 else 365)"
  proof (cases "d_month d = 12")
    case True
    then show ?thesis using d by (simp add: days_in_month_def days_before_month_def)
  next
    case False
    with m have "days_before_month (d_year d) (d_month d) + days_in_month (d_year d) (d_month d)
        \<le> days_before_month (d_year d) 12"
      by (intro days_before_month_mono) auto
    then show ?thesis using d days_before_year_December[of "d_year d"]
      by (simp split: if_splits)
  qed
  then show "to_ordinal d \<le> days_before_year (d_year d + 1)"
    by (simp add: to_ordinal_def days_before_year_Suc split: if_splits)
qed

lemma to_ordinal_less:
  assumes "calendar_day a" "calendar_day b" "a < b"
  shows "to_ordinal a < to_ordinal b"
proof -
  consider "d_year a < d_year b"
    | "d_year a = d_year b" "d_month a < d_month b"
    | "d_year a = d_year b" "d_month a = d_month b" "d_day a < d_day b"
    using assms(3) by (auto simp: less_date_def)
  then show ?thesis
  proof cases
    case 1
    then have "days_before_year (d_year a + 1) \<le> days_before_year (d_year b)"
      by (intro days_before_year_mono) simp
    with to_ordinal_year_bounds(2)[OF assms(1)] to_ordinal_year_bounds(1)[OF assms(2)]
    show ?thesis by simp
  next
    case 2
    with assms have "days_before_month (d_year a) (d_month a) + days_in_month (d_year a) (d_month a)
        \<le> days_before_month (d_year a) (d_month b)"
      by (intro days_before_month_mono) (auto simp: calendar_day_def)
    with 2 assms show ?thesis by (simp add: to_ordinal_def calendar_day_def)
  next
    case 3
    then show ?thesis by (simp add: to_ordinal_def)
  qed
qed

lemma to_ordinal_less_iff:
  "calendar_day a \<Longrightarrow> calendar_day b \<Longrightarrow> to_ordinal a < to_ordinal b \<longleftrightarrow> a < b"
  by (metis to_ordinal_less less_asym linorder_neqE)

lemma to_ordinal_le_iff:
  "calendar_day a \<Longrightarrow> calendar_day b \<Longrightarrow> to_ordinal a \<le> to_ordinal b \<longleftrightarrow> a \<le> b"
  by (metis to_ordinal_less_iff not_less)

lemma to_ordinal_inj:
  "calendar_day a \<Longrightarrow> calendar_day b \<Longrightarrow> to_ordinal a = to_ordinal b \<longleftrightarrow> a = b"
  by (metis to_ordinal_le_iff antisym order_refl)

lemma date_le_year: "a \<le> b \<Longrightarrow> d_year a \<le> d_year b"
  by (auto simp: less_eq_date_def)

lemma mk_date_Inr: "mk_date y m d = Inr x \<longleftrightarrow> x = Date y m d \<and> valid_date (Date y m d)"
  by (auto simp: mk_date_def)

lemma valid_date_calendar_day [simp]: "valid_date d \<Longrightarrow> calendar_day d"
  by (simp add: valid_date_def)

lemma calendar_day_month_start [simp]: "calendar_day d \<Longrightarrow> calendar_day (month_start d)"
  using days_in_month_bounds[of "d_year d" "d_month d"]
  by (auto simp: calendar_day_def month_start_def)

lemma valid_date_month_start [simp]: "valid_date d \<Longrightarrow> valid_date (month_start d)"
  by (auto simp: valid_date_def month_start_def intro: calendar_day_month_start[of d, unfolded month_start_def])

end
