(* ===== verification/Holidays.thy ===== *)
theory Holidays
  imports Py_Date "HOL-Library.Product_Lexorder" "HOL-Library.List_Lexorder"
    "HOL-Library.Char_ord"
begin

text \<open>
  \<^verbatim>\<open>apps/obligations/holidays.py\<close>: Easter by the anonymous Gregorian algorithm, the
  national holidays of a year and the business-day test against the holiday table.  The
  lemmas show that the algorithm is right for every year of the calendar: its date exists,
  falls between 22 March and 25 April and is a Sunday.
\<close>

section \<open>Model\<close>

text \<open>Holiday names are UTF-8 strings, so their list order is Python's string order.\<close>

definition c_cedilla :: string where "c_cedilla = [CHR 0xC3, CHR 0xA7]"
definition a_tilde :: string where "a_tilde = [CHR 0xC3, CHR 0xA3]"
definition a_acute :: string where "a_acute = [CHR 0xC3, CHR 0xA1]"
definition e_circumflex :: string where "e_circumflex = [CHR 0xC3, CHR 0xAA]"
definition u_acute :: string where "u_acute = [CHR 0xC3, CHR 0xBA]"

definition MOVABLE_FEASTS :: "(int \<times> string) list" where
  "MOVABLE_FEASTS =
     [(- 48, ''Carnaval (segunda-feira)''),
      (- 47, ''Carnaval (ter'' @ c_cedilla @ ''a-feira)''),
      (- 2, ''Sexta-feira Santa''),
      (60, ''Corpus Christi'')]"

definition FIXED_HOLIDAYS :: "(int \<times> int \<times> string) list" where
  "FIXED_HOLIDAYS =
     [(1, 1, ''Confraterniza'' @ c_cedilla @ a_tilde @ ''o Universal''),
      (4, 21, ''Tiradentes''),
      (5, 1, ''Dia do Trabalho''),
      (9, 7, ''Independ'' @ e_circumflex @ ''ncia do Brasil''),
      (10, 12, ''Nossa Senhora Aparecida''),
      (11, 2, ''Finados''),
      (11, 15, ''Proclama'' @ c_cedilla @ a_tilde @ ''o da Rep'' @ u_acute @ ''blica''),
      (11, 20, ''Dia Nacional de Zumbi e da Consci'' @ e_circumflex @ ''ncia Negra''),
      (12, 25, ''Natal'')]"

datatype holiday_scope = NATIONAL | MUNICIPAL

definition easter_sunday :: "int \<Rightarrow> date res" where
  "easter_sunday y =
     (let golden_number = y mod 19;
          century = y div 100; year_of_century = y mod 100;
          century_leap = century div 4; century_remainder = century mod 4;
          lunar_correction = (century + 8) div 25;
          solar_correction = (century - lunar_correction + 1) div 3;
          epact = (19 * golden_number + century - century_leap - solar_correction + 15) mod 30;
          leap_of_century = year_of_century div 4; year_remainder = year_of_century mod 4;
          weekday_offset =
            (32 + 2 * century_remainder + 2 * leap_of_century - epact - year_remainder) mod 7;
          correction = (golden_number + 11 * epact + 22 * weekday_offset) div 451;
          position = epact + weekday_offset - 7 * correction + 114
      in mk_date y (position div 31) (position mod 31 + 1))"

fun movable_holidays :: "date \<Rightarrow> (int \<times> string) list \<Rightarrow> (date \<times> string) list res" where
  "movable_holidays easter [] = Inr []"
| "movable_holidays easter ((offset, name) # feasts) =
     res_bind (add_days easter offset) (\<lambda>d.
     res_bind (movable_holidays easter feasts) (\<lambda>rest. Inr ((d, name) # rest)))"

fun fixed_holidays :: "int \<Rightarrow> (int \<times> int \<times> string) list \<Rightarrow> (date \<times> string) list res" where
  "fixed_holidays y [] = Inr []"
| "fixed_holidays y ((m, d, name) # days) =
     res_bind (mk_date y m d) (\<lambda>day.
     res_bind (fixed_holidays y days) (\<lambda>rest. Inr ((day, name) # rest)))"

definition national_holidays :: "int \<Rightarrow> (date \<times> string) list res" where
  "national_holidays y =
     res_bind (easter_sunday y) (\<lambda>easter.
     res_bind (movable_holidays easter MOVABLE_FEASTS) (\<lambda>movable.
     res_bind (fixed_holidays y FIXED_HOLIDAYS) (\<lambda>fixed.
       Inr (sort (movable @ fixed)))))"

text \<open>A row of the holiday table; the name plays no part in the lookup.\<close>

record holiday_row =
  hol_date :: date
  hol_scope :: holiday_scope

definition is_business_day :: "holiday_row list \<Rightarrow> holiday_scope list \<Rightarrow> date \<Rightarrow> bool" where
  "is_business_day table scopes day =
     (if 5 \<le> weekday day then False
      else \<not> list_ex (\<lambda>h. hol_date h = day \<and> hol_scope h \<in> set scopes) table)"

section \<open>Easter\<close>

text \<open>The position of the feast after 22 March, for the remainders the algorithm computes.\<close>

lemma easter_position_range:
  fixes a h l :: int
  assumes "0 \<le> a" "a \<le> 18" "0 \<le> h" "h \<le> 29" "0 \<le> l" "l \<le> 6"
  shows "0 \<le> h + l - 7 * ((a + 11 * h + 22 * l) div 451)"
    and "h + l - 7 * ((a + 11 * h + 22 * l) div 451) \<le> 34"
proof -
  let ?s = "a + 11 * h + 22 * l"
  have "0 \<le> ?s" "?s < 902" using assms by linarith+
  then consider "?s < 451" "?s div 451 = 0" | "451 \<le> ?s" "?s div 451 = 1"
    by (cases "?s < 451") (auto simp: div_pos_pos_trivial intro: int_div_pos_eq[where r = "?s - 451"])
  then have "0 \<le> h + l - 7 * (?s div 451) \<and> h + l - 7 * (?s div 451) \<le> 34"
  proof cases
    case 1
    then have "h + l \<le> 34" using assms by linarith
    with 1 assms show ?thesis by simp
  next
    case 2
    then have "7 \<le> h + l" using assms by linarith
    with 2 assms show ?thesis by simp
  qed
  then show "0 \<le> h + l - 7 * (?s div 451)" "h + l - 7 * (?s div 451) \<le> 34" by simp_all
qed

lemma march_position:
  fixes p :: int
  assumes "0 \<le> p" "p \<le> 34"
  shows "((p + 114) div 31 = 3 \<and> (p + 114) mod 31 + 1 = p + 22 \<and> p \<le> 9) \<or>
         ((p + 114) div 31 = 4 \<and> (p + 114) mod 31 + 1 = p - 9 \<and> 10 \<le> p)"
proof (cases "p \<le> 9")
  case True
  with assms have "(p + 114) div 31 = 3" "(p + 114) mod 31 = p + 21"
    by (auto intro!: int_div_pos_eq[where r = "p + 21"] int_mod_pos_eq[where q = 3])
  with True show ?thesis by simp
next
  case False
  with assms have "(p + 114) div 31 = 4" "(p + 114) mod 31 = p - 10"
    by (auto intro!: int_div_pos_eq[where r = "p - 10"] int_mod_pos_eq[where q = 4])
  with False show ?thesis by simp
qed

text \<open>A day \<open>k\<close> days after the last of February, in either month.\<close>

definition after_february :: "int \<Rightarrow> int \<Rightarrow> int" where
  "after_february y k = days_before_year (y + 1) - 306 + k"

lemma to_ordinal_march: "to_ordinal (Date y 3 k) = after_february y k"
  by (simp add: to_ordinal_def after_february_def days_before_year_Suc days_before_month_def)

lemma to_ordinal_april: "to_ordinal (Date y 4 k) = after_february y (k + 31)"
  by (simp add: to_ordinal_def after_february_def days_before_year_Suc days_before_month_def)

lemma after_february_eq:
  "after_february y k = y * 365 + y div 4 - y div 100 + y div 400 - 306 + k"
  by (simp add: after_february_def days_before_year_def)

lemma easter_ordinal_identity:
  fixes c d e i k h m q y r l :: int
  assumes "y = 100 * c + r" "c = 4 * d + e" "r = 4 * i + k"
    "l = 32 + 2 * e + 2 * i - h - k - 7 * q"
  shows "y * 365 + (25 * c + i) - c + d - 306 + (h + l - 7 * m + 22) =
    7 * (20871 * d + 5218 * e + 209 * i + 52 * k - 36 - q - m)"
  by (simp add: assms algebra_simps)

text \<open>
  The congruence behind the algorithm: with the century split into \<open>4 d + e\<close> and the year of
  the century into \<open>4 i + k\<close>, the day it names is a multiple of seven days after a Sunday.
\<close>

lemma sunday_congruence:
  fixes y h m :: int
  defines "c \<equiv> y div 100" and "r \<equiv> y mod 100"
  defines "l \<equiv> (32 + 2 * (c mod 4) + 2 * (r div 4) - h - r mod 4) mod 7"
  shows "after_february y (h + l - 7 * m + 22) mod 7 = 0"
proof -
  define d e i k where "d = c div 4" and "e = c mod 4" and "i = r div 4" and "k = r mod 4"
  define q where "q = (32 + 2 * e + 2 * i - h - k) div 7"
  have c: "c = 4 * d + e" and r: "r = 4 * i + k" and y: "y = 100 * c + r"
    by (simp_all add: d_def e_def i_def k_def c_def r_def)
  have l: "l = 32 + 2 * e + 2 * i - h - k - 7 * q"
    unfolding l_def q_def e_def [symmetric] i_def [symmetric] k_def [symmetric]
    by (simp only: minus_mult_div_eq_mod)
  have "y div 4 = 25 * c + i"
  proof -
    have "y = 4 * (25 * c + i) + k" using y r by simp
    moreover have "0 \<le> k" "k < 4" by (simp_all add: k_def)
    ultimately show ?thesis by (intro int_div_pos_eq[where r = k]) simp_all
  qed
  moreover have "y div 100 = c" by (simp add: c_def)
  moreover have "y div 400 = d"
    unfolding c_def d_def by (simp add: zdiv_zmult2_eq[symmetric])
  ultimately have "after_february y (h + l - 7 * m + 22) =
      y * 365 + (25 * c + i) - c + d - 306 + (h + l - 7 * m + 22)"
    by (simp only: after_february_eq)
  also have "\<dots> = 7 * (20871 * d + 5218 * e + 209 * i + 52 * k - 36 - q - m)"
    by (rule easter_ordinal_identity[OF y c r l])
  finally have "after_february y (h + l - 7 * m + 22) =
      7 * (20871 * d + 5218 * e + 209 * i + 52 * k - 36 - q - m)" .
  then show ?thesis by simp
qed

lemma easter_sunday_cases:
  obtains p where "0 \<le> p" "p \<le> 34" "after_february y (p + 22) mod 7 = 0"
    "easter_sunday y = (if p \<le> 9 then mk_date y 3 (p + 22) else mk_date y 4 (p - 9))"
proof -
  define a c r where "a = y mod 19" and "c = y div 100" and "r = y mod 100"
  define h where "h = (19 * a + c - c div 4 - (c - (c + 8) div 25 + 1) div 3 + 15) mod 30"
  define l where "l = (32 + 2 * (c mod 4) + 2 * (r div 4) - h - r mod 4) mod 7"
  define m where "m = (a + 11 * h + 22 * l) div 451"
  define p where "p = h + l - 7 * m"
  have low: "0 \<le> a" "0 \<le> h" "0 \<le> l"
    unfolding a_def h_def l_def by (rule pos_mod_sign, simp only: zero_less_numeral)+
  have "a < 19" "h < 30" "l < 7"
    unfolding a_def h_def l_def by (rule pos_mod_bound, simp only: zero_less_numeral)+
  then have "a \<le> 18" "h \<le> 29" "l \<le> 6" by auto
  then have range: "0 \<le> p" "p \<le> 34"
    unfolding p_def m_def using low by (simp_all add: easter_position_range)
  have "after_february y (p + 22) mod 7 = 0"
    unfolding p_def l_def c_def r_def by (rule sunday_congruence)
  moreover have "easter_sunday y = mk_date y ((p + 114) div 31) ((p + 114) mod 31 + 1)"
    unfolding easter_sunday_def Let_def p_def m_def l_def h_def a_def c_def r_def
    by (rule refl)
  then have "easter_sunday y = (if p \<le> 9 then mk_date y 3 (p + 22) else mk_date y 4 (p - 9))"
    using march_position[OF range] by (elim disjE) (simp_all only: if_True, simp)
  ultimately show ?thesis
    by (rule that[OF range])
qed

lemma weekday_sunday_iff: "weekday d = 6 \<longleftrightarrow> to_ordinal d mod 7 = 0"
proof -
  have "(n + 6) mod 7 = 6 \<longleftrightarrow> n mod 7 = 0" for n :: int by presburger
  then show ?thesis by (simp only: weekday_def)
qed

section \<open>Properties\<close>

text \<open>for every year of the Python calendar the Easter computation returns a date, it is a
  Sunday, and it falls between 22 March and 25 April.\<close>

theorem easter_is_a_spring_sunday:
  "1 \<le> y \<and> y \<le> 9999 \<longrightarrow>
     (\<exists>d. easter_sunday y = Inr d \<and> valid_date d \<and> d_year d = y \<and> weekday d = 6 \<and>
          Date y 3 22 \<le> d \<and> d \<le> Date y 4 25)"
proof
  assume y: "1 \<le> y \<and> y \<le> 9999"
  obtain p where p: "0 \<le> p" "p \<le> 34" "after_february y (p + 22) mod 7 = 0"
    and e: "easter_sunday y = (if p \<le> 9 then mk_date y 3 (p + 22) else mk_date y 4 (p - 9))"
    by (rule easter_sunday_cases)
  show "\<exists>d. easter_sunday y = Inr d \<and> valid_date d \<and> d_year d = y \<and> weekday d = 6 \<and>
      Date y 3 22 \<le> d \<and> d \<le> Date y 4 25"
  proof (cases "p \<le> 9")
    case True
    with p y have "valid_date (Date y 3 (p + 22))"
      by (simp add: valid_date_def calendar_day_def days_in_month_def)
    with True p e show ?thesis
      by (intro exI[of _ "Date y 3 (p + 22)"])
        (simp add: mk_date_def weekday_sunday_iff to_ordinal_march less_eq_date_def)
  next
    case False
    with p y have "valid_date (Date y 4 (p - 9))"
      by (simp add: valid_date_def calendar_day_def days_in_month_def)
    moreover have "to_ordinal (Date y 4 (p - 9)) = after_february y (p + 22)"
      by (simp add: to_ordinal_april add.commute)
    ultimately show ?thesis
      using False p e
      by (intro exI[of _ "Date y 4 (p - 9)"])
        (simp add: mk_date_def weekday_sunday_iff less_eq_date_def)
  qed
qed

theorem easter_is_a_spring_sunday_witness:
  "easter_sunday 2026 = Inr (Date 2026 4 5) \<and> weekday (Date 2026 4 5) = 6"
proof -
  have e: "easter_sunday 2026 = Inr (Date 2026 4 5)" by code_simp
  with easter_is_a_spring_sunday [of 2026] show ?thesis by simp
qed

end
