(* ===== verification/Effective_Dating.thy ===== *)
theory Effective_Dating
  imports Py_Date
begin

text \<open>
  Effective-dated reference data: rows with a first day and an optional exclusive last day,
  read by a selection that answers with the latest row covering a day.  The locale states
  what every such reader promises; the due rules, the fiscal parameters and the tax profiles
  of the code are its instances, in the theories of their components.
\<close>

section \<open>Ordering and first rows\<close>

text \<open>\<^verbatim>\<open>.order_by("-key")\<close>, \<^verbatim>\<open>.first()\<close> and Python's \<^verbatim>\<open>max(rows, key=...)\<close>.\<close>

definition order_by_desc :: "('r \<Rightarrow> 'k::linorder) \<Rightarrow> 'r list \<Rightarrow> 'r list" where
  "order_by_desc key rows = rev (sort_key key rows)"

definition first_row :: "'r list \<Rightarrow> 'r option" where
  "first_row rows = (case rows of [] \<Rightarrow> None | r # _ \<Rightarrow> Some r)"

fun max_by :: "('r \<Rightarrow> 'k::linorder) \<Rightarrow> 'r \<Rightarrow> 'r list \<Rightarrow> 'r" where
  "max_by key best [] = best"
| "max_by key best (r # rs) = max_by key (if key best < key r then r else best) rs"

text \<open>A row is in force from its first day until the day before its end, when it has one.\<close>

definition in_force :: "date \<Rightarrow> date option \<Rightarrow> date \<Rightarrow> bool" where
  "in_force from until on =
     (from \<le> on \<and> (case until of None \<Rightarrow> True | Some u \<Rightarrow> on < u))"

lemma set_order_by_desc [simp]: "set (order_by_desc key rows) = set rows"
  by (simp add: order_by_desc_def)

lemma sorted_order_by_desc: "sorted_wrt (\<lambda>a b. key b \<le> key a) (order_by_desc key rows)"
proof -
  have "sorted_wrt (\<lambda>a b. key a \<le> key b) (sort_key key rows)"
    using sorted_sort_key[of key rows] by (simp add: sorted_map)
  then show ?thesis by (simp add: order_by_desc_def sorted_wrt_rev)
qed

lemma sorted_find_first:
  assumes "sorted_wrt (\<lambda>a b. key b \<le> key a) rows" "find P rows = Some r" "r' \<in> set rows" "P r'"
  shows "key r' \<le> (key r :: 'k::linorder)"
  using assms by (induction rows) (auto split: if_splits)

lemma first_row_None [simp]: "first_row rows = None \<longleftrightarrow> rows = []"
  by (cases rows) (simp_all add: first_row_def)

lemma first_row_filter: "first_row (filter P rows) = find P rows"
  by (induction rows) (simp_all add: first_row_def)

lemma first_row_find: "first_row rows = find (\<lambda>_. True) rows"
  by (cases rows) (simp_all add: first_row_def)

lemma max_by_in: "max_by key best rows \<in> insert best (set rows)"
  by (induction rows arbitrary: best) (auto split: if_splits)

lemma max_by_mem:
  assumes "best \<in> A" "set rows \<subseteq> A"
  shows "max_by key best rows \<in> A"
  using max_by_in[of key best rows] assms by auto

lemma max_by_greatest: "r \<in> insert best (set rows) \<Longrightarrow> key r \<le> key (max_by key best rows)"
proof (induction rows arbitrary: best r)
  case Nil
  then show ?case by simp
next
  case (Cons x xs)
  let ?b = "if key best < key x then x else best"
  have best: "key ?b \<le> key (max_by key ?b xs)" by (rule Cons.IH) simp
  show ?case
  proof (cases "r \<in> set xs")
    case True
    then have "key r \<le> key (max_by key ?b xs)" by (intro Cons.IH) simp
    then show ?thesis by simp
  next
    case False
    with Cons.prems have "r = best \<or> r = x" by auto
    then have "key r \<le> key ?b" by auto
    with best show ?thesis by simp
  qed
qed

section \<open>Latest wins\<close>

locale effective_dating =
  fixes valid_from :: "'r \<Rightarrow> date"
    and covers :: "date \<Rightarrow> 'r \<Rightarrow> bool"
    and pick :: "'r list \<Rightarrow> date \<Rightarrow> 'r option"
  assumes covers_from: "covers on r \<Longrightarrow> valid_from r \<le> on"
    and pick_covers: "pick rows on = Some r \<Longrightarrow> r \<in> set rows \<and> covers on r"
    and pick_latest: "pick rows on = Some r \<Longrightarrow> r' \<in> set rows \<Longrightarrow> covers on r' \<Longrightarrow>
      valid_from r' \<le> valid_from r"
    and pick_None: "pick rows on = None \<Longrightarrow> r \<in> set rows \<Longrightarrow> \<not> covers on r"
begin

lemma pick_None_iff: "pick rows on = None \<longleftrightarrow> (\<forall>r\<in>set rows. \<not> covers on r)"
  by (metis not_None_eq pick_None pick_covers)

text \<open>Where no two rows start on the same day, the answer is a property of the set of rows.\<close>

lemma pick_eqI:
  assumes "inj_on valid_from (set rows)" "r \<in> set rows" "covers on r"
    "\<And>r'. r' \<in> set rows \<Longrightarrow> covers on r' \<Longrightarrow> valid_from r' \<le> valid_from r"
  shows "pick rows on = Some r"
proof (cases "pick rows on")
  case None
  then show ?thesis using pick_None assms(2,3) by blast
next
  case (Some p)
  then have "p \<in> set rows" "covers on p" using pick_covers by blast+
  then have "valid_from p \<le> valid_from r" using assms(4) by blast
  moreover have "valid_from r \<le> valid_from p" using pick_latest Some assms(2,3) by blast
  ultimately have "p = r" using assms(1,2) \<open>p \<in> set rows\<close> by (auto dest: inj_onD)
  with Some show ?thesis by simp
qed

lemma pick_set_cong:
  assumes "inj_on valid_from (set rows)" "set rows = set rows'"
  shows "pick rows on = pick rows' on"
proof (cases "pick rows' on")
  case None
  then have "pick rows on = None" using assms(2) pick_None_iff by metis
  with None show ?thesis by simp
next
  case (Some r)
  then show ?thesis
    using pick_covers[OF Some] pick_latest[OF Some] assms pick_eqI[of rows r on] by auto
qed

text \<open>Superseding is a pure insert: days before the new row keep their answer.\<close>

lemma pick_insert_before:
  assumes "inj_on valid_from (set rows)" "on < valid_from new"
  shows "pick (new # rows) on = pick rows on"
proof -
  have new: "\<not> covers on new" using covers_from[of on new] assms(2) by auto
  show ?thesis
  proof (cases "pick rows on")
    case None
    then have "pick (new # rows) on = None" using new pick_None_iff by (metis set_ConsD)
    with None show ?thesis by simp
  next
    case (Some r)
    obtain p where p: "pick (new # rows) on = Some p"
      using Some pick_covers[OF Some] pick_None[of "new # rows" on r]
      by (cases "pick (new # rows) on") auto
    then have "p \<in> set rows" "covers on p" using pick_covers[OF p] new by auto
    moreover have "valid_from p = valid_from r"
      using pick_latest[OF Some, of p] pick_latest[OF p, of r] pick_covers[OF Some] calculation
      by auto
    ultimately have "p = r" using assms(1) pick_covers[OF Some] by (auto dest: inj_onD)
    with p Some show ?thesis by simp
  qed
qed

lemma pick_insert_after:
  assumes "covers on new" "\<And>r. r \<in> set rows \<Longrightarrow> valid_from r < valid_from new"
  shows "pick (new # rows) on = Some new"
proof -
  obtain p where p: "pick (new # rows) on = Some p"
    using pick_None[of "new # rows" on new] assms(1) by (cases "pick (new # rows) on") auto
  have "valid_from new \<le> valid_from p" using pick_latest[OF p, of new] assms(1) by simp
  then have "p = new" using pick_covers[OF p] assms(2)[of p] by auto
  with p show ?thesis by simp
qed

end

text \<open>Both ways the code selects satisfy the contract: order and take the first, and scan.\<close>

lemma first_of_ordered_dating:
  assumes "\<And>on r. covers on r \<Longrightarrow> vf r \<le> on"
  shows "effective_dating vf covers (\<lambda>rows on. find (covers on) (order_by_desc vf rows))"
proof
  fix rows on r r'
  show "covers on r \<Longrightarrow> vf r \<le> on" by (rule assms)
  show "find (covers on) (order_by_desc vf rows) = Some r \<Longrightarrow> r \<in> set rows \<and> covers on r"
    by (drule find_Some_iff_first) simp
  show "find (covers on) (order_by_desc vf rows) = Some r \<Longrightarrow> r' \<in> set rows \<Longrightarrow>
      covers on r' \<Longrightarrow> vf r' \<le> vf r"
    using sorted_find_first[OF sorted_order_by_desc] by (metis set_order_by_desc)
  show "find (covers on) (order_by_desc vf rows) = None \<Longrightarrow> r \<in> set rows \<Longrightarrow> \<not> covers on r"
    by (simp add: find_None_iff)
qed

lemma max_of_filter:
  assumes "filter P rows = r # rs"
  shows "max_by vf r rs \<in> set rows" "P (max_by vf r rs)"
    and "\<And>x. x \<in> set rows \<Longrightarrow> P x \<Longrightarrow> vf x \<le> vf (max_by vf r rs)"
proof -
  have set_eq: "insert r (set rs) = {x \<in> set rows. P x}"
    using arg_cong[OF assms, of set] by simp
  show "max_by vf r rs \<in> set rows" "P (max_by vf r rs)"
    using max_by_in[of vf r rs] unfolding set_eq by blast+
  show "vf x \<le> vf (max_by vf r rs)" if "x \<in> set rows" "P x" for x
    using that set_eq by (intro max_by_greatest) blast
qed

lemma max_of_covering_dating:
  assumes "\<And>on r. covers on r \<Longrightarrow> vf r \<le> on"
  shows "effective_dating vf covers
    (\<lambda>rows on. case filter (covers on) rows of [] \<Rightarrow> None | r # rs \<Rightarrow> Some (max_by vf r rs))"
proof (unfold_locales, goal_cases)
  case 1
  then show ?case by (rule assms)
next
  case (2 rows on r)
  then show ?case by (cases "filter (covers on) rows") (auto dest: max_of_filter)
next
  case (3 rows on r r')
  then show ?case by (cases "filter (covers on) rows") (auto dest: max_of_filter)
next
  case (4 rows on r)
  then show ?case by (cases "filter (covers on) rows") (auto simp: filter_empty_conv)
qed

end
