(* ===== verification/Due_Dates.thy ===== *)
theory Due_Dates
  imports Holidays Effective_Dating
begin

text \<open>
  \<^verbatim>\<open>apps/obligations/rules.py\<close> and \<^verbatim>\<open>apps/obligations/calendar.py\<close>: parsing a stored due
  rule, choosing the era in force, the cache that shares eras across a sweep, placing the
  nominal deadline and moving it to a business day.  The lemmas show that the walk finds the
  nearest business day in the rule's direction and no other, that a cache never changes an
  answer, and that an era is superseded by a pure insert.
\<close>

section \<open>rules.py\<close>

datatype direction = FORWARD | BACKWARD | NO_ROLL

datatype periodicity = MONTHLY | ANNUAL

text \<open>A decoded JSON value, and a decoded object as its members; a Python \<^verbatim>\<open>bool\<close> is an \<^verbatim>\<open>int\<close>, a list, object or float is neither.\<close>

datatype json = JNull | JBool bool | JInt int | JStr string | JOther

record due_rule =
  rule_day :: int
  rule_direction :: direction
  rule_month :: "int option"

definition json_get :: "(string \<times> json) list \<Rightarrow> string \<Rightarrow> json" where
  "json_get raw k = (case map_of raw k of None \<Rightarrow> JNull | Some v \<Rightarrow> v)"

fun json_int :: "json \<Rightarrow> int option" where
  "json_int (JInt i) = Some i"
| "json_int (JBool b) = Some (if b then 1 else 0)"
| "json_int _ = None"

fun direction_of :: "json \<Rightarrow> direction res" where
  "direction_of (JStr s) =
     (if s = ''forward'' then Inr FORWARD else if s = ''backward'' then Inr BACKWARD
      else if s = ''none'' then Inr NO_ROLL else Inl ValueError)"
| "direction_of _ = Inl ValueError"

definition parse_due_rule :: "(string \<times> json) list \<Rightarrow> due_rule res" where
  "parse_due_rule raw =
     res_bind (direction_of (json_get raw ''direction'')) (\<lambda>dir.
     res_bind (the_row (json_int (json_get raw ''day'')) TypeError) (\<lambda>day.
     res_bind (if json_get raw ''month'' = JNull then Inr None
               else res_bind (the_row (json_int (json_get raw ''month'')) TypeError)
                      (\<lambda>m. Inr (Some m))) (\<lambda>month.
       Inr \<lparr>rule_day = day, rule_direction = dir, rule_month = month\<rparr>)))"

record due_era =
  era_pk :: int
  era_type :: string
  era_rule :: "(string \<times> json) list"
  era_from :: date
  era_to :: "date option"

record due_rule_cache =
  cached_eras :: "string \<rightharpoonup> due_era list"
  cached_rules :: "int \<rightharpoonup> due_rule"

definition empty_due_cache :: due_rule_cache where
  "empty_due_cache = \<lparr>cached_eras = Map.empty, cached_rules = Map.empty\<rparr>"

definition era_covers :: "date \<Rightarrow> due_era \<Rightarrow> bool" where
  "era_covers on era = in_force (era_from era) (era_to era) on"

definition eras_of :: "due_era list \<Rightarrow> string \<Rightarrow> due_era list" where
  "eras_of table code = order_by_desc era_from (filter (\<lambda>e. era_type e = code) table)"

definition eras_for ::
  "due_era list \<Rightarrow> due_rule_cache \<Rightarrow> string \<Rightarrow> due_era list \<times> due_rule_cache" where
  "eras_for table c code =
     (case cached_eras c code of
        Some eras \<Rightarrow> (eras, c)
      | None \<Rightarrow> (let eras = eras_of table code
                in (eras, c\<lparr>cached_eras := (cached_eras c)(code \<mapsto> eras)\<rparr>)))"

definition parse_era :: "due_rule_cache \<Rightarrow> due_era \<Rightarrow> due_rule res \<times> due_rule_cache" where
  "parse_era c era =
     (case cached_rules c (era_pk era) of
        Some rule \<Rightarrow> (Inr rule, c)
      | None \<Rightarrow>
          (case parse_due_rule (era_rule era) of
             Inl e \<Rightarrow> (Inl e, c)
           | Inr rule \<Rightarrow>
               (Inr rule, c\<lparr>cached_rules := (cached_rules c)(era_pk era \<mapsto> rule)\<rparr>)))"

definition rule_for ::
  "due_era list \<Rightarrow> due_rule_cache \<Rightarrow> string \<Rightarrow> date \<Rightarrow> due_rule res \<times> due_rule_cache" where
  "rule_for table c code on =
     (let (eras, c') = eras_for table c code in
      case find (era_covers on) eras of
        None \<Rightarrow> (Inl NoEffectiveDueRule, c')
      | Some era \<Rightarrow> parse_era c' era)"

definition due_rule_for :: "due_era list \<Rightarrow> string \<Rightarrow> date \<Rightarrow> due_rule res" where
  "due_rule_for table code on = fst (rule_for table empty_due_cache code on)"

definition following_period :: "date \<Rightarrow> periodicity \<Rightarrow> int \<times> int" where
  "following_period competence p =
     (if p = ANNUAL then (d_year competence + 1, d_month competence)
      else let month = d_month competence + 1 in
           if 12 < month then (d_year competence + 1, 1) else (d_year competence, month))"

definition nominal_due_date :: "due_rule \<Rightarrow> date \<Rightarrow> periodicity \<Rightarrow> date res" where
  "nominal_due_date rule competence p =
     (let (y, m0) = following_period competence p;
          m = (case rule_month rule of Some m \<Rightarrow> m | None \<Rightarrow> m0)
      in res_bind (monthrange_days y m) (\<lambda>n.
         if n < rule_day rule then Inl ValueError else mk_date y m (rule_day rule)))"

section \<open>calendar.py\<close>

definition MAX_BUSINESS_DAY_SHIFT :: nat where "MAX_BUSINESS_DAY_SHIFT = 15"

record resolved_due_date =
  due_nominal :: date
  due_resolved :: date

fun resolve_loop ::
  "holiday_row list \<Rightarrow> holiday_scope list \<Rightarrow> int \<Rightarrow> nat \<Rightarrow> date \<Rightarrow> date res" where
  "resolve_loop holidays scopes step 0 day = Inl ValueError"
| "resolve_loop holidays scopes step (Suc n) day =
     (if is_business_day holidays scopes day then Inr day
      else res_bind (add_days day step) (resolve_loop holidays scopes step n))"

definition resolve_due_date ::
  "holiday_row list \<Rightarrow> date \<Rightarrow> due_rule \<Rightarrow> holiday_scope list \<Rightarrow> date res" where
  "resolve_due_date holidays nominal rule scopes =
     (if rule_direction rule = NO_ROLL then Inr nominal
      else resolve_loop holidays scopes (if rule_direction rule = FORWARD then 1 else - 1)
             MAX_BUSINESS_DAY_SHIFT nominal)"

record obligation_type =
  type_code :: string
  type_periodicity :: periodicity

definition due_date_for ::
  "due_era list \<Rightarrow> holiday_row list \<Rightarrow> due_rule_cache \<Rightarrow> obligation_type \<Rightarrow> date \<Rightarrow>
   holiday_scope list \<Rightarrow> resolved_due_date res \<times> due_rule_cache" where
  "due_date_for eras holidays c ty competence scopes =
     (let (rule, c') = rule_for eras c (type_code ty) competence in
      (res_bind rule (\<lambda>rule.
       res_bind (nominal_due_date rule competence (type_periodicity ty)) (\<lambda>nominal.
       res_bind (resolve_due_date holidays nominal rule scopes) (\<lambda>resolved.
         Inr \<lparr>due_nominal = nominal, due_resolved = resolved\<rparr>))), c'))"

section \<open>The era in force\<close>

definition era_pick :: "due_era list \<Rightarrow> date \<Rightarrow> due_era option" where
  "era_pick rows on = find (era_covers on) (order_by_desc era_from rows)"

interpretation era: effective_dating era_from era_covers era_pick
  unfolding era_pick_def
  by (rule first_of_ordered_dating) (simp add: era_covers_def in_force_def)

lemma due_rule_for_pick:
  "due_rule_for table code on =
     (case era_pick (filter (\<lambda>e. era_type e = code) table) on of
        None \<Rightarrow> Inl NoEffectiveDueRule
      | Some era \<Rightarrow> parse_due_rule (era_rule era))"
  by (simp add: due_rule_for_def rule_for_def eras_for_def empty_due_cache_def era_pick_def
      eras_of_def parse_era_def Let_def split: option.splits sum.splits)

section \<open>The cache\<close>

text \<open>A cache belongs to a table when everything it holds was read from that table.\<close>

definition cache_ok :: "due_era list \<Rightarrow> due_rule_cache \<Rightarrow> bool" where
  "cache_ok table c \<longleftrightarrow>
     (\<forall>code eras. cached_eras c code = Some eras \<longrightarrow> eras = eras_of table code) \<and>
     (\<forall>era\<in>set table. \<forall>rule. cached_rules c (era_pk era) = Some rule \<longrightarrow>
        parse_due_rule (era_rule era) = Inr rule)"

lemma cache_ok_empty: "cache_ok table empty_due_cache"
  by (simp add: cache_ok_def empty_due_cache_def)

lemma eras_for_ok:
  assumes "cache_ok table c"
  shows "fst (eras_for table c code) = eras_of table code"
    and "cache_ok table (snd (eras_for table c code))"
    and "cached_rules (snd (eras_for table c code)) = cached_rules c"
  using assms by (auto simp: eras_for_def cache_ok_def Let_def split: option.splits)

lemma parse_era_ok:
  assumes "cache_ok table c" "era \<in> set table" "distinct (map era_pk table)"
  shows "fst (parse_era c era) = parse_due_rule (era_rule era)"
    and "cache_ok table (snd (parse_era c era))"
proof -
  have unique: "e = era" if "e \<in> set table" "era_pk e = era_pk era" for e
    using that assms(2,3) by (metis distinct_map inj_onD)
  show "fst (parse_era c era) = parse_due_rule (era_rule era)"
    using assms(1,2) by (auto simp: parse_era_def cache_ok_def split: option.splits sum.splits)
  show "cache_ok table (snd (parse_era c era))"
    using assms(1) unique
    by (auto simp: parse_era_def cache_ok_def split: option.splits sum.splits)
qed

lemma rule_for_ok:
  assumes "cache_ok table c" "distinct (map era_pk table)"
  shows "fst (rule_for table c code on) = due_rule_for table code on"
    and "cache_ok table (snd (rule_for table c code on))"
proof -
  obtain eras c' where e: "eras_for table c code = (eras, c')" by fastforce
  have eras: "eras = eras_of table code" and c': "cache_ok table c'"
    using eras_for_ok[OF assms(1), of code] e by simp_all
  have pick: "find (era_covers on) eras = era_pick (filter (\<lambda>e. era_type e = code) table) on"
    by (simp add: eras eras_of_def era_pick_def)
  show "fst (rule_for table c code on) = due_rule_for table code on"
    and "cache_ok table (snd (rule_for table c code on))"
  proof (atomize (full), cases "find (era_covers on) eras")
    case None
    then show "fst (rule_for table c code on) = due_rule_for table code on \<and>
        cache_ok table (snd (rule_for table c code on))"
      using c' pick by (simp add: rule_for_def e due_rule_for_pick)
  next
    case (Some era)
    then have "era \<in> set table" using era.pick_covers pick by fastforce
    then show "fst (rule_for table c code on) = due_rule_for table code on \<and>
        cache_ok table (snd (rule_for table c code on))"
      using Some pick parse_era_ok[OF c' _ assms(2), of era]
      by (simp add: rule_for_def e due_rule_for_pick)
  qed
qed

section \<open>The walk to a business day\<close>

lemma add_days_step:
  assumes "calendar_day d" "step = 1 \<or> step = - 1"
  obtains d' where "calendar_day d'" "to_ordinal d' = to_ordinal d + step"
    "add_days d step = (if 1 \<le> d_year d' \<and> d_year d' \<le> 9999 then Inr d' else Inl OverflowError)"
proof (cases "step = 1")
  case True
  with assms show ?thesis
    by (intro that[of "next_day d"]) (simp_all add: add_days_def Let_def to_ordinal_next_day)
next
  case False
  with assms show ?thesis
    by (intro that[of "prev_day d"]) (auto simp: add_days_def Let_def to_ordinal_prev_day)
qed

text \<open>Nothing the walk passes over can leave the representable years before a valid day ahead.\<close>

lemma year_between:
  assumes "calendar_day x" "valid_date a" "valid_date b"
    "to_ordinal a \<le> to_ordinal x" "to_ordinal x \<le> to_ordinal b"
  shows "1 \<le> d_year x \<and> d_year x \<le> 9999"
proof -
  have "a \<le> x" "x \<le> b"
    using assms to_ordinal_le_iff[of a x] to_ordinal_le_iff[of x b] by simp_all
  then have "d_year a \<le> d_year x" "d_year x \<le> d_year b" by (simp_all add: date_le_year)
  then show ?thesis using assms(2,3) by (simp add: valid_date_def)
qed

text \<open>How many steps away a day is.\<close>

definition steps_to :: "int \<Rightarrow> date \<Rightarrow> date \<Rightarrow> int" where
  "steps_to step day d = step * (to_ordinal d - to_ordinal day)"

definition nearest_business_day ::
  "holiday_row list \<Rightarrow> holiday_scope list \<Rightarrow> int \<Rightarrow> nat \<Rightarrow> date \<Rightarrow> date \<Rightarrow> bool" where
  "nearest_business_day holidays scopes step n day d \<longleftrightarrow>
     valid_date d \<and> is_business_day holidays scopes d \<and>
     0 \<le> steps_to step day d \<and> steps_to step day d < int n \<and>
     (\<forall>x. valid_date x \<and> is_business_day holidays scopes x \<and> 0 \<le> steps_to step day x \<longrightarrow>
        steps_to step day d \<le> steps_to step day x)"

lemma steps_to_zero:
  assumes "valid_date day" "valid_date x" "step = 1 \<or> step = - 1"
  shows "steps_to step day x = 0 \<longleftrightarrow> x = day"
  using assms to_ordinal_inj[of x day] by (auto simp: steps_to_def)

lemma nearest_here:
  assumes "valid_date day" "is_business_day holidays scopes day" "step = 1 \<or> step = - 1"
  shows "nearest_business_day holidays scopes step (Suc n) day d \<longleftrightarrow> d = day"
proof
  assume d: "nearest_business_day holidays scopes step (Suc n) day d"
  then have "valid_date d" "0 \<le> steps_to step day d" "steps_to step day d \<le> steps_to step day day"
    using assms by (auto simp: nearest_business_day_def steps_to_def)
  then have "steps_to step day d = 0" by (simp add: steps_to_def)
  with \<open>valid_date d\<close> show "d = day" using steps_to_zero[OF assms(1) _ assms(3)] by blast
next
  assume "d = day"
  with assms show "nearest_business_day holidays scopes step (Suc n) day d"
    by (simp add: nearest_business_day_def steps_to_def)
qed

lemma nearest_further:
  assumes "valid_date day" "\<not> is_business_day holidays scopes day" "step = 1 \<or> step = - 1"
    "to_ordinal next = to_ordinal day + step"
  shows "nearest_business_day holidays scopes step (Suc n) day d \<longleftrightarrow>
    nearest_business_day holidays scopes step n next d"
proof -
  have dist: "steps_to step next x = steps_to step day x - 1" for x
    using assms(3,4) by (auto simp: steps_to_def)
  have pos: "0 \<le> steps_to step day x \<longleftrightarrow> 0 \<le> steps_to step day x - 1"
    if "valid_date x" "is_business_day holidays scopes x" for x
  proof -
    have "steps_to step day x \<noteq> 0"
      using steps_to_zero[OF assms(1) that(1) assms(3)] that(2) assms(2) by auto
    then show ?thesis by linarith
  qed
  show ?thesis unfolding nearest_business_day_def dist using pos by fastforce
qed

lemma resolve_loop_iff:
  assumes "valid_date day" "step = 1 \<or> step = - 1"
  shows "resolve_loop holidays scopes step n day = Inr d \<longleftrightarrow>
    nearest_business_day holidays scopes step n day d"
  using assms(1)
proof (induction n arbitrary: day)
  case 0
  then show ?case by (simp add: nearest_business_day_def)
next
  case (Suc n)
  show ?case
  proof (cases "is_business_day holidays scopes day")
    case True
    with Suc.prems assms(2) show ?thesis by (auto simp: nearest_here)
  next
    case False
    obtain d' where d': "calendar_day d'" "to_ordinal d' = to_ordinal day + step"
      and add: "add_days day step =
        (if 1 \<le> d_year d' \<and> d_year d' \<le> 9999 then Inr d' else Inl OverflowError)"
      using add_days_step[of day step] Suc.prems assms(2) by auto
    have further: "nearest_business_day holidays scopes step (Suc n) day d \<longleftrightarrow>
        nearest_business_day holidays scopes step n d' d"
      by (rule nearest_further[OF Suc.prems False assms(2) d'(2)])
    show ?thesis
    proof (cases "1 \<le> d_year d' \<and> d_year d' \<le> 9999")
      case True
      with d' have "valid_date d'" by (simp add: valid_date_def)
      with True False further show ?thesis by (simp add: add Suc.IH)
    next
      case out: False
      have "\<not> nearest_business_day holidays scopes step n d' d"
      proof
        assume "nearest_business_day holidays scopes step n d' d"
        then have "valid_date d" "0 \<le> step * (to_ordinal d - to_ordinal d')"
          by (auto simp: nearest_business_day_def steps_to_def)
        then show False
          using out year_between[OF d'(1) Suc.prems, of d] year_between[OF d'(1) _ Suc.prems, of d]
            d'(2) assms(2) by auto
      qed
      with out False further show ?thesis unfolding resolve_loop.simps add by auto
    qed
  qed
qed

lemma due_date_for_ok:
  assumes "cache_ok table c" "distinct (map era_pk table)"
  shows "fst (due_date_for table holidays c ty competence scopes) =
           fst (due_date_for table holidays empty_due_cache ty competence scopes)"
    and "cache_ok table (snd (due_date_for table holidays c ty competence scopes))"
  using rule_for_ok[OF assms, of "type_code ty" competence]
    rule_for_ok[OF cache_ok_empty assms(2), of "type_code ty" competence]
  by (simp_all add: due_date_for_def split_beta)

section \<open>Properties\<close>

text \<open>C34: the resolved deadline is the nearest business day in the rule's direction: the walk
  answers a day exactly when that day is open under the holiday table, lies fewer than fifteen
  days after (or before) the nominal day and no open day is nearer; a rule that does not roll
  keeps the nominal day.\<close>

theorem resolve_due_date_nearest:
  assumes "valid_date nominal"
  shows "resolve_due_date holidays nominal rule scopes = Inr d \<longleftrightarrow>
    (case rule_direction rule of
       NO_ROLL \<Rightarrow> d = nominal
     | FORWARD \<Rightarrow> nearest_business_day holidays scopes 1 15 nominal d
     | BACKWARD \<Rightarrow> nearest_business_day holidays scopes (- 1) 15 nominal d)"
  by (cases "rule_direction rule")
    (auto simp: resolve_due_date_def MAX_BUSINESS_DAY_SHIFT_def resolve_loop_iff[OF assms])

definition holidays_2026 :: "holiday_row list" where
  "holidays_2026 =
     map (\<lambda>d. \<lparr>hol_date = d, hol_scope = NATIONAL\<rparr>)
       [Date 2026 10 12, Date 2026 11 2, Date 2026 11 15, Date 2026 11 20, Date 2026 12 25]"

theorem resolve_due_date_nearest_witness:
  "nearest_business_day holidays_2026 [NATIONAL] 1 15 (Date 2026 11 20) (Date 2026 11 23)"
proof -
  let ?rule = "\<lparr>rule_day = 20, rule_direction = FORWARD, rule_month = None\<rparr>"
  have "resolve_due_date holidays_2026 (Date 2026 11 20) ?rule [NATIONAL] = Inr (Date 2026 11 23)"
    by code_simp
  moreover have "valid_date (Date 2026 11 20)" by code_simp
  ultimately show ?thesis
    using resolve_due_date_nearest [of "Date 2026 11 20" holidays_2026 ?rule "[NATIONAL]"] by simp
qed

text \<open>a rule cache never changes a deadline: whatever it holds was read from the rule table,
  every deadline computed through it equals the one computed with a fresh cache, and it stays
  such a cache, however many obligations of a sweep share it.\<close>

theorem due_cache_transparent:
  assumes "distinct (map era_pk table)" "cache_ok table c"
  shows "fst (due_date_for table holidays c ty competence scopes) =
           fst (due_date_for table holidays empty_due_cache ty competence scopes) \<and>
         cache_ok table (snd (due_date_for table holidays c ty competence scopes))"
  using due_date_for_ok[OF assms(2,1)] by blast

definition das_rule_json :: "(string \<times> json) list" where
  "das_rule_json = [(''day'', JInt 20), (''direction'', JStr ''forward'')]"

definition das_eras :: "due_era list" where
  "das_eras =
     [\<lparr>era_pk = 1, era_type = ''DAS'', era_rule = das_rule_json, era_from = Date 2018 8 1,
       era_to = None\<rparr>]"

definition das_type :: obligation_type where
  "das_type = \<lparr>type_code = ''DAS'', type_periodicity = MONTHLY\<rparr>"

theorem due_cache_transparent_witness:
  "fst (due_date_for das_eras holidays_2026
      (snd (due_date_for das_eras holidays_2026 empty_due_cache das_type (Date 2026 9 1) [NATIONAL]))
      das_type (Date 2026 10 1) [NATIONAL]) =
   Inr \<lparr>due_nominal = Date 2026 11 20, due_resolved = Date 2026 11 23\<rparr>"
proof -
  let ?c = "snd (due_date_for das_eras holidays_2026 empty_due_cache das_type (Date 2026 9 1) [NATIONAL])"
  have distinct: "distinct (map era_pk das_eras)" by code_simp
  then have "cache_ok das_eras ?c" by (rule due_date_for_ok(2)[OF cache_ok_empty])
  then have "fst (due_date_for das_eras holidays_2026 ?c das_type (Date 2026 10 1) [NATIONAL]) =
      fst (due_date_for das_eras holidays_2026 empty_due_cache das_type (Date 2026 10 1) [NATIONAL])"
    using due_cache_transparent [OF distinct, of ?c holidays_2026 das_type "Date 2026 10 1"] by blast
  also have "\<dots> = Inr \<lparr>due_nominal = Date 2026 11 20, due_resolved = Date 2026 11 23\<rparr>"
    by code_simp
  finally show ?thesis .
qed

text \<open>a due rule is superseded by a pure insert.  Adding an era that starts after every
  existing era of its type leaves the rule of every earlier day as it was and answers every day
  it covers with its own rule, wherever the database puts the new row.\<close>

theorem due_rule_superseded_by_insert:
  assumes "era_type new = code" "distinct (map era_from (filter (\<lambda>e. era_type e = code) table))"
    "\<And>e. e \<in> set table \<Longrightarrow> era_type e = code \<Longrightarrow> era_from e < era_from new"
    "set table' = insert new (set table)"
  shows "(on < era_from new \<longrightarrow> due_rule_for table' code on = due_rule_for table code on) \<and>
    (era_covers on new \<longrightarrow> due_rule_for table' code on = parse_due_rule (era_rule new))"
proof -
  let ?old = "filter (\<lambda>e. era_type e = code) table"
  have inj: "inj_on era_from (set ?old)" using assms(2) by (simp only: distinct_map)
  have earlier: "era_from e < era_from new" if "e \<in> set ?old" for e using that assms(3) by simp
  then have new: "era_from new \<notin> era_from ` set ?old" by (metis imageE less_irrefl)
  then have inj': "inj_on era_from (set (new # ?old))"
    using inj new by (auto simp: inj_on_insert)
  have same: "set (new # ?old) = set (filter (\<lambda>e. era_type e = code) table')"
    using assms(1,4) by auto
  have table': "era_pick (filter (\<lambda>e. era_type e = code) table') on = era_pick (new # ?old) on"
    using era.pick_set_cong[OF inj' same] by simp
  have "on < era_from new \<Longrightarrow> due_rule_for table' code on = due_rule_for table code on"
    by (simp add: due_rule_for_pick table' era.pick_insert_before[OF inj])
  moreover have "era_covers on new \<Longrightarrow>
      due_rule_for table' code on = parse_due_rule (era_rule new)"
    using era.pick_insert_after[of on new ?old] earlier by (simp add: due_rule_for_pick table')
  ultimately show ?thesis by blast
qed

definition dae_like_era :: due_era where
  "dae_like_era =
     \<lparr>era_pk = 2, era_type = ''DAS'',
      era_rule = [(''day'', JInt 7), (''direction'', JStr ''backward'')],
      era_from = Date 2027 1 1, era_to = None\<rparr>"

theorem due_rule_superseded_by_insert_witness:
  "due_rule_for (das_eras @ [dae_like_era]) ''DAS'' (Date 2026 12 1) =
     Inr \<lparr>rule_day = 20, rule_direction = FORWARD, rule_month = None\<rparr> \<and>
   due_rule_for (das_eras @ [dae_like_era]) ''DAS'' (Date 2027 1 1) =
     Inr \<lparr>rule_day = 7, rule_direction = BACKWARD, rule_month = None\<rparr>"
proof -
  have hyps: "era_type dae_like_era = ''DAS''"
    "distinct (map era_from (filter (\<lambda>e. era_type e = ''DAS'') das_eras))"
    "\<And>e. e \<in> set das_eras \<Longrightarrow> era_type e = ''DAS'' \<Longrightarrow> era_from e < era_from dae_like_era"
    "set (das_eras @ [dae_like_era]) = insert dae_like_era (set das_eras)"
    by (auto simp: dae_like_era_def das_eras_def less_date_def)
  have "due_rule_for (das_eras @ [dae_like_era]) ''DAS'' (Date 2026 12 1) =
      due_rule_for das_eras ''DAS'' (Date 2026 12 1)"
    using due_rule_superseded_by_insert [OF hyps(1-4), of "Date 2026 12 1"]
    by (simp add: dae_like_era_def less_date_def)
  moreover have "due_rule_for das_eras ''DAS'' (Date 2026 12 1) =
      Inr \<lparr>rule_day = 20, rule_direction = FORWARD, rule_month = None\<rparr>" by code_simp
  moreover have "due_rule_for (das_eras @ [dae_like_era]) ''DAS'' (Date 2027 1 1) =
      parse_due_rule (era_rule dae_like_era)"
    using due_rule_superseded_by_insert [OF hyps(1-4), of "Date 2027 1 1"]
    by (simp add: dae_like_era_def era_covers_def in_force_def)
  moreover have "parse_due_rule (era_rule dae_like_era) =
      Inr \<lparr>rule_day = 7, rule_direction = BACKWARD, rule_month = None\<rparr>" by code_simp
  ultimately show ?thesis by simp
qed

text \<open>the nominal deadline is never clamped: it is the rule's own day in the period after the
  competence (or in the month the rule names), and where that day does not exist the placement
  raises instead of moving to the end of the month.\<close>

theorem nominal_due_date_not_clamped:
  "nominal_due_date rule competence p = Inr d \<longleftrightarrow>
     (let (y, m) = following_period competence p in
      d = Date y (case rule_month rule of None \<Rightarrow> m | Some k \<Rightarrow> k) (rule_day rule) \<and> valid_date d)"
  by (auto simp: nominal_due_date_def split_beta Let_def monthrange_days_def mk_date_def
      valid_date_def calendar_day_def split: option.splits)

end
