(* ===== verification/Tax_Timeline.thy ===== *)
theory Tax_Timeline
  imports Effective_Dating
begin

text \<open>
  The client registry's tax timeline, \<^verbatim>\<open>apps/clients/services.py\<close> with the entitlement fence of
  \<^verbatim>\<open>apps/tenants/entitlements.py\<close> and the read-only rule of \<^verbatim>\<open>apps/tenants/account_state.py\<close>:
  bitemporal claims about a client's regime, the correction that supersedes what it overlaps
  and restates the uncovered slices, and the dual write of the legacy flag.  The lemmas show
  that a correction changes belief exactly on the days it names, keeps the timeline free of
  overlaps (so the exclusion constraint never fires), never rewrites a row's claim and admits
  one of two writers holding the same revision.
\<close>

section \<open>State\<close>

datatype tax_regime = MEI | SIMPLES | PRESUMIDO | REAL | ISENTO | UNKNOWN

datatype mei_category = COMMON | CAMINHONEIRO

datatype client_status = CL_ONBOARDING | CL_ACTIVE | CL_SUSPENDED | CL_CLOSED

datatype profile_confidence = ASSERTED_BY_LEGACY_FLAG | STAFF_RECORDED

record tenant =
  t_id :: int
  t_is_active :: bool
  t_active_client_limit :: "int option"
  t_cancellation_ends_on :: "date option"
  t_billing_suspended :: bool

record client =
  c_id :: int
  c_tenant :: int
  c_status :: client_status
  c_is_mei :: bool
  c_mei_category :: mei_category
  c_opened_on :: "date option"
  c_tax_profile_revision :: int

record tax_profile =
  tp_id :: int
  tp_tenant :: int
  tp_client :: int
  tp_regime :: tax_regime
  tp_category :: "mei_category option"
  tp_from :: date
  tp_to :: "date option"
  tp_provenance :: string
  tp_confidence :: profile_confidence
  tp_recorded_by :: "int option"
  tp_recorded_at :: int
  tp_superseded_at :: "int option"
  tp_correction_of :: "int option"
  tp_note :: string

record tax_event =
  te_actor :: int
  te_tenant :: int
  te_object :: int
  te_client :: int
  te_regime :: tax_regime
  te_from :: date
  te_to :: "date option"
  te_superseded :: "int list"
  te_restated :: "int list"

record registry =
  reg_context :: int
  reg_tenants :: "tenant list"
  reg_clients :: "client list"
  reg_profiles :: "tax_profile list"
  reg_events :: "tax_event list"

text \<open>
  What the authorization service answers to the calls made here: is the client among
  \<^verbatim>\<open>visible_clients(actor)\<close>, and \<^verbatim>\<open>can(actor, "clients.edit_tax_profile", client)\<close>.
\<close>

record client_access =
  acc_visible :: "int \<Rightarrow> client \<Rightarrow> bool"
  acc_can_edit :: "int \<Rightarrow> client \<Rightarrow> bool"

section \<open>account\_state.py and entitlements.py\<close>

definition export_until :: "tenant \<Rightarrow> date option res" where
  "export_until t =
     (case t_cancellation_ends_on t of
        None \<Rightarrow> Inr None
      | Some d \<Rightarrow> res_bind (add_days d 90) (\<lambda>u. Inr (Some u)))"

definition export_available :: "tenant \<Rightarrow> date \<Rightarrow> bool res" where
  "export_available t on =
     res_bind (export_until t) (\<lambda>u. Inr (case u of None \<Rightarrow> True | Some d \<Rightarrow> on \<le> d))"

definition read_only_reason :: "registry \<Rightarrow> tenant \<Rightarrow> date \<Rightarrow> string res" where
  "read_only_reason s t today =
     res_bind (require (reg_context s = t_id t) MissingTenantContext) (\<lambda>_.
       Inr (if (case t_cancellation_ends_on t of None \<Rightarrow> False | Some d \<Rightarrow> d < today)
            then ''cancelled''
            else if t_billing_suspended t then ''suspended'' else ''''))"

definition require_writable :: "registry \<Rightarrow> tenant \<Rightarrow> date \<Rightarrow> unit res" where
  "require_writable s t today =
     res_bind (read_only_reason s t today) (\<lambda>r. require (r = '''') TenantReadOnly)"

definition active_state :: "client_status \<Rightarrow> bool" where
  "active_state st = (st = CL_ONBOARDING \<or> st = CL_ACTIVE)"

definition active_client_count :: "registry \<Rightarrow> int" where
  "active_client_count s =
     int (length (filter (\<lambda>c. c_tenant c = reg_context s \<and> active_state (c_status c))
                    (reg_clients s)))"

definition allowance_allowed :: "int \<Rightarrow> int option \<Rightarrow> int \<Rightarrow> bool" where
  "allowance_allowed active limit additional =
     (additional = 0 \<or> (case limit of None \<Rightarrow> True | Some l \<Rightarrow> active + additional \<le> l))"

definition lock_entitlement :: "registry \<Rightarrow> int \<Rightarrow> date \<Rightarrow> tenant res" where
  "lock_entitlement s tid today =
     res_bind (require (reg_context s = tid) Http404) (\<lambda>_.
     res_bind (the_row (find (\<lambda>t. t_id t = tid \<and> t_is_active t) (reg_tenants s)) Http404) (\<lambda>t.
     res_bind (require_writable s t today) (\<lambda>_. Inr t)))"

definition require_client_capacity :: "registry \<Rightarrow> tenant \<Rightarrow> int \<Rightarrow> unit res" where
  "require_client_capacity s t additional =
     (if additional = 0 \<or> t_active_client_limit t = None then Inr ()
      else res_bind (require (reg_context s = t_id t) Http404) (\<lambda>_.
        require (allowance_allowed (active_client_count s) (t_active_client_limit t) additional)
          (ValidationError ''active_client_limit'')))"

section \<open>Reading the timeline\<close>

definition claim_covers :: "date \<Rightarrow> tax_profile \<Rightarrow> bool" where
  "claim_covers on r = (tp_superseded_at r = None \<and> in_force (tp_from r) (tp_to r) on)"

definition claim_at :: "tax_profile list \<Rightarrow> date \<Rightarrow> tax_profile option" where
  "claim_at rows on =
     (case filter (claim_covers on) rows of
        [] \<Rightarrow> None
      | r # rs \<Rightarrow> Some (max_by tp_from r rs))"

definition profiles_of :: "registry \<Rightarrow> int \<Rightarrow> tax_profile list" where
  "profiles_of s cid = filter (\<lambda>r. tp_client r = cid) (reg_profiles s)"

definition profile_at :: "registry \<Rightarrow> int \<Rightarrow> date \<Rightarrow> tax_profile option" where
  "profile_at s cid on = claim_at (profiles_of s cid) on"

section \<open>Correcting the timeline\<close>

definition lock_tax_profile_client ::
  "client_access \<Rightarrow> registry \<Rightarrow> int \<Rightarrow> client \<Rightarrow> int \<Rightarrow> client res" where
  "lock_tax_profile_client acc s actor client expected =
     res_bind (the_row (find (\<lambda>c. c_id c = c_id client \<and> c_tenant c = c_tenant client \<and>
                                  acc_visible acc actor c) (reg_clients s)) Http404) (\<lambda>locked.
     res_bind (require (acc_can_edit acc actor locked) PermissionDenied) (\<lambda>_.
     res_bind (require (c_tax_profile_revision locked = expected) TaxProfileConflict) (\<lambda>_.
       Inr locked)))"

text \<open>\<^verbatim>\<open>date.max\<close>, the stand-in for an open end in the split arithmetic.\<close>

definition FAR_FUTURE :: date where "FAR_FUTURE = Date 9999 12 31"

definition end_or_far :: "date option \<Rightarrow> date" where
  "end_or_far d = (case d of None \<Rightarrow> FAR_FUTURE | Some x \<Rightarrow> x)"

definition ranges_overlap ::
  "date \<Rightarrow> date option \<Rightarrow> date \<Rightarrow> date option \<Rightarrow> bool" where
  "ranges_overlap f t f' t' =
     ((case t of None \<Rightarrow> True | Some u \<Rightarrow> f' < u) \<and> (case t' of None \<Rightarrow> True | Some u \<Rightarrow> f < u))"

definition overlapping_claims :: "registry \<Rightarrow> int \<Rightarrow> date \<Rightarrow> date option \<Rightarrow> tax_profile list" where
  "overlapping_claims s cid from until =
     sort_key tp_from
       (filter (\<lambda>r. tp_client r = cid \<and> tp_superseded_at r = None \<and>
                    ranges_overlap (tp_from r) (tp_to r) from until) (reg_profiles s))"

text \<open>A row re-asserted over the slice the correction leaves it, with an identifier of its own.\<close>

definition restate :: "int \<Rightarrow> int \<Rightarrow> tax_profile \<Rightarrow> date \<Rightarrow> date option \<Rightarrow> tax_profile" where
  "restate now new_id r from until =
     r\<lparr>tp_id := new_id, tp_from := from, tp_to := until, tp_recorded_at := now,
       tp_superseded_at := None, tp_correction_of := Some (tp_id r)\<rparr>"

text \<open>
  The loop over the overlapped rows: each is stamped, and its uncovered head and tail are
  collected.  \<open>ids k\<close> is the identifier generated for the \<open>k\<close>-th new row of the call.
\<close>

fun correct_loop ::
  "int \<Rightarrow> (nat \<Rightarrow> int) \<Rightarrow> date \<Rightarrow> date option \<Rightarrow> tax_profile list \<Rightarrow>
   tax_profile list \<Rightarrow> tax_profile list \<Rightarrow> tax_profile list \<times> tax_profile list" where
  "correct_loop now ids from until [] table restated = (table, restated)"
| "correct_loop now ids from until (r # rs) table restated =
     (let stamped = r\<lparr>tp_superseded_at := Some now\<rparr>;
          head = (if tp_from r < from
                  then restated @ [restate now (ids (length restated)) r (tp_from r) (Some from)]
                  else restated);
          tail = (case until of
                    None \<Rightarrow> head
                  | Some u \<Rightarrow>
                      if u < end_or_far (tp_to r)
                      then head @ [restate now (ids (length head)) r u (tp_to r)]
                      else head)
      in correct_loop now ids from until rs (row_put tp_id stamped table) tail)"

text \<open>The table's constraints: non-empty ranges, and no two current claims of a client overlap.\<close>

definition claims_clash :: "tax_profile \<Rightarrow> tax_profile \<Rightarrow> bool" where
  "claims_clash a b =
     (tp_superseded_at a = None \<and> tp_superseded_at b = None \<and> tp_client a = tp_client b \<and>
      tp_tenant a = tp_tenant b \<and> ranges_overlap (tp_from a) (tp_to a) (tp_from b) (tp_to b))"

definition range_nonempty :: "tax_profile \<Rightarrow> bool" where
  "range_nonempty r = (case tp_to r of None \<Rightarrow> True | Some u \<Rightarrow> tp_from r < u)"

definition insert_profile :: "tax_profile \<Rightarrow> tax_profile list \<Rightarrow> tax_profile list res" where
  "insert_profile r table =
     (if range_nonempty r \<and> \<not> list_ex (claims_clash r) table \<and>
         \<not> list_ex (\<lambda>x. tp_id x = tp_id r) table
      then Inr (table @ [r]) else Inl IntegrityError)"

fun insert_profiles :: "tax_profile list \<Rightarrow> tax_profile list \<Rightarrow> tax_profile list res" where
  "insert_profiles [] table = Inr table"
| "insert_profiles (r # rs) table =
     res_bind (insert_profile r table) (insert_profiles rs)"

record tax_claim =
  cl_regime :: tax_regime
  cl_category :: "mei_category option"
  cl_from :: date
  cl_to :: "date option"
  cl_recorded_by :: "int option"
  cl_provenance :: string
  cl_confidence :: profile_confidence
  cl_note :: string

definition correct_tax_profile ::
  "client_access \<Rightarrow> (nat \<Rightarrow> int) \<Rightarrow> int \<Rightarrow> int \<Rightarrow> client \<Rightarrow> tax_claim \<Rightarrow> int \<Rightarrow>
   (registry, tax_profile) tx" where
  "correct_tax_profile acc ids now actor client claim expected s =
     res_bind (require (case cl_to claim of None \<Rightarrow> True | Some u \<Rightarrow> cl_from claim < u)
                 ValueError) (\<lambda>_.
     res_bind (lock_tax_profile_client acc s actor client expected) (\<lambda>locked.
     (let overlapping = overlapping_claims s (c_id client) (cl_from claim) (cl_to claim);
          replaced = map_option tp_id (first_row overlapping);
          (stamped, restated) =
             correct_loop now ids (cl_from claim) (cl_to claim) overlapping (reg_profiles s) []
      in res_bind (insert_profiles restated stamped) (\<lambda>table.
      (let created =
             \<lparr>tp_id = ids (length restated), tp_tenant = c_tenant client, tp_client = c_id client,
              tp_regime = cl_regime claim, tp_category = cl_category claim,
              tp_from = cl_from claim, tp_to = cl_to claim,
              tp_provenance = cl_provenance claim, tp_confidence = cl_confidence claim,
              tp_recorded_by = (case cl_recorded_by claim of None \<Rightarrow> Some actor | Some u \<Rightarrow> Some u),
              tp_recorded_at = now, tp_superseded_at = None, tp_correction_of = replaced,
              tp_note = cl_note claim\<rparr>
       in res_bind (insert_profile created table) (\<lambda>table.
          Inr (created,
            s\<lparr>reg_profiles := table,
              reg_clients :=
                row_put c_id
                  (locked\<lparr>c_tax_profile_revision := c_tax_profile_revision locked + 1\<rparr>)
                  (reg_clients s),
              reg_events := reg_events s @
                [\<lparr>te_actor = actor, te_tenant = c_tenant client, te_object = tp_id created,
                  te_client = c_id client, te_regime = cl_regime claim,
                  te_from = cl_from claim, te_to = cl_to claim,
                  te_superseded = map tp_id overlapping,
                  te_restated = map tp_id restated\<rparr>]\<rparr>)))))))"

definition sync_profile_flag ::
  "client_access \<Rightarrow> (nat \<Rightarrow> int) \<Rightarrow> int \<Rightarrow> date \<Rightarrow> int \<Rightarrow> client \<Rightarrow> bool \<Rightarrow>
   (registry, tax_profile option) tx" where
  "sync_profile_flag acc ids now today actor client created s =
     res_bind (lock_tax_profile_client acc s actor client (c_tax_profile_revision client)) (\<lambda>_.
     (let regime = (if c_is_mei client then MEI else UNKNOWN);
          category = (if c_is_mei client then Some (c_mei_category client) else None);
          same = (case profile_at s (c_id client) today of
                    None \<Rightarrow> False
                  | Some cur \<Rightarrow> tp_regime cur = regime \<and> tp_category cur = category)
      in if \<not> created \<and> same then Inr (None, s)
         else
           let from = (if created
                       then min (case c_opened_on client of None \<Rightarrow> today | Some d \<Rightarrow> d) today
                       else today)
           in res_bind (correct_tax_profile acc ids now actor client
                  \<lparr>cl_regime = regime, cl_category = category, cl_from = from, cl_to = None,
                   cl_recorded_by = Some actor, cl_provenance = ''dual_write'',
                   cl_confidence = STAFF_RECORDED,
                   cl_note = ''Asserted by the client registry's dual-write of the legacy '' @
                             ''is_mei/mei_category fields.''\<rparr>
                  (c_tax_profile_revision client) s) (\<lambda>(row, s'). Inr (Some row, s'))))"

definition save_client :: "client \<Rightarrow> client list \<Rightarrow> client list" where
  "save_client c rows =
     (if c_id c \<in> c_id ` set rows then row_put c_id c rows else rows @ [c])"

definition save_client_registry ::
  "client_access \<Rightarrow> (nat \<Rightarrow> int) \<Rightarrow> int \<Rightarrow> date \<Rightarrow> int \<Rightarrow> client \<Rightarrow> bool \<Rightarrow>
   (registry, client option) tx" where
  "save_client_registry acc ids now today actor client created s =
     res_bind (lock_entitlement s (c_tenant client) today) (\<lambda>tenant.
     res_bind (if created
               then res_bind (require (acc_can_edit acc actor client) PermissionDenied)
                      (\<lambda>_. Inr None)
               else res_bind (lock_tax_profile_client acc s actor client
                                (c_tax_profile_revision client))
                      (\<lambda>locked. Inr (Some (c_status locked)))) (\<lambda>previous.
     res_bind (if active_state (c_status client) \<and>
                  \<not> (case previous of None \<Rightarrow> False | Some st \<Rightarrow> active_state st)
               then require_client_capacity s tenant 1 else Inr ()) (\<lambda>_.
     res_bind (sync_profile_flag acc ids now today actor client created
                 (s\<lparr>reg_clients := save_client client (reg_clients s)\<rparr>)) (\<lambda>(_, s').
       Inr (row_get c_id (c_id client) (reg_clients s'), s')))))"

section \<open>Ranges\<close>

definition range_within :: "date \<Rightarrow> date option \<Rightarrow> date \<Rightarrow> date option \<Rightarrow> bool" where
  "range_within f t f' t' \<longleftrightarrow>
     f' \<le> f \<and> (case t' of None \<Rightarrow> True | Some u' \<Rightarrow> (case t of None \<Rightarrow> False | Some u \<Rightarrow> u \<le> u'))"

lemma ranges_overlap_commute: "ranges_overlap f t f' t' \<longleftrightarrow> ranges_overlap f' t' f t"
  by (auto simp: ranges_overlap_def)

lemma claims_clash_commute: "claims_clash a b \<longleftrightarrow> claims_clash b a"
  by (auto simp: claims_clash_def ranges_overlap_commute)

lemma ranges_overlap_within:
  "ranges_overlap f t g h \<Longrightarrow> range_within f t f' t' \<Longrightarrow> ranges_overlap f' t' g h"
  by (auto simp: ranges_overlap_def range_within_def split: option.splits)

lemma ranges_overlap_within2:
  "ranges_overlap g h f t \<Longrightarrow> range_within f t f' t' \<Longrightarrow> ranges_overlap g h f' t'"
  by (metis ranges_overlap_commute ranges_overlap_within)

lemma in_force_overlap: "in_force f t on \<Longrightarrow> in_force f' t' on \<Longrightarrow> ranges_overlap f t f' t'"
  by (auto simp: ranges_overlap_def in_force_def split: option.splits)

lemma in_force_within: "in_force f t on \<Longrightarrow> range_within f t f' t' \<Longrightarrow> in_force f' t' on"
  by (auto simp: range_within_def in_force_def split: option.splits)

section \<open>The timeline invariant\<close>

definition timeline_ok :: "tax_profile list \<Rightarrow> bool" where
  "timeline_ok rows \<longleftrightarrow>
     distinct (map tp_id rows) \<and> (\<forall>r\<in>set rows. range_nonempty r) \<and>
     sorted_wrt (\<lambda>a b. \<not> claims_clash a b) rows"

interpretation timeline: effective_dating tp_from claim_covers claim_at
  unfolding claim_at_def
  by (rule max_of_covering_dating) (simp add: claim_covers_def in_force_def)

lemma timeline_no_clash:
  assumes "timeline_ok rows" "a \<in> set rows" "b \<in> set rows" "a \<noteq> b"
  shows "\<not> claims_clash a b"
proof -
  obtain i j where ij: "i < length rows" "j < length rows" "rows ! i = a" "rows ! j = b" "i \<noteq> j"
    using assms(2-4) by (auto simp: in_set_conv_nth)
  then show ?thesis
    using assms(1) claims_clash_commute[of a b]
    by (cases i j rule: linorder_cases) (auto simp: timeline_ok_def sorted_wrt_iff_nth_less)
qed

lemma insert_profiles_ok:
  "timeline_ok (table @ rows) \<Longrightarrow> insert_profiles rows table = Inr (table @ rows)"
proof (induction rows arbitrary: table)
  case Nil
  then show ?case by simp
next
  case (Cons r rows)
  then have ok: "timeline_ok ((table @ [r]) @ rows)" by simp
  moreover have "insert_profile r table = Inr (table @ [r])"
    using Cons.prems
    by (auto simp: insert_profile_def timeline_ok_def sorted_wrt_append list_ex_iff image_iff
        claims_clash_commute[of r])
  ultimately show ?case using Cons.IH by simp
qed

lemma claim_at_unique:
  assumes "sorted_wrt (\<lambda>a b. \<not> claims_clash a b) rows" "distinct rows" "r \<in> set rows"
    "claim_covers on r" "\<And>x. x \<in> set rows \<Longrightarrow> tp_client x = tp_client r \<and> tp_tenant x = tp_tenant r"
  shows "claim_at rows on = Some r"
proof (rule ccontr)
  assume "claim_at rows on \<noteq> Some r"
  then obtain p where p: "claim_at rows on = Some p" "p \<noteq> r"
    using timeline.pick_None[of rows on r] assms(3,4) by (cases "claim_at rows on") auto
  have "p \<in> set rows" "claim_covers on p" using timeline.pick_covers[OF p(1)] by blast+
  then have clash: "claims_clash p r" "claims_clash r p"
    using assms(4) assms(5)[of p] in_force_overlap[of "tp_from p" "tp_to p" on "tp_from r" "tp_to r"]
    by (auto simp: claims_clash_def claim_covers_def ranges_overlap_commute)
  obtain i j where "i < length rows" "j < length rows" "rows ! i = p" "rows ! j = r" "i \<noteq> j"
    using \<open>p \<in> set rows\<close> assms(3) p(2) by (auto simp: in_set_conv_nth)
  then show False
    using assms(1) clash by (cases i j rule: linorder_cases) (auto simp: sorted_wrt_iff_nth_less)
qed

section \<open>What the loop leaves\<close>

text \<open>The slices a correction over \<open>[from, until)\<close> leaves of a claim.\<close>

definition slices :: "date \<Rightarrow> date option \<Rightarrow> tax_profile \<Rightarrow> (date \<times> date option) list" where
  "slices from until r =
     (if tp_from r < from then [(tp_from r, Some from)] else []) @
     (case until of
        None \<Rightarrow> []
      | Some u \<Rightarrow> if u < end_or_far (tp_to r) then [(u, tp_to r)] else [])"

fun restate_all ::
  "int \<Rightarrow> (nat \<Rightarrow> int) \<Rightarrow> nat \<Rightarrow> (tax_profile \<times> date \<times> date option) list \<Rightarrow> tax_profile list" where
  "restate_all now ids k [] = []"
| "restate_all now ids k ((r, f, t) # xs) =
     restate now (ids k) r f t # restate_all now ids (Suc k) xs"

definition all_slices ::
  "date \<Rightarrow> date option \<Rightarrow> tax_profile list \<Rightarrow> (tax_profile \<times> date \<times> date option) list" where
  "all_slices from until rows = concat (map (\<lambda>r. map (Pair r) (slices from until r)) rows)"

definition stamp :: "int \<Rightarrow> tax_profile list \<Rightarrow> tax_profile \<Rightarrow> tax_profile" where
  "stamp now rows x = (if x \<in> set rows then x\<lparr>tp_superseded_at := Some now\<rparr> else x)"

lemma restate_all_append:
  "restate_all now ids k (xs @ ys) =
     restate_all now ids k xs @ restate_all now ids (k + length xs) ys"
  by (induction xs arbitrary: k) auto

lemma length_restate_all [simp]: "length (restate_all now ids k xs) = length xs"
  by (induction xs arbitrary: k) auto

lemma restate_all_ids: "map tp_id (restate_all now ids k xs) = map ids [k ..< k + length xs]"
proof (induction xs arbitrary: k)
  case Nil
  then show ?case by simp
next
  case (Cons x xs)
  then show ?case by (cases x) (simp add: restate_def upt_conv_Cons del: upt_Suc)
qed

lemma in_restate_all:
  "x \<in> set (restate_all now ids k xs) \<Longrightarrow>
     \<exists>j r f t. (r, f, t) \<in> set xs \<and> x = restate now (ids j) r f t"
proof (induction xs arbitrary: k)
  case Nil
  then show ?case by simp
next
  case (Cons y ys)
  obtain r f t where y: "y = (r, f, t)" by (cases y)
  show ?case
  proof (cases "x \<in> set (restate_all now ids (Suc k) ys)")
    case True
    then show ?thesis using Cons.IH by (fastforce simp: y)
  next
    case False
    with Cons.prems have "x = restate now (ids k) r f t" by (simp add: y)
    then show ?thesis by (auto simp: y)
  qed
qed

lemma restate_all_in:
  "(r, f, t) \<in> set xs \<Longrightarrow> \<exists>j. restate now (ids j) r f t \<in> set (restate_all now ids k xs)"
proof (induction xs arbitrary: k)
  case Nil
  then show ?case by simp
next
  case (Cons y ys)
  then show ?case by (cases y) fastforce
qed

lemma correct_loop_eq:
  assumes "distinct (map tp_id table)" "set rs \<subseteq> set table" "distinct rs"
  shows "correct_loop now ids from until rs table restated =
    (map (stamp now rs) table,
     restated @ restate_all now ids (length restated) (all_slices from until rs))"
  using assms
proof (induction rs arbitrary: table restated)
  case Nil
  then show ?case by (simp add: stamp_def all_slices_def)
next
  case (Cons r rs)
  define stamped where "stamped = r\<lparr>tp_superseded_at := Some now\<rparr>"
  define table' where "table' = row_put tp_id stamped table"
  have key: "tp_id x = tp_id r \<longleftrightarrow> x = r" if "x \<in> set table" for x
    using that Cons.prems by (auto simp: distinct_map inj_on_def)
  have table': "table' = map (\<lambda>x. if x = r then stamped else x) table"
    unfolding table'_def row_put_def by (rule map_cong) (auto simp: stamped_def key)
  have ids': "map tp_id table' = map tp_id table" by (simp add: table'_def)
  have rs: "set rs \<subseteq> set table'"
    using Cons.prems by (auto simp: table' image_iff)
  have step: "correct_loop now ids from until (r # rs) table restated =
      correct_loop now ids from until rs table'
        (restated @ restate_all now ids (length restated) (map (Pair r) (slices from until r)))"
    by (simp add: slices_def table'_def stamped_def Let_def split: option.splits)
  have stamps: "map (stamp now rs) table' = map (stamp now (r # rs)) table"
  proof -
    have "stamped \<notin> set rs"
    proof
      assume s: "stamped \<in> set rs"
      then have "tp_id stamped = tp_id r" "stamped \<in> set table"
        using Cons.prems by (auto simp: stamped_def)
      then have "stamped = r" by (simp add: key)
      with s Cons.prems show False by simp
    qed
    then show ?thesis by (auto simp: table' stamp_def stamped_def)
  qed
  show ?case
    unfolding step using Cons.IH[OF _ rs] Cons.prems ids'
    by (simp add: stamps all_slices_def restate_all_append add.commute)
qed

section \<open>A correction keeps the invariant\<close>

lemma slices_within:
  assumes "(f, t) \<in> set (slices from until r)"
    "ranges_overlap (tp_from r) (tp_to r) from until"
    "case until of None \<Rightarrow> True | Some u \<Rightarrow> from < u"
  shows "range_within f t (tp_from r) (tp_to r)"
    and "case t of None \<Rightarrow> True | Some v \<Rightarrow> f < v"
    and "\<not> ranges_overlap f t from until"
  using assms
  by (auto simp: slices_def range_within_def ranges_overlap_def end_or_far_def
      split: option.splits if_splits)

lemma slices_disjoint:
  assumes "case until of None \<Rightarrow> True | Some u \<Rightarrow> from < u"
  shows "sorted_wrt (\<lambda>(f, t) (g, h). \<not> ranges_overlap f t g h) (slices from until r)"
  using assms by (auto simp: slices_def ranges_overlap_def split: option.splits)

lemma sorted_wrt_distinct:
  "distinct xs \<Longrightarrow> (\<And>x y. x \<in> set xs \<Longrightarrow> y \<in> set xs \<Longrightarrow> x \<noteq> y \<Longrightarrow> P x y) \<Longrightarrow> sorted_wrt P xs"
  by (induction xs) auto

lemma stamp_fields [simp]:
  "tp_id (stamp now rs x) = tp_id x" "tp_from (stamp now rs x) = tp_from x"
  "tp_to (stamp now rs x) = tp_to x" "tp_client (stamp now rs x) = tp_client x"
  "tp_tenant (stamp now rs x) = tp_tenant x"
  by (simp_all add: stamp_def)

lemma stamp_current: "tp_superseded_at (stamp now rs x) = None \<longleftrightarrow> tp_superseded_at x = None \<and> x \<notin> set rs"
  by (simp add: stamp_def)

lemma timeline_ok_stamp:
  assumes "timeline_ok rows"
  shows "timeline_ok (map (stamp now rs) rows)"
proof -
  have "sorted_wrt (\<lambda>a b. \<not> claims_clash (stamp now rs a) (stamp now rs b)) rows"
    using assms
    by (auto simp: timeline_ok_def claims_clash_def stamp_current elim!: sorted_wrt_mono_rel[rotated])
  then show ?thesis
    using assms
    by (auto simp: timeline_ok_def sorted_wrt_map o_def range_nonempty_def split: option.splits)
qed

lemma restate_all_no_clash:
  assumes "sorted_wrt (\<lambda>(r, f, t) (r', g, h). \<not> ranges_overlap f t g h) xs"
  shows "sorted_wrt (\<lambda>a b. \<not> claims_clash a b) (restate_all now ids k xs)"
  using assms
proof (induction xs arbitrary: k)
  case Nil
  then show ?case by simp
next
  case (Cons x xs)
  obtain r f t where x: "x = (r, f, t)" by (cases x)
  have "\<not> claims_clash (restate now (ids k) r f t) b"
    if "b \<in> set (restate_all now ids (Suc k) xs)" for b
    using in_restate_all[OF that] Cons.prems by (fastforce simp: x claims_clash_def restate_def)
  then show ?case using Cons by (simp add: x)
qed

lemma all_slices_disjoint:
  assumes "case until of None \<Rightarrow> True | Some u \<Rightarrow> from < u"
    "\<And>r. r \<in> set rs \<Longrightarrow> ranges_overlap (tp_from r) (tp_to r) from until"
    "sorted_wrt (\<lambda>a b. \<not> ranges_overlap (tp_from a) (tp_to a) (tp_from b) (tp_to b)) rs"
  shows "sorted_wrt (\<lambda>(r, f, t) (r', g, h). \<not> ranges_overlap f t g h) (all_slices from until rs)"
  using assms(2,3)
proof (induction rs)
  case Nil
  then show ?case by (simp add: all_slices_def)
next
  case (Cons r rs)
  have other: "\<not> ranges_overlap f t g h"
    if "(f, t) \<in> set (slices from until r)" "r' \<in> set rs" "(g, h) \<in> set (slices from until r')"
    for f t r' g h
  proof
    assume "ranges_overlap f t g h"
    then have "ranges_overlap (tp_from r) (tp_to r) (tp_from r') (tp_to r')"
      using slices_within(1)[OF that(1) _ assms(1)] slices_within(1)[OF that(3) _ assms(1)]
        Cons.prems(1) that(2)
      by (meson list.set_intros ranges_overlap_within ranges_overlap_within2)
    with Cons.prems(2) that(2) show False by simp
  qed
  have "sorted_wrt (\<lambda>(r, f, t) (r', g, h). \<not> ranges_overlap f t g h)
      (map (Pair r) (slices from until r))"
    using slices_disjoint[OF assms(1), of r] by (simp add: sorted_wrt_map case_prod_unfold)
  moreover have "sorted_wrt (\<lambda>(r, f, t) (r', g, h). \<not> ranges_overlap f t g h)
      (all_slices from until rs)"
    using Cons by simp
  moreover have "all_slices from until (r # rs) =
      map (Pair r) (slices from until r) @ all_slices from until rs"
    by (simp add: all_slices_def)
  ultimately show ?case
    using other by (auto simp: sorted_wrt_append all_slices_def)
qed

text \<open>The table a correction writes, and the claims it overlaps.\<close>

definition corrected_table ::
  "int \<Rightarrow> (nat \<Rightarrow> int) \<Rightarrow> tax_profile list \<Rightarrow> tax_profile list \<Rightarrow> tax_profile \<Rightarrow> tax_profile list" where
  "corrected_table now ids rows over new =
     map (stamp now over) rows @
     restate_all now ids 0 (all_slices (tp_from new) (tp_to new) over) @ [new]"

definition overlaps_exactly :: "tax_profile list \<Rightarrow> tax_profile \<Rightarrow> tax_profile list \<Rightarrow> bool" where
  "overlaps_exactly rows new over \<longleftrightarrow>
     distinct over \<and>
     set over = {r \<in> set rows. tp_client r = tp_client new \<and> tp_superseded_at r = None \<and>
                   ranges_overlap (tp_from r) (tp_to r) (tp_from new) (tp_to new)}"

definition one_tenant :: "int \<Rightarrow> int \<Rightarrow> tax_profile list \<Rightarrow> bool" where
  "one_tenant cid tid rows \<longleftrightarrow> (\<forall>r\<in>set rows. tp_client r = cid \<longrightarrow> tp_tenant r = tid)"

definition fresh_ids :: "(nat \<Rightarrow> int) \<Rightarrow> tax_profile list \<Rightarrow> bool" where
  "fresh_ids ids rows \<longleftrightarrow> inj ids \<and> (\<forall>k. ids k \<notin> tp_id ` set rows)"

lemma timeline_ok_corrected:
  assumes "timeline_ok rows" "overlaps_exactly rows new over"
    "one_tenant (tp_client new) (tp_tenant new) rows" "fresh_ids ids rows"
    "range_nonempty new" "tp_superseded_at new = None"
    "tp_id new = ids (length (all_slices (tp_from new) (tp_to new) over))"
  shows "timeline_ok (corrected_table now ids rows over new)"
proof -
  define lo hi where "lo = tp_from new" and "hi = tp_to new"
  define slices' where "slices' = all_slices lo hi over"
  have ne: "case hi of None \<Rightarrow> True | Some u \<Rightarrow> lo < u"
    using assms(5) unfolding range_nonempty_def lo_def hi_def .
  have over: "r \<in> set over \<longleftrightarrow> r \<in> set rows \<and> tp_client r = tp_client new \<and>
      tp_superseded_at r = None \<and> ranges_overlap (tp_from r) (tp_to r) lo hi" for r
    using assms(2) by (auto simp: overlaps_exactly_def lo_def hi_def)
  have tenant: "tp_tenant r = tp_tenant new" if "r \<in> set rows" "tp_client r = tp_client new" for r
    using that assms(3) by (auto simp: one_tenant_def)
  have piece: "\<exists>j r f t. r \<in> set over \<and> x = restate now (ids j) r f t \<and>
      range_within f t (tp_from r) (tp_to r) \<and> (case t of None \<Rightarrow> True | Some v \<Rightarrow> f < v) \<and>
      \<not> ranges_overlap f t lo hi"
    if x_in: "x \<in> set (restate_all now ids 0 slices')" for x
  proof -
    obtain j r f t where "(r, f, t) \<in> set slices'" and x: "x = restate now (ids j) r f t"
      using in_restate_all[OF x_in] by blast
    then have "r \<in> set over" "(f, t) \<in> set (slices lo hi r)"
      by (auto simp: slices'_def all_slices_def)
    with x show ?thesis using slices_within[of f t lo hi r] over ne by blast
  qed
  have pairwise: "sorted_wrt (\<lambda>a b. \<not> ranges_overlap (tp_from a) (tp_to a) (tp_from b) (tp_to b)) over"
  proof (rule sorted_wrt_distinct)
    show "distinct over" using assms(2) by (simp add: overlaps_exactly_def)
    fix a b assume ab: "a \<in> set over" "b \<in> set over" "a \<noteq> b"
    then have "\<not> claims_clash a b" using timeline_no_clash[OF assms(1)] over by blast
    then show "\<not> ranges_overlap (tp_from a) (tp_to a) (tp_from b) (tp_to b)"
      using ab over tenant by (auto simp: claims_clash_def)
  qed
  have restated: "sorted_wrt (\<lambda>a b. \<not> claims_clash a b) (restate_all now ids 0 slices')"
    unfolding slices'_def using all_slices_disjoint[OF ne _ pairwise] over
    by (intro restate_all_no_clash) blast
  have stamped_piece: "\<not> claims_clash (stamp now over x) y"
    if x: "x \<in> set rows" and y: "y \<in> set (restate_all now ids 0 slices')" for x y
  proof
    assume clash: "claims_clash (stamp now over x) y"
    obtain j r f t where r: "r \<in> set over" and y': "y = restate now (ids j) r f t"
      and within: "range_within f t (tp_from r) (tp_to r)" using piece[OF y] by blast
    have cur: "tp_superseded_at x = None" "x \<notin> set over"
      using clash by (simp_all add: claims_clash_def stamp_current)
    have "ranges_overlap (tp_from x) (tp_to x) (tp_from r) (tp_to r)"
      using clash within by (auto simp: claims_clash_def y' restate_def intro: ranges_overlap_within2)
    then have "claims_clash x r"
      using clash cur r over by (simp add: claims_clash_def y' restate_def)
    then show False using timeline_no_clash[OF assms(1) x, of r] r over cur by auto
  qed
  have stamped_new: "\<not> claims_clash (stamp now over x) new" if "x \<in> set rows" for x
    using that over[of x] by (auto simp: claims_clash_def stamp_current lo_def hi_def)
  have piece_new: "\<not> claims_clash y new" if "y \<in> set (restate_all now ids 0 slices')" for y
    using piece[OF that] by (auto simp: claims_clash_def restate_def lo_def hi_def)
  have ids: "distinct (map tp_id (corrected_table now ids rows over new))"
  proof -
    have "inj_on ids A" for A using assms(4) by (auto simp: fresh_ids_def inj_on_def)
    moreover have "tp_id x \<noteq> ids k" if "x \<in> set rows" for x k
      using that assms(4) by (auto simp: fresh_ids_def image_iff) (metis)
    ultimately show ?thesis
      using assms(1,4,7)
      by (auto simp: corrected_table_def timeline_ok_def restate_all_ids distinct_map
          fresh_ids_def o_def inj_eq)
  qed
  have "range_nonempty y" if "y \<in> set (restate_all now ids 0 slices')" for y
    using piece[OF that] by (auto simp: range_nonempty_def restate_def split: option.splits)
  then have "\<forall>r\<in>set (corrected_table now ids rows over new). range_nonempty r"
    using timeline_ok_stamp[OF assms(1), of now over] assms(5)
    by (auto simp: corrected_table_def timeline_ok_def slices'_def lo_def hi_def)
  moreover have "sorted_wrt (\<lambda>a b. \<not> claims_clash a b) (corrected_table now ids rows over new)"
    using timeline_ok_stamp[OF assms(1), of now over] restated stamped_piece stamped_new piece_new
    by (auto simp: corrected_table_def timeline_ok_def sorted_wrt_append slices'_def lo_def hi_def)
  ultimately show ?thesis using ids by (simp add: timeline_ok_def)
qed

section \<open>What a correction changes\<close>

text \<open>The regime and category believed for a day.\<close>

definition belief :: "tax_profile list \<Rightarrow> int \<Rightarrow> date \<Rightarrow> (tax_regime \<times> mei_category option) option" where
  "belief rows cid on =
     map_option (\<lambda>r. (tp_regime r, tp_category r)) (claim_at (filter (\<lambda>r. tp_client r = cid) rows) on)"

lemma belief_covering:
  assumes "timeline_ok rows" "one_tenant cid tid rows" "r \<in> set rows" "tp_client r = cid"
    "claim_covers on r"
  shows "belief rows cid on = Some (tp_regime r, tp_category r)"
proof -
  let ?rows = "filter (\<lambda>r. tp_client r = cid) rows"
  have "claim_at ?rows on = Some r"
  proof (rule claim_at_unique)
    show "sorted_wrt (\<lambda>a b. \<not> claims_clash a b) ?rows"
      using assms(1) by (auto simp: timeline_ok_def intro: sorted_wrt_filter)
    show "distinct ?rows" using assms(1) by (auto simp: timeline_ok_def distinct_map)
  qed (use assms in \<open>auto simp: one_tenant_def\<close>)
  then show ?thesis by (simp add: belief_def)
qed

lemma belief_none:
  "belief rows cid on = None \<longleftrightarrow> (\<forall>r\<in>set rows. tp_client r = cid \<longrightarrow> \<not> claim_covers on r)"
  using timeline.pick_None_iff[of "filter (\<lambda>r. tp_client r = cid) rows" on] by (auto simp: belief_def)

lemma slice_of_day:
  assumes "in_force (tp_from r) (tp_to r) on" "\<not> in_force lo hi on" "on < FAR_FUTURE"
  shows "\<exists>f t. (f, t) \<in> set (slices lo hi r) \<and> in_force f t on"
proof (cases "on < lo")
  case True
  with assms(1) show ?thesis
    by (intro exI[of _ "tp_from r"] exI[of _ "Some lo"]) (auto simp: slices_def in_force_def)
next
  case False
  with assms(2) obtain u where u: "hi = Some u" "u \<le> on"
    by (auto simp: in_force_def not_less split: option.splits)
  then have "u < end_or_far (tp_to r)"
    using assms(1,3) by (auto simp: in_force_def end_or_far_def split: option.splits)
  with u assms(1) show ?thesis
    by (intro exI[of _ u] exI[of _ "tp_to r"]) (auto simp: slices_def in_force_def)
qed

lemma corrected_belief:
  assumes "timeline_ok rows" "overlaps_exactly rows new over"
    "one_tenant (tp_client new) (tp_tenant new) rows" "fresh_ids ids rows"
    "range_nonempty new" "tp_superseded_at new = None"
    "tp_id new = ids (length (all_slices (tp_from new) (tp_to new) over))" "on < FAR_FUTURE"
  shows "belief (corrected_table now ids rows over new) (tp_client new) on =
    (if in_force (tp_from new) (tp_to new) on then Some (tp_regime new, tp_category new)
     else belief rows (tp_client new) on)"
proof -
  let ?lo = "tp_from new" and ?hi = "tp_to new" and ?cid = "tp_client new"
  let ?table = "corrected_table now ids rows over new"
  have ok: "timeline_ok ?table" by (rule timeline_ok_corrected[OF assms(1-7)])
  have over: "r \<in> set over \<longleftrightarrow> r \<in> set rows \<and> tp_client r = ?cid \<and>
      tp_superseded_at r = None \<and> ranges_overlap (tp_from r) (tp_to r) ?lo ?hi" for r
    using assms(2) by (auto simp: overlaps_exactly_def)
  have tenant: "tp_tenant r = tp_tenant new" if "r \<in> set rows" "tp_client r = ?cid" for r
    using that assms(3) by (auto simp: one_tenant_def)
  have old_piece: "\<exists>j r f t. r \<in> set over \<and> x = restate now (ids j) r f t \<and>
      range_within f t (tp_from r) (tp_to r)"
    if "x \<in> set (restate_all now ids 0 (all_slices ?lo ?hi over))" for x
    using in_restate_all[OF that] slices_within(1)[of _ _ ?lo ?hi] assms(5) over
    by (fastforce simp: all_slices_def range_nonempty_def)
  have one: "one_tenant ?cid (tp_tenant new) ?table"
    using tenant over old_piece
    by (fastforce simp: one_tenant_def corrected_table_def restate_def)
  show ?thesis
  proof (cases "in_force ?lo ?hi on")
    case True
    then have "claim_covers on new" using assms(6) by (simp add: claim_covers_def)
    then have "belief ?table ?cid on = Some (tp_regime new, tp_category new)"
      by (intro belief_covering[OF ok one]) (simp_all add: corrected_table_def)
    with True show ?thesis by simp
  next
    case False
    show ?thesis
    proof (cases "\<exists>r\<in>set rows. tp_client r = ?cid \<and> claim_covers on r")
      case True
      then obtain r where r: "r \<in> set rows" "tp_client r = ?cid" "claim_covers on r" by blast
      have "\<exists>x\<in>set ?table. tp_client x = ?cid \<and> claim_covers on x \<and>
          tp_regime x = tp_regime r \<and> tp_category x = tp_category r"
      proof (cases "r \<in> set over")
        case True
        obtain f t where ft: "(f, t) \<in> set (slices ?lo ?hi r)" "in_force f t on"
          using slice_of_day[OF _ False assms(8), of r] r(3) by (auto simp: claim_covers_def)
        then have "(r, f, t) \<in> set (all_slices ?lo ?hi over)"
          using True by (auto simp: all_slices_def)
        then obtain j where "restate now (ids j) r f t \<in> set ?table"
          using restate_all_in[of r f t "all_slices ?lo ?hi over" now ids 0]
          by (auto simp: corrected_table_def)
        with ft(2) r(2) show ?thesis
          by (intro bexI[of _ "restate now (ids j) r f t"])
            (simp_all add: restate_def claim_covers_def)
      next
        case False
        then have "stamp now over r = r" by (simp add: stamp_def)
        then have "r \<in> set ?table" using r(1) by (force simp: corrected_table_def)
        with r show ?thesis by blast
      qed
      then show ?thesis
        using False belief_covering[OF ok one] belief_covering[OF assms(1,3) r] by force
    next
      case none: False
      then have "belief rows ?cid on = None" by (simp add: belief_none)
      moreover have "\<not> claim_covers on x" if x: "x \<in> set ?table" "tp_client x = ?cid" for x
      proof
        assume c: "claim_covers on x"
        consider y where "y \<in> set rows" "x = stamp now over y"
          | "x \<in> set (restate_all now ids 0 (all_slices ?lo ?hi over))" | "x = new"
          using x(1) by (auto simp: corrected_table_def)
        then show False
        proof cases
          case 1
          then have "claim_covers on y" using c by (simp add: claim_covers_def stamp_current)
          with 1 x(2) none show False by auto
        next
          case 2
          then obtain j r f t where "r \<in> set over" "x = restate now (ids j) r f t"
            "range_within f t (tp_from r) (tp_to r)" using old_piece by blast
          with c none over show False
            by (auto simp: claim_covers_def restate_def dest: in_force_within)
        next
          case 3
          with c False show False by (simp add: claim_covers_def)
        qed
      qed
      then have "belief ?table ?cid on = None" by (simp add: belief_none)
      ultimately show ?thesis using False by simp
    qed
  qed
qed

lemma overlapping_claims_exactly:
  assumes "timeline_ok (reg_profiles s)" "tp_client new = cid"
  shows "overlaps_exactly (reg_profiles s) new (overlapping_claims s cid (tp_from new) (tp_to new))"
  using assms
  by (auto simp: overlaps_exactly_def overlapping_claims_def timeline_ok_def distinct_map)

text \<open>The claim as the row it becomes.\<close>

definition claim_row :: "(nat \<Rightarrow> int) \<Rightarrow> int \<Rightarrow> int \<Rightarrow> client \<Rightarrow> tax_claim \<Rightarrow> registry \<Rightarrow> tax_profile" where
  "claim_row ids now actor client claim s =
     (let over = overlapping_claims s (c_id client) (cl_from claim) (cl_to claim) in
      \<lparr>tp_id = ids (length (all_slices (cl_from claim) (cl_to claim) over)),
       tp_tenant = c_tenant client, tp_client = c_id client,
       tp_regime = cl_regime claim, tp_category = cl_category claim,
       tp_from = cl_from claim, tp_to = cl_to claim,
       tp_provenance = cl_provenance claim, tp_confidence = cl_confidence claim,
       tp_recorded_by = (case cl_recorded_by claim of None \<Rightarrow> Some actor | Some u \<Rightarrow> Some u),
       tp_recorded_at = now, tp_superseded_at = None,
       tp_correction_of = map_option tp_id (first_row over), tp_note = cl_note claim\<rparr>)"

lemma claim_row_fields [simp]:
  "tp_tenant (claim_row ids now actor client claim s) = c_tenant client"
  "tp_client (claim_row ids now actor client claim s) = c_id client"
  "tp_regime (claim_row ids now actor client claim s) = cl_regime claim"
  "tp_category (claim_row ids now actor client claim s) = cl_category claim"
  "tp_from (claim_row ids now actor client claim s) = cl_from claim"
  "tp_to (claim_row ids now actor client claim s) = cl_to claim"
  "tp_superseded_at (claim_row ids now actor client claim s) = None"
  by (simp_all add: claim_row_def Let_def)

text \<open>The preconditions every correction is made under.\<close>

definition registry_ok :: "(nat \<Rightarrow> int) \<Rightarrow> client \<Rightarrow> registry \<Rightarrow> bool" where
  "registry_ok ids client s \<longleftrightarrow>
     timeline_ok (reg_profiles s) \<and> one_tenant (c_id client) (c_tenant client) (reg_profiles s) \<and>
     fresh_ids ids (reg_profiles s)"

lemma correct_tax_profile_eq:
  assumes "registry_ok ids client s"
  shows "correct_tax_profile acc ids now actor client claim expected s =
    res_bind (require (case cl_to claim of None \<Rightarrow> True | Some u \<Rightarrow> cl_from claim < u) ValueError) (\<lambda>_.
    res_bind (lock_tax_profile_client acc s actor client expected) (\<lambda>locked.
      let over = overlapping_claims s (c_id client) (cl_from claim) (cl_to claim);
          new = claim_row ids now actor client claim s;
          restated = restate_all now ids 0 (all_slices (cl_from claim) (cl_to claim) over)
      in Inr (new,
        s\<lparr>reg_profiles := corrected_table now ids (reg_profiles s) over new,
          reg_clients := row_put c_id
            (locked\<lparr>c_tax_profile_revision := c_tax_profile_revision locked + 1\<rparr>) (reg_clients s),
          reg_events := reg_events s @
            [\<lparr>te_actor = actor, te_tenant = c_tenant client, te_object = tp_id new,
              te_client = c_id client, te_regime = cl_regime claim, te_from = cl_from claim,
              te_to = cl_to claim, te_superseded = map tp_id over,
              te_restated = map tp_id restated\<rparr>]\<rparr>)))"
proof (cases "case cl_to claim of None \<Rightarrow> True | Some u \<Rightarrow> cl_from claim < u")
  case False
  then show ?thesis by (simp add: correct_tax_profile_def)
next
  case True
  define over where "over = overlapping_claims s (c_id client) (cl_from claim) (cl_to claim)"
  define new where "new = claim_row ids now actor client claim s"
  define rest where "rest = restate_all now ids 0 (all_slices (cl_from claim) (cl_to claim) over)"
  have ok: "timeline_ok (reg_profiles s)" using assms by (simp add: registry_ok_def)
  have over: "overlaps_exactly (reg_profiles s) new over"
    using overlapping_claims_exactly[OF ok, of new "c_id client"] by (simp add: over_def new_def)
  have ne: "range_nonempty new" using True unfolding range_nonempty_def new_def claim_row_fields .
  have new_id: "tp_id new = ids (length (all_slices (tp_from new) (tp_to new) over))"
    by (simp add: new_def claim_row_def over_def Let_def)
  have "timeline_ok (corrected_table now ids (reg_profiles s) over new)"
    using assms over ne new_id
    by (intro timeline_ok_corrected) (simp_all add: registry_ok_def new_def)
  then have table: "timeline_ok ((map (stamp now over) (reg_profiles s) @ rest) @ [new])"
    by (simp add: corrected_table_def rest_def new_def)
  then have "timeline_ok (map (stamp now over) (reg_profiles s) @ rest)"
    by (auto simp: timeline_ok_def sorted_wrt_append)
  then have inserted: "insert_profiles rest (map (stamp now over) (reg_profiles s)) =
      Inr (map (stamp now over) (reg_profiles s) @ rest)"
    by (rule insert_profiles_ok)
  have created: "insert_profile new (map (stamp now over) (reg_profiles s) @ rest) =
      Inr ((map (stamp now over) (reg_profiles s) @ rest) @ [new])"
    using insert_profiles_ok[OF table] by (simp add: res_bind_eq_Inr)
  have loop: "correct_loop now ids (cl_from claim) (cl_to claim) over (reg_profiles s) [] =
      (map (stamp now over) (reg_profiles s), rest)"
    using over ok by (subst correct_loop_eq) (auto simp: overlaps_exactly_def timeline_ok_def rest_def)
  have new_row: "new =
      \<lparr>tp_id = ids (length rest), tp_tenant = c_tenant client, tp_client = c_id client,
       tp_regime = cl_regime claim, tp_category = cl_category claim,
       tp_from = cl_from claim, tp_to = cl_to claim,
       tp_provenance = cl_provenance claim, tp_confidence = cl_confidence claim,
       tp_recorded_by = (case cl_recorded_by claim of None \<Rightarrow> Some actor | Some u \<Rightarrow> Some u),
       tp_recorded_at = now, tp_superseded_at = None,
       tp_correction_of = map_option tp_id (first_row over), tp_note = cl_note claim\<rparr>"
    by (simp add: new_def claim_row_def over_def rest_def Let_def)
  have table_eq: "corrected_table now ids (reg_profiles s) over new =
      (map (stamp now over) (reg_profiles s) @ rest) @ [new]"
    by (simp add: corrected_table_def rest_def new_def)
  show ?thesis
    unfolding correct_tax_profile_def over_def [symmetric] new_def [symmetric] Let_def loop prod.case
      rest_def [symmetric] new_row [symmetric] inserted table_eq
    by (simp add: created)
qed

lemma lock_client_Inr:
  "lock_tax_profile_client acc s actor client expected = Inr locked \<longleftrightarrow>
     find (\<lambda>c. c_id c = c_id client \<and> c_tenant c = c_tenant client \<and> acc_visible acc actor c)
       (reg_clients s) = Some locked \<and>
     acc_can_edit acc actor locked \<and> c_tax_profile_revision locked = expected"
  by (auto simp: lock_tax_profile_client_def res_bind_eq_Inr)

lemma correct_tax_profile_Inr:
  assumes "registry_ok ids client s"
  shows "correct_tax_profile acc ids now actor client claim expected s = Inr (row, s') \<longleftrightarrow>
    (case cl_to claim of None \<Rightarrow> True | Some u \<Rightarrow> cl_from claim < u) \<and>
    (\<exists>locked. lock_tax_profile_client acc s actor client expected = Inr locked \<and>
      (let over = overlapping_claims s (c_id client) (cl_from claim) (cl_to claim);
           restated = restate_all now ids 0 (all_slices (cl_from claim) (cl_to claim) over)
       in row = claim_row ids now actor client claim s \<and>
          s' = s\<lparr>reg_profiles := corrected_table now ids (reg_profiles s) over row,
            reg_clients := row_put c_id
              (locked\<lparr>c_tax_profile_revision := c_tax_profile_revision locked + 1\<rparr>) (reg_clients s),
            reg_events := reg_events s @
              [\<lparr>te_actor = actor, te_tenant = c_tenant client, te_object = tp_id row,
                te_client = c_id client, te_regime = cl_regime claim, te_from = cl_from claim,
                te_to = cl_to claim, te_superseded = map tp_id over,
                te_restated = map tp_id restated\<rparr>]\<rparr>))"
  unfolding correct_tax_profile_eq[OF assms] Let_def res_bind_eq_Inr
  by (simp only: require_eq_Inr) auto

lemma filter_stamp:
  "(\<And>r. r \<in> set over \<Longrightarrow> tp_client r \<noteq> cid) \<Longrightarrow>
   filter (\<lambda>r. tp_client r = cid) (map (stamp now over) rows) = filter (\<lambda>r. tp_client r = cid) rows"
  by (induction rows) (auto simp: stamp_def)

lemma corrected_registry:
  assumes "registry_ok ids client s"
    "correct_tax_profile acc ids now actor client claim expected s = Inr (row, s')"
  shows "timeline_ok (reg_profiles s')"
    and "on < FAR_FUTURE \<Longrightarrow> belief (reg_profiles s') (c_id client) on =
      (if in_force (cl_from claim) (cl_to claim) on then Some (cl_regime claim, cl_category claim)
       else belief (reg_profiles s) (c_id client) on)"
    and "cid \<noteq> c_id client \<Longrightarrow> belief (reg_profiles s') cid on = belief (reg_profiles s) cid on"
    and "\<And>r. r \<in> set (reg_profiles s) \<Longrightarrow>
      r \<in> set (reg_profiles s') \<or>
      tp_superseded_at r = None \<and> r\<lparr>tp_superseded_at := Some now\<rparr> \<in> set (reg_profiles s')"
proof -
  define over where "over = overlapping_claims s (c_id client) (cl_from claim) (cl_to claim)"
  define new where "new = claim_row ids now actor client claim s"
  have s': "reg_profiles s' = corrected_table now ids (reg_profiles s) over new"
    and ne: "range_nonempty new"
    using assms(2) unfolding correct_tax_profile_Inr[OF assms(1)]
    by (auto simp: Let_def over_def new_def range_nonempty_def split: option.splits)
  have ok: "timeline_ok (reg_profiles s)" "one_tenant (c_id client) (c_tenant client) (reg_profiles s)"
    "fresh_ids ids (reg_profiles s)"
    using assms(1) by (simp_all add: registry_ok_def)
  have over: "overlaps_exactly (reg_profiles s) new over"
    using overlapping_claims_exactly[OF ok(1), of new "c_id client"] by (simp add: over_def new_def)
  have new_id: "tp_id new = ids (length (all_slices (tp_from new) (tp_to new) over))"
    by (simp add: new_def claim_row_def over_def Let_def)
  have hyps: "one_tenant (tp_client new) (tp_tenant new) (reg_profiles s)"
    "tp_superseded_at new = None"
    using ok(2) by (simp_all add: new_def)
  show "timeline_ok (reg_profiles s')"
    unfolding s' by (rule timeline_ok_corrected[OF ok(1) over hyps(1) ok(3) ne hyps(2) new_id])
  show "belief (reg_profiles s') (c_id client) on =
      (if in_force (cl_from claim) (cl_to claim) on then Some (cl_regime claim, cl_category claim)
       else belief (reg_profiles s) (c_id client) on)" if "on < FAR_FUTURE"
    using corrected_belief[OF ok(1) over hyps(1) ok(3) ne hyps(2) new_id \<open>on < FAR_FUTURE\<close>]
    by (simp add: s' new_def)
  have over_client: "r \<in> set over \<Longrightarrow> tp_client r = c_id client \<and> tp_superseded_at r = None" for r
    using over by (auto simp: overlaps_exactly_def new_def)
  show "belief (reg_profiles s') cid on = belief (reg_profiles s) cid on" if cid: "cid \<noteq> c_id client"
  proof -
    have "filter (\<lambda>r. tp_client r = cid) (map (stamp now over) (reg_profiles s)) =
        filter (\<lambda>r. tp_client r = cid) (reg_profiles s)"
      using cid over_client by (intro filter_stamp) auto
    moreover have "filter (\<lambda>r. tp_client r = cid)
        (restate_all now ids 0 (all_slices (tp_from new) (tp_to new) over)) = []"
      using cid over_client
      by (auto simp: filter_empty_conv all_slices_def restate_def dest!: in_restate_all)
    ultimately show ?thesis
      using cid by (simp add: s' belief_def corrected_table_def) (simp add: new_def)
  qed
  show "r \<in> set (reg_profiles s') \<or>
      tp_superseded_at r = None \<and> r\<lparr>tp_superseded_at := Some now\<rparr> \<in> set (reg_profiles s')"
    if r: "r \<in> set (reg_profiles s)" for r
  proof -
    have "stamp now over r \<in> set (reg_profiles s')" using r by (simp add: s' corrected_table_def)
    then show ?thesis using over_client[of r] by (auto simp: stamp_def split: if_splits)
  qed
qed

lemma sync_flag_belief:
  assumes "registry_ok ids client s" "today < FAR_FUTURE"
    "sync_profile_flag acc ids now today actor client created s = Inr (row, s')"
  shows "belief (reg_profiles s') (c_id client) today =
    Some (if c_is_mei client then (MEI, Some (c_mei_category client)) else (UNKNOWN, None))"
proof -
  define regime where "regime = (if c_is_mei client then MEI else UNKNOWN)"
  define category where "category = (if c_is_mei client then Some (c_mei_category client) else None)"
  have claim: "Some (if c_is_mei client then (MEI, Some (c_mei_category client)) else (UNKNOWN, None))
      = Some (regime, category)"
    by (simp add: regime_def category_def)
  have profile: "profile_at s (c_id client) today = Some cur \<Longrightarrow>
      belief (reg_profiles s) (c_id client) today = Some (tp_regime cur, tp_category cur)" for cur
    by (simp add: profile_at_def profiles_of_def belief_def)
  show ?thesis
  proof (cases "\<not> created \<and> (case profile_at s (c_id client) today of None \<Rightarrow> False
      | Some cur \<Rightarrow> tp_regime cur = regime \<and> tp_category cur = category)")
    case True
    then obtain cur where cur: "profile_at s (c_id client) today = Some cur"
      "tp_regime cur = regime" "tp_category cur = category"
      by (auto split: option.splits)
    have "s' = s"
      using assms(3) True
      by (simp add: sync_profile_flag_def Let_def res_bind_eq_Inr regime_def [symmetric]
          category_def [symmetric])
    then show ?thesis using profile[OF cur(1)] cur(2,3) claim by simp
  next
    case False
    define start where "start = (if created
      then min (case c_opened_on client of None \<Rightarrow> today | Some d \<Rightarrow> d) today else today)"
    have "start \<le> today" by (simp add: start_def)
    moreover obtain r why where
      "correct_tax_profile acc ids now actor client
         \<lparr>cl_regime = regime, cl_category = category, cl_from = start, cl_to = None,
          cl_recorded_by = Some actor, cl_provenance = ''dual_write'',
          cl_confidence = STAFF_RECORDED, cl_note = why\<rparr>
         (c_tax_profile_revision client) s = Inr (r, s')"
      using assms(3) False
      unfolding sync_profile_flag_def Let_def regime_def [symmetric] category_def [symmetric]
        start_def [symmetric]
      by (simp only: if_False res_bind_eq_Inr) (auto simp: res_bind_eq_Inr)
    ultimately show ?thesis
      using corrected_registry(2)[OF assms(1) _ assms(2)] claim by (simp add: in_force_def)
  qed
qed

lemma correct_tax_profile_lock:
  assumes "correct_tax_profile acc ids now actor client claim expected s = Inr (row, s')"
  shows "\<exists>locked. lock_tax_profile_client acc s actor client expected = Inr locked \<and>
    reg_clients s' = row_put c_id
      (locked\<lparr>c_tax_profile_revision := c_tax_profile_revision locked + 1\<rparr>) (reg_clients s)"
  using assms
  by (auto simp: correct_tax_profile_def res_bind_eq_Inr Let_def split_beta)

section \<open>Properties\<close>


definition demo_client :: client where
  "demo_client =
     \<lparr>c_id = 7, c_tenant = 1, c_status = CL_ACTIVE, c_is_mei = True, c_mei_category = COMMON,
      c_opened_on = Some (Date 2020 3 15), c_tax_profile_revision = 1\<rparr>"

definition demo_registry :: registry where
  "demo_registry =
     \<lparr>reg_context = 1,
      reg_tenants = [\<lparr>t_id = 1, t_is_active = True, t_active_client_limit = Some 5,
        t_cancellation_ends_on = None, t_billing_suspended = False\<rparr>],
      reg_clients = [demo_client],
      reg_profiles = [\<lparr>tp_id = 1, tp_tenant = 1, tp_client = 7, tp_regime = MEI,
        tp_category = Some COMMON, tp_from = Date 2020 3 15, tp_to = None,
        tp_provenance = ''backfill_v1'', tp_confidence = ASSERTED_BY_LEGACY_FLAG,
        tp_recorded_by = None, tp_recorded_at = 0, tp_superseded_at = None,
        tp_correction_of = None, tp_note = ''''\<rparr>],
      reg_events = []\<rparr>"

definition demo_ids :: "nat \<Rightarrow> int" where "demo_ids k = 100 + int k"

definition demo_access :: client_access where
  "demo_access = \<lparr>acc_visible = (\<lambda>_ _. True), acc_can_edit = (\<lambda>_ _. True)\<rparr>"

definition demo_claim :: tax_claim where
  "demo_claim =
     \<lparr>cl_regime = SIMPLES, cl_category = None, cl_from = Date 2023 1 1,
      cl_to = Some (Date 2024 1 1), cl_recorded_by = None, cl_provenance = ''staff_entry'',
      cl_confidence = STAFF_RECORDED, cl_note = ''''\<rparr>"

definition demo_corrected :: registry where
  "demo_corrected =
     (case correct_tax_profile demo_access demo_ids 9 3 demo_client demo_claim 1 demo_registry of
        Inl e \<Rightarrow> demo_registry | Inr (row, s') \<Rightarrow> s')"

lemma demo_registry_ok: "registry_ok demo_ids demo_client demo_registry"
  by (simp add: registry_ok_def demo_registry_def demo_client_def timeline_ok_def one_tenant_def
      fresh_ids_def demo_ids_def inj_def range_nonempty_def)

lemma demo_correction:
  "\<exists>row. correct_tax_profile demo_access demo_ids 9 3 demo_client demo_claim 1 demo_registry =
     Inr (row, demo_corrected)"
proof -
  have "\<exists>locked. lock_tax_profile_client demo_access demo_registry 3 demo_client 1 = Inr locked"
    by (simp add: lock_client_Inr demo_access_def demo_registry_def demo_client_def)
  then obtain row s' where
    "correct_tax_profile demo_access demo_ids 9 3 demo_client demo_claim 1 demo_registry = Inr (row, s')"
    unfolding correct_tax_profile_eq[OF demo_registry_ok]
    by (auto simp: demo_claim_def less_date_def Let_def)
  then show ?thesis by (simp add: demo_corrected_def)
qed


text \<open>C33: over a sound timeline a correction is decided by its guards alone: it succeeds exactly
  when the range is not empty, the client is visible to the actor, the actor may edit tax profiles
  and the revision is the one expected.  In particular the exclusion constraint on current claims
  never fires, whatever the correction overlaps.\<close>

theorem correction_decided_by_guards:
  assumes "registry_ok ids client s"
  shows "(\<exists>row s'. correct_tax_profile acc ids now actor client claim expected s = Inr (row, s')) \<longleftrightarrow>
    (cl_to claim = None \<or> (\<exists>u. cl_to claim = Some u \<and> cl_from claim < u)) \<and>
    (\<exists>c. find (\<lambda>c. c_id c = c_id client \<and> c_tenant c = c_tenant client \<and> acc_visible acc actor c)
            (reg_clients s) = Some c \<and>
         acc_can_edit acc actor c \<and> c_tax_profile_revision c = expected)"
  unfolding correct_tax_profile_eq[OF assms] Let_def res_bind_eq_Inr lock_client_Inr
  by (auto split: option.splits)

theorem correction_decided_by_guards_witness:
  "(\<exists>row s'. correct_tax_profile demo_access demo_ids 9 3 demo_client demo_claim 1 demo_registry =
      Inr (row, s')) \<and>
   \<not> (\<exists>row s'. correct_tax_profile demo_access demo_ids 9 3 demo_client demo_claim 2 demo_registry =
      Inr (row, s'))"
  unfolding correction_decided_by_guards [OF demo_registry_ok]
  by (simp add: demo_access_def demo_registry_def demo_client_def demo_claim_def less_date_def)

text \<open>two callers holding the same revision cannot both commit: once a correction made against
  a revision has succeeded, no correction of that client made against the same revision succeeds,
  whoever makes it and whatever it claims.\<close>

theorem correction_revision_race:
  assumes "correct_tax_profile acc ids now actor client claim expected s = Inr (row, s')"
  shows "correct_tax_profile acc2 ids2 now2 actor2 client claim2 expected s' \<noteq> Inr (row2, s2)"
proof
  assume second: "correct_tax_profile acc2 ids2 now2 actor2 client claim2 expected s' = Inr (row2, s2)"
  obtain locked where first: "lock_tax_profile_client acc s actor client expected = Inr locked"
    and s': "reg_clients s' = row_put c_id
      (locked\<lparr>c_tax_profile_revision := c_tax_profile_revision locked + 1\<rparr>) (reg_clients s)"
    using correct_tax_profile_lock[OF assms] by blast
  obtain locked2 where "lock_tax_profile_client acc2 s' actor2 client expected = Inr locked2"
    using correct_tax_profile_lock[OF second] by blast
  then have "locked2 \<in> set (reg_clients s')" "c_id locked2 = c_id client"
    "c_tax_profile_revision locked2 = expected"
    by (auto simp: lock_client_Inr dest: find_Some_iff_first)
  moreover have "c_id locked = c_id client" "c_tax_profile_revision locked = expected"
    using first by (auto simp: lock_client_Inr dest: find_Some_iff_first)
  ultimately have "locked2 = locked\<lparr>c_tax_profile_revision := expected + 1\<rparr>"
    by (auto simp: s' row_put_def split: if_splits)
  then have "c_tax_profile_revision locked2 = expected + 1" by simp
  with \<open>c_tax_profile_revision locked2 = expected\<close> show False by simp
qed

theorem correction_revision_race_witness:
  "\<not> (\<exists>row2 s2. correct_tax_profile demo_access (\<lambda>k. 200 + int k) 10 4 demo_client
        (demo_claim\<lparr>cl_regime := PRESUMIDO\<rparr>) 1 demo_corrected = Inr (row2, s2))"
  using demo_correction correction_revision_race [of demo_access demo_ids 9 3 demo_client demo_claim 1]
  by blast

text \<open>corrections never rewrite what the firm believed: every row of the timeline is still in
  the table after a correction, either untouched or, if it was current, with nothing but its
  superseded stamp added.\<close>

theorem correction_keeps_history:
  assumes "registry_ok ids client s"
    "correct_tax_profile acc ids now actor client claim expected s = Inr (row, s')"
    "r \<in> set (reg_profiles s)"
  shows "r \<in> set (reg_profiles s') \<or>
    tp_superseded_at r = None \<and> r\<lparr>tp_superseded_at := Some now\<rparr> \<in> set (reg_profiles s')"
  by (rule corrected_registry(4)[OF assms])

theorem correction_keeps_history_witness:
  "\<exists>r\<in>set (reg_profiles demo_corrected). tp_id r = 1 \<and> tp_regime r = MEI \<and> tp_to r = None"
proof -
  obtain row where r:
    "correct_tax_profile demo_access demo_ids 9 3 demo_client demo_claim 1 demo_registry =
       Inr (row, demo_corrected)"
    using demo_correction by blast
  let ?old = "hd (reg_profiles demo_registry)"
  have old: "?old \<in> set (reg_profiles demo_registry)" "tp_id ?old = 1" "tp_regime ?old = MEI"
    "tp_to ?old = None"
    by (simp_all add: demo_registry_def)
  obtain x where x: "x \<in> set (reg_profiles demo_corrected)"
    "x = ?old \<or> x = ?old\<lparr>tp_superseded_at := Some 9\<rparr>"
    using correction_keeps_history [OF demo_registry_ok r old(1)] by blast
  have "tp_id x = 1 \<and> tp_regime x = MEI \<and> tp_to x = None"
    using x(2) old(2-4) by (elim disjE) simp_all
  with x(1) show ?thesis by blast
qed

text \<open>the dual write keeps the timeline in step with the registry: after the legacy flag is
  synchronized, whether a row was added or none was needed, the regime believed for today is the
  one the flag and category of the client name.\<close>

theorem sync_profile_flag_agrees:
  assumes "registry_ok ids client s" "today < FAR_FUTURE"
    "sync_profile_flag acc ids now today actor client created s = Inr (row, s')"
  shows "belief (reg_profiles s') (c_id client) today =
    Some (if c_is_mei client then (MEI, Some (c_mei_category client)) else (UNKNOWN, None))"
  by (rule sync_flag_belief[OF assms])

theorem sync_profile_flag_agrees_witness:
  "\<exists>row s'. sync_profile_flag demo_access demo_ids 9 (Date 2026 7 1) 3
       (demo_client\<lparr>c_is_mei := False\<rparr>) False demo_registry = Inr (row, s') \<and>
     belief (reg_profiles s') 7 (Date 2026 7 1) = Some (UNKNOWN, None)"
proof -
  let ?c = "demo_client\<lparr>c_is_mei := False\<rparr>"
  have ok: "registry_ok demo_ids ?c demo_registry"
    using demo_registry_ok by (simp add: registry_ok_def)
  have day: "Date 2026 7 1 < FAR_FUTURE" by code_simp
  have "\<not> (case sync_profile_flag demo_access demo_ids 9 (Date 2026 7 1) 3 ?c False demo_registry of
      Inl e \<Rightarrow> True | Inr x \<Rightarrow> False)"
    by code_simp
  then obtain row s' where
    s': "sync_profile_flag demo_access demo_ids 9 (Date 2026 7 1) 3 ?c False demo_registry = Inr (row, s')"
    by (auto split: sum.splits)
  with sync_profile_flag_agrees [OF ok day s'] show ?thesis by (simp add: demo_client_def)
qed

end
