(* ===== verification/Permission_Matrix.thy ===== *)
theory Permission_Matrix
  imports Mei_Prelude
begin

text \<open>
  The published permission matrix: the roles and levels of \<^verbatim>\<open>apps/authz/models.py\<close>, the rows of
  \<^verbatim>\<open>apps/authz/matrix.py\<close> cell for cell, and the tables \<^verbatim>\<open>0002_seed_matrix.py\<close> and its successors
  fill from them.
\<close>

section \<open>Roles and levels\<close>

datatype role =
    PLATFORM_ADMIN | OWNER | STAFF_ACCOUNTANT | OPERATIONS_ADMIN | CLIENT_OWNER
  | CLIENT_COLLABORATOR

datatype grant_level =
    FULL | NONE | LIMITED | VIEW_CONFIRM | INITIATE_APPROVE | OWN | TICKET_ONLY

definition ROLE_ORDER :: "role list" where
  "ROLE_ORDER =
     [PLATFORM_ADMIN, OWNER, STAFF_ACCOUNTANT, OPERATIONS_ADMIN, CLIENT_OWNER,
      CLIENT_COLLABORATOR]"

text \<open>The membership roles of \<^verbatim>\<open>apps/tenants/models.py\<close>, firm side and client side.\<close>

definition FIRM_ROLES :: "role list" where
  "FIRM_ROLES = [OWNER, STAFF_ACCOUNTANT, OPERATIONS_ADMIN]"

definition CLIENT_ROLES :: "role list" where
  "CLIENT_ROLES = [CLIENT_OWNER, CLIENT_COLLABORATOR]"

text \<open>The total order two levels compete in.\<close>

fun LEVEL_RANK :: "grant_level \<Rightarrow> nat" where
  "LEVEL_RANK NONE = 0"
| "LEVEL_RANK TICKET_ONLY = 1"
| "LEVEL_RANK VIEW_CONFIRM = 2"
| "LEVEL_RANK INITIATE_APPROVE = 3"
| "LEVEL_RANK OWN = 4"
| "LEVEL_RANK LIMITED = 5"
| "LEVEL_RANK FULL = 6"

definition max_level :: "grant_level \<Rightarrow> grant_level \<Rightarrow> grant_level" where
  "max_level first second = (if LEVEL_RANK second \<le> LEVEL_RANK first then first else second)"

lemma LEVEL_RANK_inject: "LEVEL_RANK a = LEVEL_RANK b \<Longrightarrow> a = b"
  by (cases a; cases b) auto

instantiation grant_level :: linorder
begin

definition less_eq_grant_level :: "grant_level \<Rightarrow> grant_level \<Rightarrow> bool" where
  "less_eq_grant_level a b \<longleftrightarrow> LEVEL_RANK a \<le> LEVEL_RANK b"

definition less_grant_level :: "grant_level \<Rightarrow> grant_level \<Rightarrow> bool" where
  "less_grant_level a b \<longleftrightarrow> LEVEL_RANK a < LEVEL_RANK b"

instance
  by standard (auto simp: less_eq_grant_level_def less_grant_level_def intro: LEVEL_RANK_inject)

end

text \<open>The competition of two levels is the maximum of that order.\<close>

lemma max_level_max: "max_level a b = max a b"
  by (auto simp: max_level_def max_def less_eq_grant_level_def intro: LEVEL_RANK_inject)

lemma NONE_least [simp]: "NONE \<le> (a :: grant_level)"
  by (simp add: less_eq_grant_level_def)

lemma FULL_greatest [simp]: "a \<le> (FULL :: grant_level)"
  by (cases a) (simp_all add: less_eq_grant_level_def)

lemma max_level_NONE [simp]: "max_level a NONE = a" "max_level NONE a = a"
  by (simp_all add: max_level_max max_def antisym)

lemma max_level_FULL [simp]: "max_level FULL a = FULL" "max_level a FULL = FULL"
  by (simp_all add: max_level_max max_def antisym)

section \<open>The matrix\<close>

record capability_row =
  cr_slug :: string
  cr_label :: string
  cr_levels :: "grant_level list"

definition cap_row :: "string \<Rightarrow> string \<Rightarrow> grant_level list \<Rightarrow> capability_row" where
  "cap_row slug label levels = \<lparr>cr_slug = slug, cr_label = label, cr_levels = levels\<rparr>"

text \<open>\<^verbatim>\<open>grants()\<close>: \<^verbatim>\<open>zip(..., strict=True)\<close> refuses a row of another length.\<close>

definition row_grants :: "capability_row \<Rightarrow> (role \<times> grant_level) list res" where
  "row_grants row =
     (if length (cr_levels row) \<noteq> length ROLE_ORDER then Inl ValueError
      else Inr (zip ROLE_ORDER (cr_levels row)))"

definition MATRIX :: "capability_row list" where
  "MATRIX = [
     cap_row ''tenants.create'' ''Create firm tenant''
       [FULL, NONE, NONE, NONE, NONE, NONE],
     cap_row ''billing.manage'' ''Manage firm billing and plan''
       [FULL, FULL, NONE, FULL, NONE, NONE],
     cap_row ''users.create'' ''Create and deactivate users''
       [FULL, FULL, NONE, FULL, NONE, NONE],
     cap_row ''clients.create'' ''Create client workspace''
       [FULL, FULL, FULL, FULL, NONE, NONE],
     cap_row ''clients.view_all'' ''View all clients in firm''
       [FULL, FULL, FULL, FULL, NONE, NONE],
     cap_row ''clients.view_assigned'' ''View assigned clients only''
       [FULL, FULL, FULL, FULL, FULL, FULL],
     cap_row ''clients.edit_tax_profile'' ''Edit client tax profile''
       [FULL, FULL, FULL, LIMITED, NONE, NONE],
     cap_row ''integrations.connect'' ''Connect official integrations''
       [FULL, FULL, FULL, LIMITED, INITIATE_APPROVE, NONE],
     cap_row ''documents.transfer'' ''Upload/download documents''
       [FULL, FULL, FULL, FULL, FULL, FULL],
     cap_row ''das.generate'' ''Generate DAS workflows''
       [FULL, FULL, FULL, NONE, VIEW_CONFIRM, NONE],
     cap_row ''dasn.submit'' ''Submit DASN workflow''
       [FULL, FULL, FULL, NONE, VIEW_CONFIRM, NONE],
     cap_row ''invoices.issue'' ''Issue / request invoices''
       [FULL, FULL, FULL, NONE, FULL, LIMITED],
     cap_row ''reports.view_financial'' ''View financial reports''
       [FULL, FULL, FULL, LIMITED, FULL, LIMITED],
     cap_row ''permissions.manage'' ''Manage permissions''
       [FULL, FULL, NONE, LIMITED, NONE, NONE],
     cap_row ''audit.view'' ''Access audit logs''
       [FULL, FULL, LIMITED, LIMITED, OWN, OWN],
     cap_row ''support.access'' ''Access support / incident console''
       [FULL, FULL, LIMITED, FULL, TICKET_ONLY, TICKET_ONLY],
     cap_row ''obligations.view_revenue_threshold_queue'' ''View revenue threshold queue''
       [FULL, FULL, FULL, FULL, NONE, NONE],
     cap_row ''clients.import'' ''Import client portfolio''
       [NONE, FULL, NONE, FULL, NONE, NONE],
     cap_row ''clients.manage'' ''Maintain clients, engagements, contacts''
       [NONE, FULL, FULL, FULL, NONE, NONE],
     cap_row ''playbooks.manage'' ''Edit and publish playbooks''
       [NONE, FULL, NONE, FULL, NONE, NONE],
     cap_row ''cycles.operate'' ''Operate service cycles''
       [NONE, FULL, FULL, FULL, NONE, NONE],
     cap_row ''cycles.review'' ''Review client documents''
       [NONE, FULL, FULL, FULL, NONE, NONE],
     cap_row ''actions.approve'' ''Approve client-facing effects''
       [NONE, FULL, NONE, FULL, NONE, NONE],
     cap_row ''cycles.complete'' ''Complete service cycles''
       [NONE, FULL, FULL, FULL, NONE, NONE],
     cap_row ''cycles.reopen'' ''Reopen completed cycles''
       [NONE, FULL, NONE, FULL, NONE, NONE],
     cap_row ''bulk.run'' ''Run bulk operations''
       [NONE, FULL, NONE, FULL, NONE, NONE],
     cap_row ''automations.manage'' ''Manage automations''
       [NONE, FULL, NONE, FULL, NONE, NONE],
     cap_row ''evidence.export'' ''Export evidence bundles''
       [NONE, FULL, FULL, FULL, NONE, NONE],
     cap_row ''support.grant'' ''Grant support access''
       [NONE, FULL, NONE, NONE, NONE, NONE],
     cap_row ''publications.acknowledge'' ''Acknowledge publications''
       [NONE, NONE, NONE, NONE, FULL, FULL],
     cap_row ''tenants.account'' ''Export and cancel firm account, view estimated costs''
       [NONE, FULL, NONE, NONE, NONE, NONE],
     cap_row ''fiscal.connections.manage'' ''Manage fiscal provider connections''
       [NONE, FULL, NONE, FULL, NONE, NONE],
     cap_row ''fiscal.authority.manage'' ''Manage client fiscal authority''
       [NONE, FULL, NONE, FULL, NONE, NONE],
     cap_row ''fiscal.checks.run'' ''Run federal fiscal checks''
       [NONE, FULL, FULL, FULL, NONE, NONE],
     cap_row ''municipal.rules.manage'' ''Author municipal rules''
       [NONE, FULL, FULL, FULL, NONE, NONE],
     cap_row ''municipal.rules.review'' ''Review municipal rules''
       [NONE, FULL, NONE, FULL, NONE, NONE]]"

definition CAPABILITY_SLUGS :: "string list" where
  "CAPABILITY_SLUGS = map cr_slug MATRIX"

text \<open>A row of the grant table, named by its capability's slug.\<close>

record role_grant =
  rg_id :: int
  rg_role :: role
  rg_slug :: string
  rg_level :: grant_level
  rg_version :: int

text \<open>The grants the seed migrations write: one per cell of the matrix.\<close>

fun seed_rows :: "capability_row list \<Rightarrow> int \<Rightarrow> role_grant list res" where
  "seed_rows [] n = Inr []"
| "seed_rows (row # rows) n =
     res_bind (row_grants row) (\<lambda>cells.
     res_bind (seed_rows rows (n + int (length cells))) (\<lambda>rest.
       Inr (map (\<lambda>(i, r, l). \<lparr>rg_id = n + int i, rg_role = r, rg_slug = cr_slug row, rg_level = l,
                              rg_version = 1\<rparr>) (enumerate 0 cells) @ rest)))"

end
