(* ===== verification/Feature_Flags.thy ===== *)
theory Feature_Flags
  imports Permission_Matrix
begin

text \<open>
  Per-tenant feature flags: \<^verbatim>\<open>apps/core/flags.py\<close> and the flag half of \<^verbatim>\<open>apps/authz/stash.py\<close>.
  The context variables of a request (the portal stash and the flag cache), the kill switch and
  the feature column of the tenant table are one record, \<open>flag_scope\<close>, that every question
  threads.
\<close>

section \<open>The registry\<close>

definition FEATURES :: "string list" where
  "FEATURES =
     [''cycles_r1'', ''briefing_r1'', ''ai_shadow'', ''bulk_r1'', ''import_r1'',
      ''firm_settings_r1'', ''scan_required'', ''federal_checks'', ''document_capture'',
      ''municipal_work'']"

definition REGIONAL_PREREQUISITES :: "string list" where
  "REGIONAL_PREREQUISITES = [''cycles_r1'', ''scan_required'']"

definition FEATURE_PREREQUISITES :: "(string \<times> string list) list" where
  "FEATURE_PREREQUISITES =
     [(''scan_required'', [''cycles_r1'']),
      (''federal_checks'', REGIONAL_PREREQUISITES),
      (''document_capture'', REGIONAL_PREREQUISITES),
      (''municipal_work'', REGIONAL_PREREQUISITES)]"

definition prerequisites :: "string \<Rightarrow> string list" where
  "prerequisites flag =
     (case map_of FEATURE_PREREQUISITES flag of None \<Rightarrow> [] | Some names \<Rightarrow> names)"

section \<open>The scope of a question\<close>

text \<open>\<^verbatim>\<open>PortalStash\<close>; \<open>levels\<close> are the capability levels the authorization theory reads.\<close>

record portal_stash =
  st_user :: int
  st_tenant :: int
  st_levels :: "(string \<times> grant_level) list"
  st_features :: "string list"

record flag_scope =
  fs_stash :: "portal_stash option"
  fs_cache :: "(int \<times> string list) list option"
  fs_rows :: "(int \<times> string list) list"
  fs_disabled :: "string list"

text \<open>
  \<^verbatim>\<open>stashed_features\<close>: no stash is no answer, a stash of another firm is a refusal.  The
  identifier is \<open>None\<close> when the request was granted no tenant.
\<close>

definition stashed_features :: "portal_stash option \<Rightarrow> int option \<Rightarrow> string list option res" where
  "stashed_features stash tid =
     (case stash of
        None \<Rightarrow> Inr None
      | Some st \<Rightarrow> if tid \<noteq> Some (st_tenant st) then Inl PortalStashMiss
                  else Inr (Some (st_features st)))"

definition open_flag_cache :: "(flag_scope, 'a) tx \<Rightarrow> (flag_scope, 'a) tx" where
  "open_flag_cache body s =
     res_bind (body (s\<lparr>fs_cache := Some []\<rparr>)) (\<lambda>(x, s'). Inr (x, s'\<lparr>fs_cache := fs_cache s\<rparr>))"

definition prime_flag_cache :: "int \<Rightarrow> string list \<Rightarrow> flag_scope \<Rightarrow> flag_scope" where
  "prime_flag_cache tid features s =
     (case fs_cache s of
        None \<Rightarrow> s
      | Some cache \<Rightarrow> s\<lparr>fs_cache := Some ((tid, features) # cache)\<rparr>)"

section \<open>The answers\<close>

definition effective_flag :: "string list \<Rightarrow> string \<Rightarrow> string list \<Rightarrow> bool" where
  "effective_flag disabled flag features =
     list_all (\<lambda>name. name \<in> set features \<and> name \<notin> set disabled) (flag # prerequisites flag)"

definition read_features :: "int \<Rightarrow> flag_scope \<Rightarrow> string list" where
  "read_features tid s = (case map_of (fs_rows s) tid of None \<Rightarrow> [] | Some features \<Rightarrow> features)"

definition features_for :: "int \<Rightarrow> (flag_scope, string list) tx" where
  "features_for tid s =
     res_bind (stashed_features (fs_stash s) (Some tid)) (\<lambda>stashed.
       case stashed of
         Some features \<Rightarrow> Inr (features, s)
       | None \<Rightarrow>
           (case fs_cache s of
              None \<Rightarrow> Inr (read_features tid s, s)
            | Some cache \<Rightarrow>
                (case map_of cache tid of
                   Some features \<Rightarrow> Inr (features, s)
                 | None \<Rightarrow>
                     (let features = read_features tid s in
                      Inr (features, s\<lparr>fs_cache := Some ((tid, features) # cache)\<rparr>)))))"

definition tenant_has :: "int \<Rightarrow> string \<Rightarrow> (flag_scope, bool) tx" where
  "tenant_has tid flag s =
     (if flag \<notin> set FEATURES then Inl UnknownFeature
      else res_bind (features_for tid s) (\<lambda>(features, s').
             Inr (effective_flag (fs_disabled s') flag features, s')))"

definition tenant_row_has :: "string list \<Rightarrow> string list \<Rightarrow> string \<Rightarrow> bool res" where
  "tenant_row_has disabled features flag =
     (if flag \<notin> set FEATURES then Inl UnknownFeature
      else Inr (effective_flag disabled flag features))"

text \<open>
  The two view gates.  An unknown slug is refused when the view is decorated; the decorated
  view takes the tenant the middleware attached to the request.
\<close>

definition check_flag :: "string \<Rightarrow> unit res" where
  "check_flag flag = (if flag \<notin> set FEATURES then Inl UnknownFeature else Inr ())"

definition require_feature ::
  "string \<Rightarrow> (int option \<Rightarrow> (flag_scope, 'a) tx) \<Rightarrow> (int option \<Rightarrow> (flag_scope, 'a) tx) res" where
  "require_feature flag view =
     res_bind (check_flag flag) (\<lambda>_. Inr (\<lambda>tenant s.
       case tenant of
         None \<Rightarrow> Inl Http404
       | Some tid \<Rightarrow> res_bind (tenant_has tid flag s) (\<lambda>(on, s').
           if on then view tenant s' else Inl Http404)))"

definition require_portal_feature ::
  "string \<Rightarrow> (int option \<Rightarrow> (flag_scope, 'a) tx) \<Rightarrow> (int option \<Rightarrow> (flag_scope, 'a) tx) res" where
  "require_portal_feature flag view =
     res_bind (check_flag flag) (\<lambda>_. Inr (\<lambda>tenant s.
       res_bind (stashed_features (fs_stash s) tenant) (\<lambda>stashed.
         case stashed of
           None \<Rightarrow> Inl Http404
         | Some features \<Rightarrow>
             if effective_flag (fs_disabled s) flag features then view tenant s else Inl Http404)))"

section \<open>Prerequisites close downward\<close>

definition requires :: "(string \<times> string) set" where
  "requires = {(flag, p). p \<in> set (prerequisites flag)}"

lemmas registry_defs = prerequisites_def FEATURE_PREREQUISITES_def REGIONAL_PREREQUISITES_def

lemma prerequisites_known: "p \<in> set (prerequisites flag) \<Longrightarrow> p \<in> set FEATURES"
  by (auto simp: registry_defs FEATURES_def split: if_splits option.splits)

lemma prerequisites_closed:
  "p \<in> set (prerequisites flag) \<Longrightarrow> set (prerequisites p) \<subseteq> set (prerequisites flag)"
  by (auto simp: registry_defs split: if_splits option.splits)

lemma effective_flag_iff:
  "effective_flag disabled flag features \<longleftrightarrow>
     (\<forall>p. p = flag \<or> p \<in> set (prerequisites flag) \<longrightarrow> p \<in> set features \<and> p \<notin> set disabled)"
  by (auto simp: effective_flag_def list_all_iff)

lemma effective_prerequisite:
  "effective_flag disabled flag features \<Longrightarrow> (flag, p) \<in> requires\<^sup>* \<Longrightarrow>
     effective_flag disabled p features"
proof (rotate_tac, induction rule: rtrancl_induct)
  case base
  then show ?case by simp
next
  case (step p q)
  then have "effective_flag disabled p features" "q \<in> set (prerequisites p)"
    by (auto simp: requires_def)
  with prerequisites_closed[of q p] show ?case by (auto simp: effective_flag_iff)
qed

lemma requires_known: "(flag, p) \<in> requires\<^sup>* \<Longrightarrow> flag \<in> set FEATURES \<Longrightarrow> p \<in> set FEATURES"
  by (induction rule: rtrancl_induct) (auto simp: requires_def dest: prerequisites_known)

lemma tenant_has_eq_Inr:
  "tenant_has tid flag s = Inr (on, s') \<longleftrightarrow>
     flag \<in> set FEATURES \<and>
     (\<exists>features. features_for tid s = Inr (features, s') \<and>
        on = effective_flag (fs_disabled s') flag features)"
  by (auto simp: tenant_has_def res_bind_eq_Inr)

text \<open>A flag that answers yes stands on its prerequisites: if a tenant has a flag then, in the
  same scope, it has every flag the registry makes it depend on, directly or through others;
  standing one of those down by the kill switch stands the flag down with it.\<close>

theorem feature_needs_prerequisites:
  assumes "tenant_has tid flag s = Inr (True, s')" "(flag, p) \<in> requires\<^sup>*"
  shows "tenant_has tid p s = Inr (True, s')"
  using assms effective_prerequisite[of _ flag _ p] requires_known[of flag p]
  by (auto simp: tenant_has_eq_Inr)

theorem feature_needs_prerequisites_witness:
  "tenant_has 4 ''cycles_r1''
     \<lparr>fs_stash = None, fs_cache = None,
      fs_rows = [(4, [''federal_checks'', ''scan_required'', ''cycles_r1''])],
      fs_disabled = [''bulk_r1'']\<rparr> =
   Inr (True,
     \<lparr>fs_stash = None, fs_cache = None,
      fs_rows = [(4, [''federal_checks'', ''scan_required'', ''cycles_r1''])],
      fs_disabled = [''bulk_r1'']\<rparr>)"
proof (rule feature_needs_prerequisites[where flag = "''federal_checks''"])
  have "(''federal_checks'', ''scan_required'') \<in> requires" "(''scan_required'', ''cycles_r1'') \<in> requires"
    by (simp_all add: requires_def registry_defs)
  then show "(''federal_checks'', ''cycles_r1'') \<in> requires\<^sup>*"
    by (meson converse_rtrancl_into_rtrancl r_into_rtrancl)
qed code_simp

lemma kill_switch_stands_down:
  assumes "(flag, p) \<in> requires\<^sup>*" "p \<in> set (fs_disabled s)" "features_for tid s = Inr (features, s')"
    "fs_disabled s' = fs_disabled s" "flag \<in> set FEATURES"
  shows "tenant_has tid flag s = Inr (False, s')"
proof -
  have "\<not> effective_flag (fs_disabled s) p features"
    using assms(2) by (auto simp: effective_flag_def)
  then have "\<not> effective_flag (fs_disabled s) flag features"
    using effective_prerequisite[OF _ assms(1)] by blast
  with assms(3-5) show ?thesis by (simp add: tenant_has_eq_Inr)
qed

section \<open>A request's cache\<close>

text \<open>The cache of a scope only holds what the rows say.\<close>

definition cache_agrees :: "flag_scope \<Rightarrow> bool" where
  "cache_agrees s \<longleftrightarrow>
     (\<forall>cache tid features. fs_cache s = Some cache \<and> map_of cache tid = Some features \<longrightarrow>
        set features = set (read_features tid s))"

lemma read_features_cache [simp]: "read_features tid (s\<lparr>fs_cache := c\<rparr>) = read_features tid s"
  by (simp add: read_features_def)

lemma features_for_frame:
  assumes "features_for tid s = Inr (features, s')"
  shows "fs_stash s' = fs_stash s \<and> fs_rows s' = fs_rows s \<and> fs_disabled s' = fs_disabled s"
  using assms
  by (auto simp: features_for_def res_bind_eq_Inr Let_def split: option.splits)

lemma features_for_unstashed:
  assumes "fs_stash s = None" "cache_agrees s"
  obtains features s' where "features_for tid s = Inr (features, s')"
    "set features = set (read_features tid s)" "cache_agrees s'"
proof (cases "fs_cache s")
  case None
  with assms show ?thesis
    by (intro that[of "read_features tid s" s])
       (simp_all add: features_for_def stashed_features_def)
next
  case (Some cache)
  show ?thesis
  proof (cases "map_of cache tid")
    case None
    let ?s = "s\<lparr>fs_cache := Some ((tid, read_features tid s) # cache)\<rparr>"
    have "cache_agrees ?s"
      using assms Some by (auto simp: cache_agrees_def)
    with None Some assms show ?thesis
      by (intro that[of "read_features tid s" ?s])
         (simp_all add: features_for_def stashed_features_def Let_def)
  next
    case (Some features)
    with \<open>fs_cache s = Some cache\<close> assms show ?thesis
      by (intro that[of features s])
         (simp_all add: features_for_def stashed_features_def cache_agrees_def)
  qed
qed

lemma effective_flag_set: "set xs = set ys \<Longrightarrow> effective_flag d flag xs = effective_flag d flag ys"
  by (simp add: effective_flag_iff)

lemma tenant_has_unstashed:
  assumes "fs_stash s = None" "cache_agrees s" "flag \<in> set FEATURES"
  obtains s' where
    "tenant_has tid flag s = Inr (effective_flag (fs_disabled s) flag (read_features tid s), s')"
    "cache_agrees s'" "fs_stash s' = None" "fs_rows s' = fs_rows s" "fs_disabled s' = fs_disabled s"
proof -
  obtain features s' where f: "features_for tid s = Inr (features, s')"
    "set features = set (read_features tid s)" "cache_agrees s'"
    by (rule features_for_unstashed[OF assms(1,2)])
  note frame = features_for_frame[OF f(1)]
  show ?thesis
    by (rule that[of s'])
       (use assms frame f effective_flag_set[OF f(2)] in \<open>auto simp: tenant_has_def\<close>)
qed

text \<open>A view asks its questions in order; the first unknown slug ends it.\<close>

fun ask_flags :: "(int \<times> string) list \<Rightarrow> (flag_scope, bool list) tx" where
  "ask_flags [] s = Inr ([], s)"
| "ask_flags ((tid, flag) # qs) s =
     res_bind (tenant_has tid flag s) (\<lambda>(on, s1).
     res_bind (ask_flags qs s1) (\<lambda>(answers, s2). Inr (on # answers, s2)))"

definition answers_of :: "(bool list \<times> flag_scope) res \<Rightarrow> bool list res" where
  "answers_of r = res_bind r (\<lambda>(answers, _). Inr answers)"

fun plain_answers :: "flag_scope \<Rightarrow> (int \<times> string) list \<Rightarrow> bool list res" where
  "plain_answers s [] = Inr []"
| "plain_answers s ((tid, flag) # qs) =
     (if flag \<notin> set FEATURES then Inl UnknownFeature
      else res_bind (plain_answers s qs) (\<lambda>answers.
             Inr (effective_flag (fs_disabled s) flag (read_features tid s) # answers)))"

lemma plain_answers_cong:
  "fs_rows s = fs_rows t \<Longrightarrow> fs_disabled s = fs_disabled t \<Longrightarrow> plain_answers s qs = plain_answers t qs"
  by (induction qs rule: plain_answers.induct) (auto simp: read_features_def)

lemma ask_flags_plain:
  "fs_stash s = None \<Longrightarrow> cache_agrees s \<Longrightarrow> answers_of (ask_flags qs s) = plain_answers s qs"
proof (induction qs arbitrary: s)
  case Nil
  then show ?case by (simp add: answers_of_def)
next
  case (Cons q qs)
  obtain tid flag where q: "q = (tid, flag)" by (cases q)
  show ?case
  proof (cases "flag \<in> set FEATURES")
    case False
    then show ?thesis by (simp add: q answers_of_def tenant_has_def)
  next
    case True
    obtain s' where s': "tenant_has tid flag s =
        Inr (effective_flag (fs_disabled s) flag (read_features tid s), s')"
      "cache_agrees s'" "fs_stash s' = None" "fs_rows s' = fs_rows s" "fs_disabled s' = fs_disabled s"
      by (rule tenant_has_unstashed[OF Cons.prems True])
    have "answers_of (ask_flags qs s') = plain_answers s qs"
      using Cons.IH[OF s'(3,2)] plain_answers_cong[OF s'(4,5)] by simp
    then show ?thesis
      using True s'(1)
      by (cases "ask_flags qs s'"; cases "plain_answers s qs")
         (auto simp: q answers_of_def)
  qed
qed

text \<open>The request's flag cache is invisible: a request that opens the cache, primes it with the
  row of its own tenant and asks any sequence of questions gets the answers (or the unknown-flag
  error) that reading the tenant rows directly would have given.\<close>

theorem flag_cache_transparent:
  assumes "fs_stash s = None" "fs_cache s = None"
  shows "answers_of (open_flag_cache
           (\<lambda>s1. ask_flags qs (prime_flag_cache tid (read_features tid s1) s1)) s) =
         answers_of (ask_flags qs s)"
proof -
  define s1 where "s1 = prime_flag_cache tid (read_features tid s) (s\<lparr>fs_cache := Some []\<rparr>)"
  have s1: "s1 = s\<lparr>fs_cache := Some [(tid, read_features tid s)]\<rparr>"
    by (simp add: s1_def prime_flag_cache_def)
  have "cache_agrees s1" "cache_agrees s"
    using assms by (auto simp: s1 cache_agrees_def)
  then have "answers_of (ask_flags qs s1) = answers_of (ask_flags qs s)"
    using assms ask_flags_plain[of s1 qs] ask_flags_plain[of s qs] plain_answers_cong[of s1 s qs]
    by (simp add: s1)
  then show ?thesis
    by (cases "ask_flags qs s1") (auto simp: open_flag_cache_def answers_of_def s1_def)
qed

theorem flag_cache_transparent_witness:
  "answers_of (open_flag_cache
     (\<lambda>s1. ask_flags [(4, ''cycles_r1''), (5, ''bulk_r1''), (4, ''scan_required'')]
             (prime_flag_cache 4 (read_features 4 s1) s1))
     \<lparr>fs_stash = None, fs_cache = None, fs_rows = [(4, [''cycles_r1'']), (5, [''bulk_r1''])],
      fs_disabled = []\<rparr>) = Inr [True, True, False]"
  by (subst flag_cache_transparent)
     (simp_all add: answers_of_def tenant_has_def FEATURES_def features_for_def stashed_features_def
        read_features_def effective_flag_def registry_defs)

section \<open>The portal asks the stash alone\<close>

text \<open>A view behind the portal gate runs only for the firm its stash was built for.\<close>

lemma portal_gate_needs_stash:
  assumes "require_portal_feature flag view = Inr gated" "gated tenant s = Inr r"
  shows "\<exists>st. fs_stash s = Some st \<and> tenant = Some (st_tenant st) \<and>
           effective_flag (fs_disabled s) flag (st_features st)"
  using assms
  by (auto simp: require_portal_feature_def check_flag_def stashed_features_def res_bind_eq_Inr
      split: if_splits option.splits)

end
