(* ===== verification/Provider_Model.thy ===== *)
theory Provider_Model
  imports Py_Date Feature_Flags Complex_Main
begin

text \<open>
  The tables and contracts of the provider call protocol: \<^verbatim>\<open>apps/integrations/call_models.py\<close>,
  \<^verbatim>\<open>budget_models.py\<close> and \<^verbatim>\<open>call_contracts.py\<close>, with the owned-work tables its alerts write
  (integration issues, cycle exceptions).  Identifiers are drawn from a counter of the state,
  a clock reading is an integer of seconds since 1970 and a month is its first day.
\<close>

section \<open>Enumerations\<close>

datatype provider = SERPRO | FOCUS

datatype environment = FAKE | TRIAL | HOMOLOGACAO | PRODUCAO

datatype operation_class = Read_Op | Issuance_Op | Registration_Op | Configuration_Op

datatype billing_class = CONSULTA | EMISSAO | INCLUIDO_NO_PLANO | NAO_FATURADA

datatype feature = FEDERAL_CHECKS | DOCUMENT_CAPTURE

text \<open>The slug of the flag an operation is gated on.\<close>

primrec feature_slug :: "feature \<Rightarrow> string" where
  "feature_slug FEDERAL_CHECKS = ''federal_checks''"
| "feature_slug DOCUMENT_CAPTURE = ''document_capture''"

datatype billed = SIM | NAO | DESCONHECIDO

datatype call_state =
    QUEUED | RESERVED | CLAIMED | STARTED | SUCCESS | WAITING | RETRY | FAILED | DENIED
  | UNCERTAIN | RECONCILED | QUOTA | AUTHORITY | PAUSED | CANCELLED

datatype hold_state = HELD | KNOWN | UNSURE | RELEASED

datatype observation = OBS_RESULT | OBS_LATE | OBS_UNCERTAIN

datatype usage_kind = ESTIMATED | CONFIRMED

datatype metric = SERPRO_CONSULTA | SERPRO_EMISSAO | FOCUS_EVENTOS

datatype issue_state = ISSUE_OPEN | ISSUE_HANDLING | ISSUE_RESOLVED

datatype issue_reason = UNCERTAIN_CALL | QUOTA_NEAR | QUOTA_EXHAUSTED

datatype cycle_state =
    CY_PLANNED | CY_ACTIVE | CY_WAITING | CY_REVIEW | CY_APPROVAL | CY_EXECUTION
  | CY_COMPLETED | CY_BLOCKED | CY_WITH_PENDING | CY_CANCELLED

section \<open>Rows\<close>

record ptenant =
  tn_id :: int
  tn_active :: bool
  tn_features :: "string list"

record connection_row =
  cn_id :: int
  cn_tenant :: int
  cn_provider :: provider
  cn_environment :: environment
  cn_status :: string
  cn_version :: int

record link_row =
  lk_id :: int
  lk_tenant :: int
  lk_client :: int
  lk_connection :: int
  lk_status :: string
  lk_disablement :: string
  lk_credential_state :: string
  lk_version :: int
  lk_generation :: int

record provider_call =
  pc_id :: int
  pc_tenant :: int
  pc_client :: int
  pc_link :: int
  pc_operation :: string
  pc_revision :: string
  pc_class :: operation_class
  pc_provider :: provider
  pc_environment :: environment
  pc_request_key :: string
  pc_effect_key :: string
  pc_request_digest :: string
  pc_state :: call_state
  pc_version :: int
  pc_fence :: int
  pc_lease_owner :: "int option"
  pc_lease_until :: "int option"
  pc_epoch :: int
  pc_attempts :: int
  pc_next_attempt_at :: int
  pc_dispatch_started_at :: "int option"
  pc_finalized_at :: "int option"
  pc_connection_version :: int
  pc_link_version :: int
  pc_generation :: int
  pc_http_status :: "int option"
  pc_provider_code :: string
  pc_billing :: billing_class
  pc_billed :: billed
  pc_reserved :: int
  pc_settled :: "int option"
  pc_tariff :: string
  pc_response_digest :: string
  pc_tag :: "int option"
  pc_updated_at :: int

record call_attempt =
  at_call :: int
  at_tenant :: int
  at_client :: int
  at_attempt_id :: int
  at_number :: int
  at_fence :: int
  at_outcome :: call_state
  at_observation :: observation
  at_http_status :: "int option"
  at_provider_code :: string
  at_billed :: billed
  at_response_digest :: string
  at_reserved :: int
  at_settled :: "int option"
  at_occurred_at :: int

text \<open>A receipt's object key: tenant, year and month, call, attempt, and start or result.\<close>

type_synonym journal_path = "int \<times> int \<times> int \<times> int \<times> int \<times> bool"

record effect_barrier =
  eb_tenant :: int
  eb_client :: int
  eb_provider :: provider
  eb_effect_key :: string
  eb_request_digest :: string
  eb_receipt :: journal_path
  eb_call :: int

record budget_row =
  bd_id :: int
  bd_tenant :: int
  bd_provider :: provider
  bd_window :: date
  bd_cap :: int
  bd_known :: int
  bd_uncertain :: int
  bd_reserved :: int
  bd_tariff :: string
  bd_version :: int

record hold_row =
  hd_tenant :: int
  hd_client :: int
  hd_budget :: int
  hd_call :: int
  hd_attempt :: int
  hd_micro :: int
  hd_state :: hold_state
  hd_tariff :: string
  hd_version :: int

record usage_row =
  us_tenant :: int
  us_metric :: metric
  us_source :: "int \<times> string"
  us_period :: date
  us_quantity :: int
  us_kind :: usage_kind
  us_correction_of :: "(metric \<times> int \<times> string) option"

record engagement_row =
  en_id :: int
  en_client :: int
  en_starts_on :: date
  en_responsible :: "int option"

record membership_row =
  mb_tenant :: int
  mb_user :: int
  mb_client :: "int option"
  mb_active :: bool
  mb_is_owner :: bool
  mb_created_at :: int
  mb_id :: int

record issue_row =
  is_id :: int
  is_tenant :: int
  is_client :: int
  is_reason :: issue_reason
  is_service :: string
  is_link :: int
  is_state :: issue_state
  is_owner :: int
  is_review_on :: date
  is_evidence :: "int list"
  is_version :: int

record work_cycle =
  wc_id :: int
  wc_tenant :: int
  wc_client :: int
  wc_period_start :: date
  wc_state :: cycle_state
  wc_owner :: "int option"
  wc_engagement :: int
  wc_version :: int

record exception_row =
  ex_cycle :: int
  ex_reason :: issue_reason
  ex_subject :: int
  ex_owner :: int
  ex_review_on :: date
  ex_blocks :: bool
  ex_active :: bool

section \<open>The database\<close>

text \<open>The money: every firm's monthly budgets and the per-attempt exposures inside them.\<close>

record ledger =
  lg_tenants :: "int list"
  lg_budgets :: "budget_row list"
  lg_holds :: "hold_row list"

text \<open>The owned work a refusal or an uncertain call leaves for the firm's people.\<close>

record work =
  wk_engagements :: "engagement_row list"
  wk_memberships :: "membership_row list"
  wk_issues :: "issue_row list"
  wk_cycles :: "work_cycle list"
  wk_exceptions :: "exception_row list"
  wk_audit :: "(string \<times> int) list"
  wk_next :: int

record provider_db =
  db_tenants :: "ptenant list"
  db_connections :: "connection_row list"
  db_links :: "link_row list"
  db_calls :: "provider_call list"
  db_attempts :: "call_attempt list"
  db_barriers :: "effect_barrier list"
  db_usage :: "usage_row list"
  db_ledger :: ledger
  db_work :: work
  db_epoch :: int
  db_next :: int

text \<open>Readings of the clock: \<^verbatim>\<open>timezone.now()\<close> in seconds and \<^verbatim>\<open>timezone.localdate()\<close>.\<close>

record clock =
  ck_now :: int
  ck_today :: date

text \<open>The UTC date of an instant, by the division scheme of \<^verbatim>\<open>date.fromordinal\<close>.\<close>

definition ordinal_date :: "int \<Rightarrow> date" where
  "ordinal_date ordinal =
     (let n = ordinal - 1;
          n400 = n div 146097; r400 = n mod 146097;
          n100 = r400 div 36524; r100 = r400 mod 36524;
          n4 = r100 div 1461; r4 = r100 mod 1461;
          n1 = r4 div 365; d = r4 mod 365;
          y = n400 * 400 + 1 + n100 * 100 + n4 * 4 + n1
      in if n1 = 4 \<or> n100 = 4 then Date (y - 1) 12 31
         else let m = (d + 50) div 32;
                  preceding = days_before_month y m
              in if d < preceding then Date y (m - 1) (d - days_before_month y (m - 1) + 1)
                 else Date y m (d - preceding + 1))"

definition utc_date :: "int \<Rightarrow> date" where
  "utc_date now = ordinal_date (now div 86400 + 719163)"

definition this_month :: "int \<Rightarrow> date" where
  "this_month now = month_start (utc_date now)"

section \<open>call\_contracts.py\<close>

definition MAX_ATTEMPTS :: int where "MAX_ATTEMPTS = 3"

record call_request =
  rq_operation :: string
  rq_key :: string
  rq_digest :: string
  rq_effect_key :: string

text \<open>\<^verbatim>\<open>re.fullmatch("[a-f0-9]{64}", value)\<close> and the character classes of the symbolic codes.\<close>

definition hex_char :: "char \<Rightarrow> bool" where
  "hex_char c = (let k = (of_char c :: int) in (48 \<le> k \<and> k \<le> 57) \<or> (97 \<le> k \<and> k \<le> 102))"

definition word_char :: "char \<Rightarrow> bool" where
  "word_char c =
     (let k = (of_char c :: int) in
      (48 \<le> k \<and> k \<le> 57) \<or> (65 \<le> k \<and> k \<le> 90) \<or> (97 \<le> k \<and> k \<le> 122))"

definition code_char :: "char \<Rightarrow> bool" where
  "code_char c = (word_char c \<or> c \<in> set ''_.-'')"

definition revision_char :: "char \<Rightarrow> bool" where
  "revision_char c = (word_char c \<or> c \<in> set ''_.() -'')"

definition is_sha256 :: "string \<Rightarrow> bool" where
  "is_sha256 s = (length s = 64 \<and> list_all hex_char s)"

definition is_revision :: "string \<Rightarrow> bool" where
  "is_revision s = (1 \<le> length s \<and> length s \<le> 64 \<and> list_all revision_char s)"

definition mk_call_request :: "call_request \<Rightarrow> call_request res" where
  "mk_call_request r =
     (if is_sha256 (rq_key r) \<and> is_sha256 (rq_digest r) \<and> is_sha256 (rq_effect_key r)
      then Inr r else Inl ValueError)"

record call_result =
  rs_state :: call_state
  rs_http_status :: "int option"
  rs_provider_code :: string
  rs_billed :: billed
  rs_digest :: string
  rs_settled :: "int option"

definition result_states :: "call_state list" where
  "result_states = [SUCCESS, WAITING, RETRY, FAILED, DENIED, UNCERTAIN]"

definition result_ok :: "call_result \<Rightarrow> bool" where
  "result_ok r \<longleftrightarrow>
     rs_state r \<in> set result_states \<and>
     length (rs_provider_code r) \<le> 64 \<and> list_all code_char (rs_provider_code r) \<and>
     (case rs_http_status r of None \<Rightarrow> True | Some h \<Rightarrow> 100 \<le> h \<and> h \<le> 599) \<and>
     (rs_digest r = '''' \<or> is_sha256 (rs_digest r)) \<and>
     (case rs_settled r of None \<Rightarrow> True | Some m \<Rightarrow> 0 \<le> m)"

definition mk_call_result :: "call_result \<Rightarrow> call_result res" where
  "mk_call_result r = (if result_ok r then Inr r else Inl ValueError)"

record reservation =
  rv_micro :: int
  rv_tariff :: string

definition mk_reservation :: "int \<Rightarrow> string \<Rightarrow> reservation res" where
  "mk_reservation micro tariff =
     (if micro < 0 \<or> \<not> is_revision tariff then Inl (AdmissionDenied ''bloqueada_cota'')
      else Inr \<lparr>rv_micro = micro, rv_tariff = tariff\<rparr>)"

text \<open>
  The admission hooks.  They run under the protocol's locks and may write the ledger and the
  owned work; \<open>ph_budget\<close> is \<^verbatim>\<open>isinstance(policy, BudgetPolicy)\<close>.
\<close>

record admission_policy =
  ph_budget :: bool
  ph_authorize :: "clock \<Rightarrow> ledger \<Rightarrow> provider_call \<Rightarrow> bool res"
  ph_reserve :: "clock \<Rightarrow> link_row \<Rightarrow> provider_call \<Rightarrow> (ledger \<times> work, reservation) tx"
  ph_settle :: "provider_call \<Rightarrow> call_result \<Rightarrow> ledger \<Rightarrow> ledger res"

record operation =
  op_code :: string
  op_provider :: provider
  op_revision :: string
  op_class :: operation_class
  op_feature :: feature
  op_billing :: billing_class
  op_policy :: admission_policy

definition journaled :: "operation \<Rightarrow> bool" where
  "journaled op =
     (op_provider op = FOCUS \<or>
      \<not> (op_class op = Read_Op \<and> (op_billing op = NAO_FATURADA \<or> op_billing op = INCLUIDO_NO_PLANO)))"

record claim_ticket =
  tk_tenant :: int
  tk_client :: int
  tk_call :: int
  tk_fence :: int
  tk_owner :: int
  tk_epoch :: int

type_synonym registry_of_operations = "(string \<times> operation) list"

definition EXCLUDED_CALL_ROWS :: "string list" where
  "EXCLUDED_CALL_ROWS = [''SP-AUTH'', ''SP-TERMO'']"

definition ISSUE_SERVICE_LENGTH :: nat where "ISSUE_SERVICE_LENGTH = 16"

definition register_operation ::
  "operation \<Rightarrow> registry_of_operations \<Rightarrow> registry_of_operations res" where
  "register_operation op ops =
     (if op_code op \<in> set EXCLUDED_CALL_ROWS \<or> map_of ops (op_code op) \<noteq> None \<or>
         ISSUE_SERVICE_LENGTH < length (op_code op)
      then Inl ValueError else Inr ((op_code op, op) # ops))"

definition operation_for :: "registry_of_operations \<Rightarrow> string \<Rightarrow> operation res" where
  "operation_for ops code = the_row (map_of ops code) (AdmissionDenied ''sem_politica'')"

text \<open>The deployment settings the protocol reads.\<close>

datatype amount_text = Malformed | Not_Finite | Amount rat

record provider_settings =
  ps_providers_paused :: bool
  ps_paused :: "provider \<Rightarrow> bool"
  ps_environment :: "provider \<Rightarrow> environment"
  ps_real_data_approved :: bool
  ps_global_cap :: "provider \<Rightarrow> amount_text option"
  ps_unit_price :: "metric \<Rightarrow> amount_text option"
  ps_disabled_features :: "string list"

end
