(* ===== verification/Provider_Budget.thy ===== *)
theory Provider_Budget
  imports Provider_Model "HOL-Library.Product_Lexorder"
begin

text \<open>
  Provider spend: \<^verbatim>\<open>budget_pricing.py\<close>, \<^verbatim>\<open>budget.py\<close>, \<^verbatim>\<open>budget_settlement.py\<close> and
  \<^verbatim>\<open>budget_alerts.py\<close> under \<^verbatim>\<open>apps/integrations/\<close>, with the part of the cycle openers the alerts
  call.  The lemmas show that every budget's buckets are at all times the sums of its
  individual exposures, that a reservation is admitted only under both ceilings and that an
  observed outcome is final for its attempt.
\<close>

section \<open>budget\_pricing.py\<close>

definition MICRO_BRL :: rat where "MICRO_BRL = 1000000"
definition MAX_MICRO_BRL :: rat where "MAX_MICRO_BRL = 9223372036854775807"

definition FOCUS_PLAN :: string where "FOCUS_PLAN = ''focus-plan (PQ-FOCUS-4 pendente)''"

definition ZERO_TARIFF_REVISIONS :: "string list" where
  "ZERO_TARIFF_REVISIONS = [FOCUS_PLAN]"

definition BILLED_STATUSES :: "int list" where "BILLED_STATUSES = [200, 202, 403]"

definition microbrl :: "amount_text option \<Rightarrow> int res" where
  "microbrl v =
     (case v of
        None \<Rightarrow> Inl (BudgetDenied ''tarifa_ausente'')
      | Some Malformed \<Rightarrow> Inl (BudgetDenied ''tarifa_ausente'')
      | Some Not_Finite \<Rightarrow> Inl (BudgetDenied ''tarifa_invalida'')
      | Some (Amount x) \<Rightarrow>
          (let amount = x * MICRO_BRL in
           if amount < 0 \<or> amount \<noteq> of_int \<lfloor>amount\<rfloor> \<or> MAX_MICRO_BRL < amount
           then Inl (BudgetDenied ''tarifa_invalida'') else Inr \<lfloor>amount\<rfloor>))"

definition serpro_metric :: "provider \<Rightarrow> billing_class \<Rightarrow> metric option" where
  "serpro_metric p b =
     (if p = SERPRO \<and> b = CONSULTA then Some SERPRO_CONSULTA
      else if p = SERPRO \<and> b = EMISSAO then Some SERPRO_EMISSAO else None)"

definition price :: "provider_settings \<Rightarrow> provider_call \<Rightarrow> string \<Rightarrow> reservation res" where
  "price cfg call revision =
     (if pc_provider call = FOCUS \<and> pc_billing call = INCLUIDO_NO_PLANO then
        (if revision \<notin> set ZERO_TARIFF_REVISIONS then Inl (BudgetDenied ''tarifa_ausente'')
         else mk_reservation 0 revision)
      else if pc_billing call = NAO_FATURADA then mk_reservation 0 ''serpro-free-v1''
      else case serpro_metric (pc_provider call) (pc_billing call) of
             None \<Rightarrow> Inl (BudgetDenied ''tarifa_ausente'')
           | Some m \<Rightarrow> res_bind (microbrl (ps_unit_price cfg m)) (\<lambda>amount.
               mk_reservation amount revision))"

text \<open>\<open>classify\<close> reads the same fields off a call and off a journal record.\<close>

definition classify ::
  "provider \<Rightarrow> billing_class \<Rightarrow> int \<Rightarrow> call_result \<Rightarrow> call_result" where
  "classify p b reserved r =
     (if p = FOCUS \<or> b = NAO_FATURADA then r\<lparr>rs_billed := NAO, rs_settled := Some 0\<rparr>
      else case rs_http_status r of
             None \<Rightarrow> r\<lparr>rs_billed := DESCONHECIDO, rs_settled := None\<rparr>
           | Some h \<Rightarrow>
               (if h \<in> set BILLED_STATUSES
                then r\<lparr>rs_billed := SIM, rs_settled := Some reserved\<rparr>
                else r\<lparr>rs_billed := NAO, rs_settled := Some 0\<rparr>))"

definition classify_call :: "provider_call \<Rightarrow> call_result \<Rightarrow> call_result" where
  "classify_call call r = classify (pc_provider call) (pc_billing call) (pc_reserved call) r"

section \<open>The ceilings of budget.py\<close>

definition bd_total :: "budget_row \<Rightarrow> int" where
  "bd_total b = bd_known b + bd_uncertain b + bd_reserved b"

definition platform_total :: "ledger \<Rightarrow> provider \<Rightarrow> date \<Rightarrow> int" where
  "platform_total L p month =
     sum_list (map (\<lambda>tid. sum_list (map bd_total
       (filter (\<lambda>b. bd_tenant b = tid \<and> bd_provider b = p \<and> bd_window b = month) (lg_budgets L))))
       (lg_tenants L))"

definition check_cap ::
  "provider_settings \<Rightarrow> ledger \<Rightarrow> budget_row \<Rightarrow> int \<Rightarrow> bool \<Rightarrow> unit res" where
  "check_cap cfg L b extra focus_configuration =
     (if focus_configuration \<and> bd_provider b = FOCUS \<and> extra = 0 then Inr ()
      else if bd_cap b < bd_total b + extra then Inl (BudgetDenied ''cota_esgotada'')
      else if bd_provider b = FOCUS \<and> extra = 0 then Inr ()
      else case ps_global_cap cfg (bd_provider b) of
             None \<Rightarrow> Inl (BudgetDenied ''cota_ausente'')
           | Some raw \<Rightarrow>
               res_bind (microbrl (Some raw)) (\<lambda>cap.
                 require (platform_total L (bd_provider b) (bd_window b) + extra \<le> cap)
                   (BudgetDenied ''cota_esgotada'')))"

definition find_hold :: "ledger \<Rightarrow> int \<Rightarrow> int \<Rightarrow> hold_row option" where
  "find_hold L cid n = find (\<lambda>h. hd_call h = cid \<and> hd_attempt h = n) (lg_holds L)"

definition find_held :: "ledger \<Rightarrow> int \<Rightarrow> int \<Rightarrow> hold_row option" where
  "find_held L cid n =
     find (\<lambda>h. hd_call h = cid \<and> hd_attempt h = n \<and> hd_state h = HELD) (lg_holds L)"

definition find_budget :: "ledger \<Rightarrow> int \<Rightarrow> budget_row option" where
  "find_budget L bid = find (\<lambda>b. bd_id b = bid) (lg_budgets L)"

definition month_budget :: "ledger \<Rightarrow> int \<Rightarrow> provider \<Rightarrow> date \<Rightarrow> budget_row option" where
  "month_budget L tid p month =
     find (\<lambda>b. bd_tenant b = tid \<and> bd_provider b = p \<and> bd_window b = month) (lg_budgets L)"

text \<open>\<open>authority\<close> is the domain predicate the policy wraps.\<close>

definition budget_authorize ::
  "provider_settings \<Rightarrow> (provider_call \<Rightarrow> bool) \<Rightarrow> clock \<Rightarrow> ledger \<Rightarrow> provider_call \<Rightarrow> bool res" where
  "budget_authorize cfg authority ck L call =
     (if \<not> authority call then Inr False
      else if pc_state call = RESERVED \<or> pc_state call = CLAIMED then
        res_bind (the_row (find_held L (pc_id call) (pc_attempts call + 1))
                    (BudgetDenied ''reserva_ausente'')) (\<lambda>held.
        res_bind (the_row (find_budget L (hd_budget held)) DoesNotExist) (\<lambda>b.
        res_bind (require (bd_window b = this_month (ck_now ck))
                    (BudgetDenied ''reserva_vencida'')) (\<lambda>_.
        res_bind (check_cap cfg L b 0 (pc_class call = Configuration_Op)) (\<lambda>_.
          Inr True))))
      else Inr True)"

section \<open>budget\_alerts.py and the owner chain\<close>

text \<open>\<^verbatim>\<open>openers._fallback_owner\<close>, \<^verbatim>\<open>openers.owner_for\<close> and \<^verbatim>\<open>authority.client_owner\<close>.\<close>

definition fallback_owner :: "work \<Rightarrow> int \<Rightarrow> int option" where
  "fallback_owner w tid =
     (let members = sort_key (\<lambda>m. (mb_created_at m, mb_id m))
                      (filter (\<lambda>m. mb_tenant m = tid \<and> mb_client m = None \<and> mb_active m)
                         (wk_memberships w))
      in case find mb_is_owner members of
           Some m \<Rightarrow> Some (mb_user m)
         | None \<Rightarrow> (case members of [] \<Rightarrow> None | m # _ \<Rightarrow> Some (mb_user m)))"

definition client_owner :: "work \<Rightarrow> int \<Rightarrow> int \<Rightarrow> int option" where
  "client_owner w tid cid =
     (case sort_key (\<lambda>e. (en_starts_on e, en_id e))
             (filter (\<lambda>e. en_client e = cid \<and> en_responsible e \<noteq> None) (wk_engagements w)) of
        e # _ \<Rightarrow> en_responsible e
      | [] \<Rightarrow> fallback_owner w tid)"

definition owner_for :: "work \<Rightarrow> work_cycle \<Rightarrow> int option" where
  "owner_for w c =
     (case wc_owner c of
        Some u \<Rightarrow> Some u
      | None \<Rightarrow>
          (case find (\<lambda>e. en_id e = wc_engagement c) (wk_engagements w) of
             Some e \<Rightarrow> (case en_responsible e of Some u \<Rightarrow> Some u
                        | None \<Rightarrow> fallback_owner w (wc_tenant c))
           | None \<Rightarrow> fallback_owner w (wc_tenant c)))"

definition active_issue :: "issue_row \<Rightarrow> bool" where
  "active_issue i = (is_state i = ISSUE_OPEN \<or> is_state i = ISSUE_HANDLING)"

text \<open>One active issue per client, reason and operation, which lists every subject it absorbed.\<close>

definition own_issue ::
  "clock \<Rightarrow> int \<Rightarrow> int \<Rightarrow> int \<Rightarrow> issue_reason \<Rightarrow> int \<Rightarrow> string \<Rightarrow> work \<Rightarrow> work" where
  "own_issue ck tid cid lid reason subject service w =
     (case find (\<lambda>i. is_tenant i = tid \<and> is_client i = cid \<and> is_reason i = reason \<and>
                     is_service i = service \<and> active_issue i) (wk_issues w) of
        None \<Rightarrow>
          (case client_owner w tid cid of
             None \<Rightarrow> w
           | Some owner \<Rightarrow>
               w\<lparr>wk_issues := wk_issues w @
                   [\<lparr>is_id = wk_next w, is_tenant = tid, is_client = cid,
                     is_reason = reason, is_service = service, is_link = lid,
                     is_state = ISSUE_OPEN, is_owner = owner, is_review_on = ck_today ck,
                     is_evidence = [subject], is_version = 1\<rparr>],
                 wk_audit := wk_audit w @ [(''integrations.issue_opened'', wk_next w)],
                 wk_next := wk_next w + 1\<rparr>)
      | Some i \<Rightarrow>
          if subject \<in> set (is_evidence i) then w
          else w\<lparr>wk_issues := row_put is_id
                   (i\<lparr>is_evidence := is_evidence i @ [subject], is_version := is_version i + 1\<rparr>)
                   (wk_issues w)\<rparr>)"

text \<open>\<^verbatim>\<open>open_exception\<close> as the trusted opener calls it, without an actor and at the read version.\<close>

definition blocks_completion :: "issue_reason \<Rightarrow> bool" where
  "blocks_completion r = (r \<noteq> QUOTA_NEAR)"

definition open_exception ::
  "issue_reason \<Rightarrow> int \<Rightarrow> work_cycle \<Rightarrow> int \<Rightarrow> date \<Rightarrow> work \<Rightarrow> work res" where
  "open_exception reason subject c owner review_on w =
     (if list_ex (\<lambda>e. ex_cycle e = wc_id c \<and> ex_reason e = reason \<and> ex_subject e = subject \<and>
                      ex_active e) (wk_exceptions w)
      then Inr w
      else if \<not> list_ex (\<lambda>m. mb_tenant m = wc_tenant c \<and> mb_user m = owner \<and> mb_client m = None)
                 (wk_memberships w)
      then Inl (ValidationError ''owner'')
      else Inr (w\<lparr>wk_exceptions := wk_exceptions w @
                    [\<lparr>ex_cycle = wc_id c, ex_reason = reason, ex_subject = subject,
                      ex_owner = owner, ex_review_on = review_on,
                      ex_blocks = blocks_completion reason, ex_active = True\<rparr>],
                  wk_cycles := row_put wc_id (c\<lparr>wc_version := wc_version c + 1\<rparr>) (wk_cycles w),
                  wk_audit := wk_audit w @ [(''exception.opened'', wc_id c)]\<rparr>))"

definition open_work_cycle :: "link_row \<Rightarrow> date \<Rightarrow> work_cycle \<Rightarrow> bool" where
  "open_work_cycle link month c =
     (wc_client c = lk_client link \<and> wc_period_start c = month \<and>
      wc_state c \<notin> {CY_COMPLETED, CY_WITH_PENDING, CY_CANCELLED})"

fun open_in_cycles ::
  "clock \<Rightarrow> issue_reason \<Rightarrow> int \<Rightarrow> work_cycle list \<Rightarrow> work \<Rightarrow> work res" where
  "open_in_cycles ck reason subject [] w = Inr w"
| "open_in_cycles ck reason subject (c # cs) w =
     (case owner_for w c of
        None \<Rightarrow> open_in_cycles ck reason subject cs w
      | Some u \<Rightarrow>
          if list_ex (\<lambda>e. ex_cycle e = wc_id c \<and> ex_reason e = reason \<and> ex_subject e = subject)
               (wk_exceptions w)
          then open_in_cycles ck reason subject cs w
          else res_bind (open_exception reason subject c u (ck_today ck) w)
                 (open_in_cycles ck reason subject cs))"

definition open_issue ::
  "clock \<Rightarrow> link_row \<Rightarrow> issue_reason \<Rightarrow> int \<Rightarrow> string \<Rightarrow> work \<Rightarrow> work res" where
  "open_issue ck link reason subject service w =
     (let w' = own_issue ck (lk_tenant link) (lk_client link) (lk_id link) reason subject service w in
      open_in_cycles ck reason subject
        (filter (open_work_cycle link (this_month (ck_now ck))) (wk_cycles w')) w')"

definition refused :: "clock \<Rightarrow> link_row \<Rightarrow> provider_call \<Rightarrow> work \<Rightarrow> work res" where
  "refused ck link call w = open_issue ck link QUOTA_EXHAUSTED (pc_id call) (pc_operation call) w"

section \<open>Reserving\<close>

definition budget_reserve ::
  "provider_settings \<Rightarrow> clock \<Rightarrow> link_row \<Rightarrow> provider_call \<Rightarrow> (ledger \<times> work, reservation) tx" where
  "budget_reserve cfg ck link call = (\<lambda>(L, w).
     res_bind (the_row (month_budget L (pc_tenant call) (pc_provider call) (this_month (ck_now ck)))
                 (BudgetDenied ''cota_ausente'')) (\<lambda>b.
     res_bind (price cfg call (bd_tariff b)) (\<lambda>quoted.
     res_bind (check_cap cfg L b (rv_micro quoted) (pc_class call = Configuration_Op)) (\<lambda>_.
     res_bind (require (find_hold L (pc_id call) (pc_attempts call + 1) = None) IntegrityError) (\<lambda>_.
     (let held = \<lparr>hd_tenant = pc_tenant call, hd_client = pc_client call, hd_budget = bd_id b,
                  hd_call = pc_id call, hd_attempt = pc_attempts call + 1,
                  hd_micro = rv_micro quoted, hd_state = HELD, hd_tariff = rv_tariff quoted,
                  hd_version = 1\<rparr>;
          b' = b\<lparr>bd_reserved := bd_reserved b + rv_micro quoted, bd_version := bd_version b + 1\<rparr>;
          L' = L\<lparr>lg_holds := lg_holds L @ [held], lg_budgets := row_put bd_id b' (lg_budgets L)\<rparr>
      in res_bind (if bd_cap b' \<le> bd_total b'
                   then open_issue ck link QUOTA_EXHAUSTED (bd_id b) (pc_operation call) w
                   else if bd_cap b' * 4 \<le> bd_total b' * 5
                   then open_issue ck link QUOTA_NEAR (bd_id b) (pc_operation call) w
                   else Inr w) (\<lambda>w'. Inr (quoted, (L', w')))))))))"

section \<open>budget\_settlement.py\<close>

definition hold_key :: "hold_row \<Rightarrow> int \<times> int" where
  "hold_key h = (hd_call h, hd_attempt h)"

definition bucket_add :: "hold_state \<Rightarrow> int \<Rightarrow> budget_row \<Rightarrow> budget_row" where
  "bucket_add st m b =
     (case st of
        HELD \<Rightarrow> b\<lparr>bd_reserved := bd_reserved b + m\<rparr>
      | KNOWN \<Rightarrow> b\<lparr>bd_known := bd_known b + m\<rparr>
      | UNSURE \<Rightarrow> b\<lparr>bd_uncertain := bd_uncertain b + m\<rparr>
      | RELEASED \<Rightarrow> b)"

definition move_hold :: "hold_row \<Rightarrow> hold_state \<Rightarrow> ledger \<Rightarrow> ledger res" where
  "move_hold held target L =
     res_bind (the_row (find_budget L (hd_budget held)) DoesNotExist) (\<lambda>b.
       if hd_state held = target then Inr L
       else
         let b' = bucket_add target (hd_micro held) (bucket_add (hd_state held) (- hd_micro held) b);
             b'' = b'\<lparr>bd_version := bd_version b' + 1\<rparr>;
             held' = held\<lparr>hd_state := target, hd_version := hd_version held + 1\<rparr>
         in Inr (L\<lparr>lg_budgets := row_put bd_id b'' (lg_budgets L),
                   lg_holds := row_put hold_key held' (lg_holds L)\<rparr>))"

definition settled_state :: "hold_state \<Rightarrow> bool" where
  "settled_state st = (st = KNOWN \<or> st = RELEASED)"

fun target_of :: "billed \<Rightarrow> hold_state" where
  "target_of SIM = KNOWN"
| "target_of NAO = RELEASED"
| "target_of DESCONHECIDO = UNSURE"

text \<open>Rebuilding a journaled attempt's exposure when the database does not have it.\<close>

definition rebuild_hold :: "provider_call \<Rightarrow> ledger \<Rightarrow> (hold_row \<times> ledger) res" where
  "rebuild_hold call L =
     res_bind (the_row (pc_dispatch_started_at call) (BudgetDenied ''reserva_ausente'')) (\<lambda>t.
     res_bind (the_row (month_budget L (pc_tenant call) (pc_provider call) (this_month t))
                 (BudgetDenied ''cota_ausente'')) (\<lambda>b.
     (let held = \<lparr>hd_tenant = pc_tenant call, hd_client = pc_client call, hd_budget = bd_id b,
                  hd_call = pc_id call, hd_attempt = pc_attempts call,
                  hd_micro = pc_reserved call, hd_state = RELEASED, hd_tariff = pc_tariff call,
                  hd_version = 1\<rparr>
      in Inr (held, L\<lparr>lg_holds := lg_holds L @ [held]\<rparr>))))"

definition budget_settle :: "provider_call \<Rightarrow> call_result \<Rightarrow> ledger \<Rightarrow> ledger res" where
  "budget_settle call result L =
     (let target = target_of (rs_billed (classify_call call result)) in
      case find_hold L (pc_id call) (pc_attempts call) of
        None \<Rightarrow> res_bind (rebuild_hold call L) (\<lambda>(held, L'). move_hold held target L')
      | Some held \<Rightarrow> if settled_state (hd_state held) then Inr L else move_hold held target L)"

definition release :: "provider_call \<Rightarrow> ledger \<Rightarrow> ledger res" where
  "release call L =
     (case find_held L (pc_id call) (pc_attempts call + 1) of
        None \<Rightarrow> Inr L
      | Some held \<Rightarrow> move_hold held RELEASED L)"

definition billing_result ::
  "registry_of_operations \<Rightarrow> string \<Rightarrow> provider \<Rightarrow> billing_class \<Rightarrow> int \<Rightarrow> call_result \<Rightarrow> call_result res" where
  "billing_result ops code p b reserved r =
     res_bind (operation_for ops code) (\<lambda>op.
       Inr (if ph_budget (op_policy op) then classify p b reserved r else r))"

definition lease_lost :: call_result where
  "lease_lost =
     \<lparr>rs_state = UNCERTAIN, rs_http_status = None, rs_provider_code = ''lease_lost'',
      rs_billed = DESCONHECIDO, rs_digest = '''', rs_settled = None\<rparr>"

definition quarantine ::
  "registry_of_operations \<Rightarrow> provider_call \<Rightarrow> ledger \<Rightarrow> ledger res" where
  "quarantine ops call L =
     res_bind (operation_for ops (pc_operation call)) (\<lambda>op.
       if \<not> ph_budget (op_policy op) then Inr L
       else if pc_dispatch_started_at call = None then release call L
       else budget_settle call lease_lost L)"

text \<open>The production policy: the domain predicate under the monthly ceilings.\<close>

definition budget_policy ::
  "provider_settings \<Rightarrow> (provider_call \<Rightarrow> bool) \<Rightarrow> admission_policy" where
  "budget_policy cfg authority =
     \<lparr>ph_budget = True,
      ph_authorize = budget_authorize cfg authority,
      ph_reserve = budget_reserve cfg,
      ph_settle = budget_settle\<rparr>"

section \<open>The ledger invariant\<close>

definition exposure :: "int \<Rightarrow> hold_state \<Rightarrow> hold_row \<Rightarrow> int" where
  "exposure bid st h = (if hd_budget h = bid \<and> hd_state h = st then hd_micro h else 0)"

definition held_sum :: "hold_row list \<Rightarrow> int \<Rightarrow> hold_state \<Rightarrow> int" where
  "held_sum holds bid st = sum_list (map (exposure bid st) holds)"

definition buckets_ok :: "hold_row list \<Rightarrow> budget_row \<Rightarrow> bool" where
  "buckets_ok holds b \<longleftrightarrow>
     bd_reserved b = held_sum holds (bd_id b) HELD \<and>
     bd_known b = held_sum holds (bd_id b) KNOWN \<and>
     bd_uncertain b = held_sum holds (bd_id b) UNSURE"

definition ledger_ok :: "ledger \<Rightarrow> bool" where
  "ledger_ok L \<longleftrightarrow>
     distinct (map bd_id (lg_budgets L)) \<and> distinct (map hold_key (lg_holds L)) \<and>
     (\<forall>h\<in>set (lg_holds L). 0 \<le> hd_micro h \<and> hd_budget h \<in> bd_id ` set (lg_budgets L)) \<and>
     (\<forall>b\<in>set (lg_budgets L). buckets_ok (lg_holds L) b)"

lemma find_budget_Some:
  "find_budget L bid = Some b \<Longrightarrow> b \<in> set (lg_budgets L) \<and> bd_id b = bid"
  unfolding find_budget_def by (drule find_Some_iff_first) simp

lemma month_budget_Some:
  "month_budget L tid p m = Some b \<Longrightarrow>
     b \<in> set (lg_budgets L) \<and> bd_tenant b = tid \<and> bd_provider b = p \<and> bd_window b = m"
  unfolding month_budget_def by (drule find_Some_iff_first) simp

lemma find_hold_Some:
  "find_hold L c n = Some h \<Longrightarrow> h \<in> set (lg_holds L) \<and> hd_call h = c \<and> hd_attempt h = n"
  unfolding find_hold_def by (drule find_Some_iff_first) simp

lemma find_hold_row: "find_hold L c n = row_get hold_key (c, n) (lg_holds L)"
  by (simp add: find_hold_def row_get_def hold_key_def)

lemma find_hold_None: "find_hold L c n = None \<longleftrightarrow> (c, n) \<notin> hold_key ` set (lg_holds L)"
  by (auto simp: find_hold_def find_None_iff hold_key_def)

lemma find_held_Some:
  "find_held L c n = Some h \<Longrightarrow>
     h \<in> set (lg_holds L) \<and> hd_call h = c \<and> hd_attempt h = n \<and> hd_state h = HELD"
  unfolding find_held_def by (drule find_Some_iff_first) simp

lemma held_sum_append [simp]:
  "held_sum (holds @ [h]) bid st = held_sum holds bid st + exposure bid st h"
  by (simp add: held_sum_def)

lemma held_sum_put:
  assumes "distinct (map hold_key holds)" "h \<in> set holds" "hold_key h' = hold_key h"
  shows "held_sum (row_put hold_key h' holds) bid st =
    held_sum holds bid st - exposure bid st h + exposure bid st h'"
  unfolding held_sum_def by (rule sum_list_row_put[OF assms])

lemma bucket_add_fields [simp]:
  "bd_id (bucket_add st m b) = bd_id b" "bd_cap (bucket_add st m b) = bd_cap b"
  "bd_tenant (bucket_add st m b) = bd_tenant b" "bd_provider (bucket_add st m b) = bd_provider b"
  "bd_window (bucket_add st m b) = bd_window b"
  by (simp_all add: bucket_add_def split: hold_state.splits)

lemma ledger_ok_budget:
  assumes "ledger_ok L" "b \<in> set (lg_budgets L)"
  shows "find_budget L (bd_id b) = Some b"
  using assms row_get_unique[of bd_id "lg_budgets L" b]
  by (simp add: ledger_ok_def find_budget_def row_get_def)

lemma ledger_ok_put:
  assumes "ledger_ok L" "b \<in> set (lg_budgets L)" "bd_id b' = bd_id b"
    "distinct (map hold_key holds)"
    "\<And>h. h \<in> set holds \<Longrightarrow> 0 \<le> hd_micro h \<and> hd_budget h \<in> bd_id ` set (lg_budgets L)"
    "buckets_ok holds b'"
    "\<And>bid st. bid \<noteq> bd_id b \<Longrightarrow> held_sum holds bid st = held_sum (lg_holds L) bid st"
  shows "ledger_ok (L\<lparr>lg_budgets := row_put bd_id b' (lg_budgets L), lg_holds := holds\<rparr>)"
proof -
  have ids: "bd_id ` set (row_put bd_id b' (lg_budgets L)) = bd_id ` set (lg_budgets L)"
    by (metis row_put_keys set_map)
  have "buckets_ok holds x" if "x \<in> set (row_put bd_id b' (lg_budgets L))" for x
  proof (cases "bd_id x = bd_id b")
    case True
    with that assms(3) have "x = b'" by (auto simp: row_put_def)
    with assms(6) show ?thesis by simp
  next
    case False
    with that assms(3) have "x \<in> set (lg_budgets L)" by (auto simp: row_put_def split: if_splits)
    then have "buckets_ok (lg_holds L) x" using assms(1) by (simp add: ledger_ok_def)
    with False assms(7) show ?thesis by (simp add: buckets_ok_def)
  qed
  then show ?thesis using assms(1,4,5) ids by (simp add: ledger_ok_def)
qed

lemma move_hold_ok:
  assumes "ledger_ok L" "held \<in> set (lg_holds L)" "move_hold held target L = Inr L'"
  shows "ledger_ok L'"
proof (cases "hd_state held = target")
  case True
  with assms show ?thesis by (auto simp: move_hold_def res_bind_eq_Inr)
next
  case False
  define held' where "held' = held\<lparr>hd_state := target, hd_version := hd_version held + 1\<rparr>"
  obtain b where b: "find_budget L (hd_budget held) = Some b"
    and L': "L' = L\<lparr>lg_budgets := row_put bd_id
        ((bucket_add target (hd_micro held) (bucket_add (hd_state held) (- hd_micro held) b))
           \<lparr>bd_version := bd_version (bucket_add target (hd_micro held)
               (bucket_add (hd_state held) (- hd_micro held) b)) + 1\<rparr>) (lg_budgets L),
      lg_holds := row_put hold_key held' (lg_holds L)\<rparr>"
    using assms(3) False by (auto simp: move_hold_def res_bind_eq_Inr Let_def held'_def)
  have bb: "b \<in> set (lg_budgets L)" "bd_id b = hd_budget held" using find_budget_Some[OF b] by auto
  have key: "hold_key held' = hold_key held" by (simp add: held'_def hold_key_def)
  have keys: "distinct (map hold_key (lg_holds L))" using assms(1) by (simp add: ledger_ok_def)
  note sums = held_sum_put[OF keys assms(2) key]
  have old: "buckets_ok (lg_holds L) b" using assms(1) bb(1) by (simp add: ledger_ok_def)
  show ?thesis
    unfolding L'
  proof (rule ledger_ok_put[OF assms(1) bb(1)])
    show "distinct (map hold_key (row_put hold_key held' (lg_holds L)))" using keys by simp
    show "0 \<le> hd_micro h \<and> hd_budget h \<in> bd_id ` set (lg_budgets L)"
      if "h \<in> set (row_put hold_key held' (lg_holds L))" for h
      using that assms(1,2) set_row_put[of hold_key held' "lg_holds L"]
      by (auto simp: ledger_ok_def held'_def)
    show "held_sum (row_put hold_key held' (lg_holds L)) bid st = held_sum (lg_holds L) bid st"
      if "bid \<noteq> bd_id b" for bid st
      using that bb(2) unfolding sums by (simp add: exposure_def held'_def)
  qed (use old bb(2) False in
      \<open>cases "hd_state held"; cases target;
        simp add: buckets_ok_def sums; simp add: exposure_def held'_def bucket_add_def\<close>)+
qed

lemma budget_reserve_ok:
  assumes "ledger_ok L" "budget_reserve cfg ck link call (L, w) = Inr (quoted, (L', w'))"
  shows "ledger_ok L'"
proof -
  obtain b where b: "month_budget L (pc_tenant call) (pc_provider call) (this_month (ck_now ck)) = Some b"
    and quoted: "price cfg call (bd_tariff b) = Inr quoted"
    and new: "find_hold L (pc_id call) (pc_attempts call + 1) = None"
    and L': "L' = L\<lparr>lg_budgets := row_put bd_id
        (b\<lparr>bd_reserved := bd_reserved b + rv_micro quoted, bd_version := bd_version b + 1\<rparr>)
        (lg_budgets L),
      lg_holds := lg_holds L @
        [\<lparr>hd_tenant = pc_tenant call, hd_client = pc_client call, hd_budget = bd_id b,
          hd_call = pc_id call, hd_attempt = pc_attempts call + 1, hd_micro = rv_micro quoted,
          hd_state = HELD, hd_tariff = rv_tariff quoted, hd_version = 1\<rparr>]\<rparr>"
    using assms(2) by (auto simp: budget_reserve_def res_bind_eq_Inr Let_def)
  have bb: "b \<in> set (lg_budgets L)" using month_budget_Some[OF b] by blast
  have pos: "0 \<le> rv_micro quoted"
    using quoted by (auto simp: price_def mk_reservation_def res_bind_eq_Inr split: if_splits option.splits)
  show ?thesis
    unfolding L'
    by (rule ledger_ok_put[OF assms(1) bb])
      (use assms(1) bb new pos in
        \<open>auto simp: ledger_ok_def find_hold_None hold_key_def buckets_ok_def exposure_def\<close>)
qed

lemma ledger_ok_add_hold:
  assumes "ledger_ok L" "hold_key h \<notin> hold_key ` set (lg_holds L)" "0 \<le> hd_micro h"
    "hd_budget h \<in> bd_id ` set (lg_budgets L)" "hd_state h = RELEASED"
  shows "ledger_ok (L\<lparr>lg_holds := lg_holds L @ [h]\<rparr>)"
  using assms by (auto simp: ledger_ok_def buckets_ok_def exposure_def)

lemma rebuild_hold_ok:
  assumes "ledger_ok L" "find_hold L (pc_id call) (pc_attempts call) = None" "0 \<le> pc_reserved call"
    "rebuild_hold call L = Inr (held, L')"
  shows "ledger_ok L'" "held \<in> set (lg_holds L')"
  using assms
  by (auto simp: rebuild_hold_def res_bind_eq_Inr Let_def find_hold_None hold_key_def
      dest!: month_budget_Some intro!: ledger_ok_add_hold)

lemma budget_settle_ok:
  assumes "ledger_ok L" "0 \<le> pc_reserved call" "budget_settle call result L = Inr L'"
  shows "ledger_ok L'"
proof (cases "find_hold L (pc_id call) (pc_attempts call)")
  case None
  then obtain held L1 where "rebuild_hold call L = Inr (held, L1)"
    "move_hold held (target_of (rs_billed (classify_call call result))) L1 = Inr L'"
    using assms(3) by (auto simp: budget_settle_def Let_def res_bind_eq_Inr)
  then show ?thesis using rebuild_hold_ok[OF assms(1) None assms(2)] move_hold_ok by blast
next
  case (Some held)
  then show ?thesis
    using assms find_hold_Some[OF Some] move_hold_ok
    by (auto simp: budget_settle_def Let_def split: if_splits)
qed

lemma release_ok:
  assumes "ledger_ok L" "release call L = Inr L'"
  shows "ledger_ok L'"
  using assms move_hold_ok by (auto simp: release_def dest: find_held_Some split: option.splits)

lemma quarantine_ok:
  assumes "ledger_ok L" "0 \<le> pc_reserved call" "quarantine ops call L = Inr L'"
  shows "ledger_ok L'"
  using assms(1,3) release_ok[OF assms(1), of call] budget_settle_ok[OF assms(1,2), of lease_lost]
  by (auto simp: quarantine_def res_bind_eq_Inr simp del: require_eq_Inr split: if_splits)

section \<open>Totals\<close>

text \<open>What a budget's buckets hold is what its live exposures sum to.\<close>

definition live_exposure :: "int \<Rightarrow> hold_row \<Rightarrow> int" where
  "live_exposure bid h = (if hd_budget h = bid \<and> hd_state h \<noteq> RELEASED then hd_micro h else 0)"

lemma bd_total_exposure:
  assumes "ledger_ok L" "b \<in> set (lg_budgets L)"
  shows "bd_total b = sum_list (map (live_exposure (bd_id b)) (lg_holds L))"
proof -
  have "sum_list (map (live_exposure bid) hs) =
      held_sum hs bid KNOWN + held_sum hs bid UNSURE + held_sum hs bid HELD" for bid hs
  proof (induction hs)
    case Nil
    then show ?case by (simp add: held_sum_def)
  next
    case (Cons h hs)
    then show ?case
      by (cases "hd_state h") (simp_all add: held_sum_def live_exposure_def exposure_def)
  qed
  then show ?thesis using assms by (simp add: ledger_ok_def buckets_ok_def bd_total_def)
qed

lemma platform_total_sum:
  assumes "distinct (lg_tenants L)"
  shows "platform_total L p m =
    sum_list (map (\<lambda>b. if bd_tenant b \<in> set (lg_tenants L) \<and> bd_provider b = p \<and> bd_window b = m
      then bd_total b else 0) (lg_budgets L))"
proof -
  have one: "sum_list (map (\<lambda>tid. if bd_tenant b = tid \<and> Q then x else 0) ts) =
      (if bd_tenant b \<in> set ts \<and> Q then x else (0::int))" if "distinct ts" for ts and b :: budget_row and Q x
    using that by (induction ts) auto
  have filt: "sum_list (map bd_total (filter Q bs)) = sum_list (map (\<lambda>b. if Q b then bd_total b else 0) bs)"
    for Q and bs :: "budget_row list"
    by (induction bs) auto
  have "sum_list (map (\<lambda>tid. sum_list (map (\<lambda>b. if bd_tenant b = tid \<and> bd_provider b = p \<and> bd_window b = m
        then bd_total b else 0) bs)) ts) =
      sum_list (map (\<lambda>b. if bd_tenant b \<in> set ts \<and> bd_provider b = p \<and> bd_window b = m
        then bd_total b else 0) bs)" if ts: "distinct ts" for bs ts
  proof (induction bs)
    case Nil
    then show ?case by (simp add: sum_list_0)
  next
    case (Cons b bs)
    then show ?case
      using one[OF ts, of b "bd_provider b = p \<and> bd_window b = m" "bd_total b"]
      by (simp add: sum_list_addf)
  qed
  then show ?thesis using assms by (simp add: platform_total_def filt)
qed

lemma platform_total_put:
  assumes "distinct (lg_tenants L)" "distinct (map bd_id (lg_budgets L))" "b \<in> set (lg_budgets L)"
    "bd_id b' = bd_id b" "bd_tenant b' = bd_tenant b" "bd_provider b' = bd_provider b"
    "bd_window b' = bd_window b" "lg_tenants L' = lg_tenants L"
    "lg_budgets L' = row_put bd_id b' (lg_budgets L)"
  shows "platform_total L' (bd_provider b) (bd_window b) =
    platform_total L (bd_provider b) (bd_window b) +
    (if bd_tenant b \<in> set (lg_tenants L) then bd_total b' - bd_total b else 0)"
  using assms
  by (simp add: platform_total_sum sum_list_row_put[OF assms(2,3,4)])

section \<open>An attempt's money moves once\<close>

lemma find_hold_put:
  assumes "find_hold L c n = Some h" "hold_key h' = hold_key h"
  shows "find_hold (L\<lparr>lg_budgets := bs, lg_holds := row_put hold_key h' (lg_holds L)\<rparr>) c n = Some h'"
proof -
  have "hold_key h' = (c, n)" "(c, n) \<in> hold_key ` set (lg_holds L)"
    using assms(2) find_hold_Some[OF assms(1)] find_hold_None[of L c n] assms(1)
    by (simp add: hold_key_def, metis option.distinct(1))
  then show ?thesis by (simp add: find_hold_row row_get_row_put)
qed

lemma move_hold_state:
  assumes "find_hold L c n = Some held" "move_hold held target L = Inr L'"
  shows "\<exists>h. find_hold L' c n = Some h \<and> hd_state h = target \<and> hd_micro h = hd_micro held \<and>
    hd_budget h = hd_budget held"
proof (cases "hd_state held = target")
  case True
  with assms show ?thesis by (auto simp: move_hold_def res_bind_eq_Inr)
next
  case False
  define held' where "held' = held\<lparr>hd_state := target, hd_version := hd_version held + 1\<rparr>"
  have "hold_key held' = hold_key held" by (simp add: held'_def hold_key_def)
  then show ?thesis
    using assms False find_hold_put[OF assms(1), of held']
    by (auto simp: move_hold_def res_bind_eq_Inr Let_def held'_def)
qed

lemma rebuild_hold_find:
  assumes "find_hold L (pc_id call) (pc_attempts call) = None" "rebuild_hold call L = Inr (held, L')"
  shows "find_hold L' (pc_id call) (pc_attempts call) = Some held"
  using assms
  by (auto simp: rebuild_hold_def res_bind_eq_Inr Let_def find_hold_row row_get_append hold_key_def
      simp del: row_get_None)

lemma settle_state:
  assumes "budget_settle call result L = Inr L'"
    "find_hold L (pc_id call) (pc_attempts call) = None \<or>
     (\<exists>h. find_hold L (pc_id call) (pc_attempts call) = Some h \<and> \<not> settled_state (hd_state h))"
  shows "\<exists>h. find_hold L' (pc_id call) (pc_attempts call) = Some h \<and>
    hd_state h = target_of (rs_billed (classify_call call result))"
proof (cases "find_hold L (pc_id call) (pc_attempts call)")
  case None
  then obtain held L1 where "rebuild_hold call L = Inr (held, L1)"
    "move_hold held (target_of (rs_billed (classify_call call result))) L1 = Inr L'"
    using assms(1) by (auto simp: budget_settle_def Let_def res_bind_eq_Inr)
  then show ?thesis using move_hold_state rebuild_hold_find[OF None] by blast
next
  case (Some held)
  then have "move_hold held (target_of (rs_billed (classify_call call result))) L = Inr L'"
    using assms by (auto simp: budget_settle_def Let_def)
  then show ?thesis using move_hold_state[OF Some] by blast
qed

text \<open>An observed billed or unbilled outcome is final: nothing settles the attempt again.\<close>

lemma settle_settled:
  assumes "find_hold L (pc_id call) (pc_attempts call) = Some h" "settled_state (hd_state h)"
  shows "budget_settle call result L = Inr L"
  using assms by (simp add: budget_settle_def Let_def)

lemma release_settled:
  assumes "find_hold L (pc_id call) (pc_attempts call + 1) = Some h" "hd_state h \<noteq> HELD"
    "distinct (map hold_key (lg_holds L))"
  shows "release call L = Inr L"
proof -
  have "x = h" if "x \<in> set (lg_holds L)" "hd_call x = pc_id call" "hd_attempt x = pc_attempts call + 1" for x
  proof -
    have "hold_key x = hold_key h" "h \<in> set (lg_holds L)"
      using that find_hold_Some[OF assms(1)] by (simp_all add: hold_key_def)
    with that(1) assms(3) show ?thesis by (simp add: distinct_map inj_on_def)
  qed
  then have "find_held L (pc_id call) (pc_attempts call + 1) = None"
    using assms(2) by (auto simp: find_held_def find_None_iff)
  then show ?thesis by (simp add: release_def)
qed

section \<open>Admission under the ceilings\<close>

lemma find_row_put:
  assumes "find P rows = Some r" "key r' = key r" "P r'" "distinct (map key rows)"
  shows "find P (row_put key r' rows) = Some r'"
  using assms
proof (induction rows)
  case Nil
  then show ?case by simp
next
  case (Cons x xs)
  show ?case
  proof (cases "P x")
    case True
    with Cons.prems show ?thesis by simp
  next
    case False
    with Cons.prems have "find P xs = Some r" by simp
    then have "r \<in> set xs" using find_Some_iff_first by metis
    then have "key x \<noteq> key r'" using Cons.prems by auto
    with False Cons show ?thesis by simp
  qed
qed

lemma check_cap_Inr:
  assumes "check_cap cfg L b extra fc = Inr ()" "\<not> (bd_provider b = FOCUS \<and> extra = 0)"
  shows "bd_total b + extra \<le> bd_cap b"
    and "\<exists>raw cap. ps_global_cap cfg (bd_provider b) = Some raw \<and> microbrl (Some raw) = Inr cap \<and>
      platform_total L (bd_provider b) (bd_window b) + extra \<le> cap"
  using assms by (auto simp: check_cap_def res_bind_eq_Inr split: if_splits option.splits)

lemma budget_reserve_caps:
  assumes "ledger_ok L" "distinct (lg_tenants L)"
    "budget_reserve cfg ck link call (L, w) = Inr (quoted, (L', w'))"
    "\<not> (pc_provider call = FOCUS \<and> rv_micro quoted = 0)"
  shows "\<exists>b raw cap. month_budget L' (pc_tenant call) (pc_provider call) (this_month (ck_now ck)) = Some b \<and>
    bd_total b \<le> bd_cap b \<and>
    ps_global_cap cfg (pc_provider call) = Some raw \<and> microbrl (Some raw) = Inr cap \<and>
    platform_total L' (pc_provider call) (this_month (ck_now ck)) \<le> cap"
proof -
  obtain b where b: "month_budget L (pc_tenant call) (pc_provider call) (this_month (ck_now ck)) = Some b"
    and quoted: "price cfg call (bd_tariff b) = Inr quoted"
    and cap: "check_cap cfg L b (rv_micro quoted) (pc_class call = Configuration_Op) = Inr ()"
    and L': "lg_tenants L' = lg_tenants L"
      "lg_budgets L' = row_put bd_id (b\<lparr>bd_reserved := bd_reserved b + rv_micro quoted,
         bd_version := bd_version b + 1\<rparr>) (lg_budgets L)"
    using assms(3) by (auto simp: budget_reserve_def res_bind_eq_Inr Let_def)
  define b' where "b' = b\<lparr>bd_reserved := bd_reserved b + rv_micro quoted, bd_version := bd_version b + 1\<rparr>"
  have bb: "b \<in> set (lg_budgets L)" "bd_tenant b = pc_tenant call" "bd_provider b = pc_provider call"
    "bd_window b = this_month (ck_now ck)"
    using month_budget_Some[OF b] by simp_all
  have ids: "distinct (map bd_id (lg_budgets L))" using assms(1) by (simp add: ledger_ok_def)
  have found: "month_budget L' (pc_tenant call) (pc_provider call) (this_month (ck_now ck)) = Some b'"
    unfolding month_budget_def L'(2) b'_def [symmetric]
    by (rule find_row_put[OF b[unfolded month_budget_def] _ _ ids]) (simp_all add: b'_def bb)
  have nonfree: "\<not> (bd_provider b = FOCUS \<and> rv_micro quoted = 0)" using assms(4) bb by simp
  obtain raw c where global: "ps_global_cap cfg (pc_provider call) = Some raw" "microbrl (Some raw) = Inr c"
    "platform_total L (pc_provider call) (this_month (ck_now ck)) + rv_micro quoted \<le> c"
    using check_cap_Inr(2)[OF cap nonfree] bb by auto
  have "0 \<le> rv_micro quoted"
    using quoted by (auto simp: price_def mk_reservation_def res_bind_eq_Inr split: if_splits option.splits)
  then have "platform_total L' (pc_provider call) (this_month (ck_now ck)) \<le>
      platform_total L (pc_provider call) (this_month (ck_now ck)) + rv_micro quoted"
    using platform_total_put[OF assms(2) ids bb(1), of b' L'] L' bb
    by (simp add: b'_def bd_total_def split: if_splits)
  then have "platform_total L' (pc_provider call) (this_month (ck_now ck)) \<le> c"
    using global(3) by linarith
  moreover have "bd_total b' \<le> bd_cap b'"
    using check_cap_Inr(1)[OF cap nonfree] by (simp add: b'_def bd_total_def)
  ultimately show ?thesis using found global(1,2) by blast
qed

end
