(* ===== verification/Provider_Calls.thy ===== *)
theory Provider_Calls
  imports Provider_Budget
begin

text \<open>
  The phased provider protocol of \<^verbatim>\<open>apps/integrations/\<close>: \<^verbatim>\<open>call_state.py\<close>,
  \<^verbatim>\<open>call_observations.py\<close>, \<^verbatim>\<open>call_reservation.py\<close>, \<^verbatim>\<open>call_dispatch.py\<close>,
  \<^verbatim>\<open>call_finalization.py\<close> and \<^verbatim>\<open>call_protocol.py\<close>, with the receipts of \<^verbatim>\<open>journal_schema.py\<close>.
  Every operation is one committed transaction over the database; the row locks it takes make
  the transactions of one call sequential, which is how the safety theory composes them.
\<close>

section \<open>call\_state.py\<close>

definition lock_controls ::
  "provider_db \<Rightarrow> int \<Rightarrow> int \<Rightarrow> (ptenant \<times> link_row \<times> connection_row) res" where
  "lock_controls s tid lid =
     res_bind (the_row (find (\<lambda>t. tn_id t = tid) (db_tenants s)) DoesNotExist) (\<lambda>tenant.
     res_bind (the_row (find (\<lambda>l. lk_id l = lid \<and> lk_tenant l = tid) (db_links s)) DoesNotExist) (\<lambda>link.
     res_bind (the_row (find (\<lambda>c. cn_id c = lk_connection link \<and> cn_tenant c = tid)
                          (db_connections s)) DoesNotExist) (\<lambda>conn.
       Inr (tenant, link, conn))))"

text \<open>
  \<^verbatim>\<open>tenant_row_has(tenant, operation.feature)\<close>: both slugs an operation can name are in the flag
  registry, so the question always has an answer.
\<close>

definition operation_enabled :: "provider_settings \<Rightarrow> ptenant \<Rightarrow> operation \<Rightarrow> bool" where
  "operation_enabled cfg tenant op =
     (tenant_row_has (ps_disabled_features cfg) (tn_features tenant) (feature_slug (op_feature op)) =
        Inr True)"

lemma operation_flag_known: "feature_slug f \<in> set FEATURES"
  by (cases f) (simp_all add: FEATURES_def)

lemma operation_flag_answers:
  "tenant_row_has disabled features (feature_slug f) =
     Inr (effective_flag disabled (feature_slug f) features)"
  using operation_flag_known[of f] by (simp add: tenant_row_has_def)

definition admit ::
  "provider_settings \<Rightarrow> clock \<Rightarrow> ledger \<Rightarrow> provider_call \<Rightarrow> ptenant \<Rightarrow> link_row \<Rightarrow>
   connection_row \<Rightarrow> operation \<Rightarrow> unit res" where
  "admit cfg ck L call tenant link conn op =
     (if ps_providers_paused cfg \<or> ps_paused cfg (pc_provider call) \<or> \<not> tn_active tenant \<or>
         \<not> operation_enabled cfg tenant op \<or>
         cn_status conn \<noteq> ''ativa'' \<or> lk_status link \<noteq> ''ativa'' \<or> lk_disablement link \<noteq> ''ativa'' \<or>
         pc_environment call \<noteq> ps_environment cfg (pc_provider call) \<or>
         (pc_environment call = PRODUCAO \<and> \<not> ps_real_data_approved cfg)
      then Inl (AdmissionDenied ''pausada'')
      else if cn_provider conn \<noteq> op_provider op \<or> pc_revision call \<noteq> op_revision op \<or>
         pc_connection_version call \<noteq> cn_version conn \<or> pc_link_version call \<noteq> lk_version link \<or>
         pc_generation call \<noteq> lk_generation link \<or>
         (op_feature op = DOCUMENT_CAPTURE \<and>
          lk_credential_state link \<noteq> ''ativa'' \<and> lk_credential_state link \<noteq> ''vencendo'')
      then Inl (AdmissionDenied ''bloqueada_autoridade'')
      else res_bind (ph_authorize (op_policy op) ck L call) (\<lambda>ok.
        require ok (AdmissionDenied ''bloqueada_autoridade'')))"

definition save_call :: "provider_call \<Rightarrow> provider_db \<Rightarrow> provider_db" where
  "save_call call s = s\<lparr>db_calls := row_put pc_id call (db_calls s)\<rparr>"

definition uncertain ::
  "registry_of_operations \<Rightarrow> clock \<Rightarrow> provider_call \<Rightarrow> provider_db \<Rightarrow> provider_db res" where
  "uncertain ops ck call s =
     res_bind (quarantine ops call (db_ledger s)) (\<lambda>L.
     (let call' = call\<lparr>pc_state := UNCERTAIN, pc_version := pc_version call + 1,
                       pc_updated_at := ck_now ck\<rparr>
      in Inr ((save_call call' s)
           \<lparr>db_ledger := L,
            db_work := own_issue ck (pc_tenant call) (pc_client call) (pc_link call) UNCERTAIN_CALL
                         (pc_id call) (pc_operation call) (db_work s)\<rparr>)))"

section \<open>call\_observations.py\<close>

definition same_observation :: "call_attempt \<Rightarrow> call_attempt \<Rightarrow> bool" where
  "same_observation a b =
     (at_outcome a = at_outcome b \<and> at_http_status a = at_http_status b \<and>
      at_provider_code a = at_provider_code b \<and> at_billed a = at_billed b \<and>
      at_response_digest a = at_response_digest b \<and> at_fence a = at_fence b)"

definition find_attempt :: "provider_db \<Rightarrow> int \<Rightarrow> int \<Rightarrow> observation \<Rightarrow> call_attempt option" where
  "find_attempt s cid aid obs =
     find (\<lambda>a. at_call a = cid \<and> at_attempt_id a = aid \<and> at_observation a = obs) (db_attempts s)"

text \<open>The row an unsaved \<^verbatim>\<open>ProviderCallAttempt\<close> and a result become.\<close>

definition attempt_row ::
  "provider_call \<Rightarrow> int \<Rightarrow> int \<Rightarrow> int \<Rightarrow> observation \<Rightarrow> int \<Rightarrow> int \<Rightarrow> call_result \<Rightarrow> call_attempt" where
  "attempt_row call aid num fence obs reserved occurred r =
     \<lparr>at_call = pc_id call, at_tenant = pc_tenant call, at_client = pc_client call,
      at_attempt_id = aid, at_number = num, at_fence = fence, at_outcome = rs_state r,
      at_observation = obs, at_http_status = rs_http_status r,
      at_provider_code = rs_provider_code r, at_billed = rs_billed r,
      at_response_digest = rs_digest r, at_reserved = reserved, at_settled = rs_settled r,
      at_occurred_at = occurred\<rparr>"

definition observe :: "call_attempt \<Rightarrow> (provider_db, bool) tx" where
  "observe row s =
     (case find_attempt s (at_call row) (at_attempt_id row) (at_observation row) of
        None \<Rightarrow> Inr (True, s\<lparr>db_attempts := db_attempts s @ [row]\<rparr>)
      | Some a \<Rightarrow> if same_observation a row then Inr (False, s) else Inl IntentConflict)"

text \<open>\<^verbatim>\<open>uuid5\<close> names an event after another one; a plain event has the empty name.\<close>

definition uuid5 :: "int \<times> string \<Rightarrow> string \<Rightarrow> int \<times> string" where
  "uuid5 base name = (fst base, snd base @ ''/'' @ name)"

definition provider_attempt_name :: "int \<Rightarrow> string" where
  "provider_attempt_name n = ''provider-attempt:'' @ str_int n"

definition metric_of :: "provider_call \<Rightarrow> metric option" where
  "metric_of call =
     (case serpro_metric (pc_provider call) (pc_billing call) of
        Some m \<Rightarrow> Some m
      | None \<Rightarrow> (if pc_provider call = FOCUS \<and> pc_class call = Registration_Op
                then Some FOCUS_EVENTOS else None))"

definition find_usage :: "provider_db \<Rightarrow> int \<Rightarrow> metric \<Rightarrow> int \<times> string \<Rightarrow> usage_row option" where
  "find_usage s tid m src =
     find (\<lambda>u. us_tenant u = tid \<and> us_metric u = m \<and> us_source u = src) (db_usage s)"

definition meter ::
  "registry_of_operations \<Rightarrow> provider_call \<Rightarrow> int \<Rightarrow> call_result \<Rightarrow> int \<Rightarrow> provider_db \<Rightarrow>
   provider_db res" where
  "meter ops call aid r occurred s =
     (case metric_of call of
        None \<Rightarrow> Inr s
      | Some m \<Rightarrow>
          res_bind (operation_for ops (pc_operation call)) (\<lambda>op.
          (let source = (if ph_budget (op_policy op)
                         then (if pc_attempts call = 1 then (pc_id call, '''')
                               else uuid5 (pc_id call, '''')
                                      (provider_attempt_name (pc_attempts call)))
                         else (aid, ''''));
               existing = find_usage s (pc_tenant call) m source;
               focus_event = (m = FOCUS_EVENTOS);
               quantity = (if rs_billed r \<noteq> NAO \<or> focus_event then 1 else 0);
               kind = (if rs_billed r = DESCONHECIDO \<or> focus_event then ESTIMATED else CONFIRMED);
               row = \<lparr>us_tenant = pc_tenant call, us_metric = m, us_source = source,
                      us_period = utc_date occurred, us_quantity = quantity, us_kind = kind,
                      us_correction_of = None\<rparr>
           in case existing of
                None \<Rightarrow>
                  (if rs_billed r = NAO \<and> \<not> focus_event then Inr s
                   else Inr (s\<lparr>db_usage := db_usage s @ [row]\<rparr>))
              | Some u \<Rightarrow>
                  (if us_kind u = ESTIMATED \<and> kind = CONFIRMED then
                     (case find_usage s (pc_tenant call) m (uuid5 source ''provider-result'') of
                        Some _ \<Rightarrow> Inr s
                      | None \<Rightarrow> Inr (s\<lparr>db_usage := db_usage s @
                          [row\<lparr>us_source := uuid5 source ''provider-result'',
                               us_correction_of := Some (m, source)\<rparr>]\<rparr>))
                   else Inr s))))"

section \<open>journal\_schema.py: the receipt\<close>

record journal_record =
  jr_tenant :: int
  jr_client :: int
  jr_link :: int
  jr_call :: int
  jr_attempt_id :: int
  jr_attempt_number :: int
  jr_fence :: int
  jr_epoch :: int
  jr_operation :: string
  jr_revision :: string
  jr_class :: operation_class
  jr_provider :: provider
  jr_environment :: environment
  jr_request_key :: string
  jr_request_digest :: string
  jr_effect_key :: string
  jr_billing :: billing_class
  jr_reserved :: int
  jr_tariff :: string
  jr_occurred_at :: int
  jr_result :: "call_result option"

definition journal_started :: "provider_call \<Rightarrow> claim_ticket \<Rightarrow> journal_record res" where
  "journal_started call t =
     res_bind (the_row (pc_dispatch_started_at call) JournalError) (\<lambda>started.
       Inr \<lparr>jr_tenant = tk_tenant t, jr_client = tk_client t, jr_link = pc_link call,
            jr_call = tk_call t, jr_attempt_id = tk_owner t, jr_attempt_number = pc_attempts call,
            jr_fence = tk_fence t, jr_epoch = tk_epoch t, jr_operation = pc_operation call,
            jr_revision = pc_revision call, jr_class = pc_class call,
            jr_provider = pc_provider call, jr_environment = pc_environment call,
            jr_request_key = pc_request_key call, jr_request_digest = pc_request_digest call,
            jr_effect_key = pc_effect_key call, jr_billing = pc_billing call,
            jr_reserved = pc_reserved call, jr_tariff = pc_tariff call, jr_occurred_at = started,
            jr_result = None\<rparr>)"

definition journal_path_of :: "journal_record \<Rightarrow> journal_path" where
  "journal_path_of r =
     (let d = utc_date (jr_occurred_at r) in
      (jr_tenant r, d_year d, d_month d, jr_call r, jr_attempt_id r, jr_result r \<noteq> None))"

text \<open>What \<open>decode\<close> demands of a record of this type before \<open>append\<close> stores it.\<close>

definition journal_valid :: "journal_record \<Rightarrow> bool" where
  "journal_valid r \<longleftrightarrow>
     0 \<le> jr_reserved r \<and> 1 \<le> jr_attempt_number r \<and> 1 \<le> jr_fence r \<and> 1 \<le> jr_epoch r \<and>
     is_sha256 (jr_request_key r) \<and> is_sha256 (jr_request_digest r) \<and> is_sha256 (jr_effect_key r) \<and>
     is_revision (jr_operation r) \<and> is_revision (jr_revision r) \<and> is_revision (jr_tariff r) \<and>
     (case jr_result r of None \<Rightarrow> True | Some x \<Rightarrow> result_ok x)"

type_synonym journal = "(journal_path \<times> journal_record) list"

text \<open>\<open>stored\<close> says whether the object store accepted the write.\<close>

definition journal_append :: "bool \<Rightarrow> journal_record \<Rightarrow> journal \<Rightarrow> journal res" where
  "journal_append stored r J =
     (if \<not> journal_valid r then Inl JournalError
      else case map_of J (journal_path_of r) of
             Some old \<Rightarrow> (if old = r then Inr J else Inl JournalError)
           | None \<Rightarrow> (if stored then Inr (J @ [(journal_path_of r, r)]) else Inl JournalError))"

section \<open>call\_reservation.py\<close>

definition new_call ::
  "provider_db \<Rightarrow> clock \<Rightarrow> int \<Rightarrow> link_row \<Rightarrow> connection_row \<Rightarrow> operation \<Rightarrow> call_request \<Rightarrow>
   provider_call" where
  "new_call s ck tid link conn op rq =
     \<lparr>pc_id = db_next s, pc_tenant = tid, pc_client = lk_client link, pc_link = lk_id link,
      pc_operation = op_code op, pc_revision = op_revision op, pc_class = op_class op,
      pc_provider = cn_provider conn, pc_environment = cn_environment conn,
      pc_request_key = rq_key rq, pc_effect_key = rq_effect_key rq,
      pc_request_digest = rq_digest rq, pc_state = QUEUED, pc_version = 1, pc_fence = 0,
      pc_lease_owner = None, pc_lease_until = None, pc_epoch = 1, pc_attempts = 0,
      pc_next_attempt_at = ck_now ck, pc_dispatch_started_at = None, pc_finalized_at = None,
      pc_connection_version = cn_version conn, pc_link_version = lk_version link,
      pc_generation = lk_generation link, pc_http_status = None, pc_provider_code = '''',
      pc_billing = op_billing op, pc_billed = DESCONHECIDO, pc_reserved = 0, pc_settled = None,
      pc_tariff = '''', pc_response_digest = '''', pc_tag = None, pc_updated_at = ck_now ck\<rparr>"

definition same_intent :: "provider_call \<Rightarrow> link_row \<Rightarrow> operation \<Rightarrow> call_request \<Rightarrow> bool" where
  "same_intent c link op rq =
     (pc_request_digest c = rq_digest rq \<and> pc_effect_key c = rq_effect_key rq \<and>
      pc_link c = lk_id link \<and> pc_operation c = op_code op \<and> pc_revision c = op_revision op)"

text \<open>
  The transaction of \<open>reserve\<close>: the call, and the budget refusal the caller raises once the
  refused row has been committed.
\<close>

definition reserve_tx ::
  "provider_settings \<Rightarrow> registry_of_operations \<Rightarrow> clock \<Rightarrow> int \<Rightarrow> int \<Rightarrow> call_request \<Rightarrow>
   (provider_db, provider_call \<times> exn option) tx" where
  "reserve_tx cfg ops ck tid lid rq s =
     res_bind (operation_for ops (rq_operation rq)) (\<lambda>op.
     res_bind (lock_controls s tid lid) (\<lambda>(tenant, link, conn).
     (case find (\<lambda>c. pc_tenant c = tid \<and> pc_client c = lk_client link \<and>
                     pc_request_key c = rq_key rq) (db_calls s) of
        Some existing \<Rightarrow>
          (if same_intent existing link op rq then Inr ((existing, None), s)
           else Inl IntentConflict)
      | None \<Rightarrow>
          (let call = new_call s ck tid link conn op rq in
           res_bind (admit cfg ck (db_ledger s) call tenant link conn op) (\<lambda>_.
           (let s1 = s\<lparr>db_calls := db_calls s @ [call], db_next := db_next s + 1\<rparr> in
            if \<not> journaled op then
              (let call' = call\<lparr>pc_state := RESERVED\<rparr> in Inr ((call', None), save_call call' s1))
            else
              case ph_reserve (op_policy op) ck link call (db_ledger s1, db_work s1) of
                Inr (rv, (L, w)) \<Rightarrow>
                  (let call' = call\<lparr>pc_reserved := rv_micro rv, pc_tariff := rv_tariff rv,
                                    pc_state := RESERVED\<rparr>
                   in Inr ((call', None), (save_call call' s1)\<lparr>db_ledger := L, db_work := w\<rparr>))
              | Inl (BudgetDenied reason) \<Rightarrow>
                  (let call' = call\<lparr>pc_state := QUOTA, pc_provider_code := reason\<rparr> in
                   res_bind (refused ck link call' (db_work s1)) (\<lambda>w.
                     Inr ((call', Some (BudgetDenied reason)),
                          (save_call call' s1)\<lparr>db_work := w\<rparr>)))
              | Inl e \<Rightarrow> Inl e))))))"

definition reserve ::
  "provider_settings \<Rightarrow> registry_of_operations \<Rightarrow> clock \<Rightarrow> int \<Rightarrow> int \<Rightarrow> call_request \<Rightarrow>
   provider_db \<Rightarrow> provider_call res \<times> provider_db" where
  "reserve cfg ops ck tid lid rq s =
     (case reserve_tx cfg ops ck tid lid rq s of
        Inl e \<Rightarrow> (Inl e, s)
      | Inr ((call, None), s') \<Rightarrow> (Inr call, s')
      | Inr ((call, Some denial), s') \<Rightarrow> (Inl denial, s'))"

definition LEASE_SECONDS :: int where "LEASE_SECONDS = 120"

definition quota_refusal ::
  "clock \<Rightarrow> link_row \<Rightarrow> string \<Rightarrow> provider_call \<Rightarrow> provider_db \<Rightarrow> (provider_call \<times> provider_db) res" where
  "quota_refusal ck link reason call s =
     res_bind (release call (db_ledger s)) (\<lambda>L.
     (let call' = call\<lparr>pc_state := QUOTA, pc_provider_code := reason,
                       pc_version := pc_version call + 1\<rparr>
      in res_bind (refused ck link call' (db_work s)) (\<lambda>w.
           Inr (call', (save_call call' s)\<lparr>db_ledger := L, db_work := w\<rparr>))))"

definition granted :: "provider_db \<Rightarrow> clock \<Rightarrow> provider_call \<Rightarrow> provider_call" where
  "granted s ck call =
     call\<lparr>pc_fence := pc_fence call + 1, pc_lease_owner := Some (db_next s),
          pc_lease_until := Some (ck_now ck + LEASE_SECONDS), pc_epoch := db_epoch s,
          pc_state := CLAIMED, pc_dispatch_started_at := None, pc_finalized_at := None,
          pc_version := pc_version call + 1\<rparr>"

definition claim ::
  "provider_settings \<Rightarrow> registry_of_operations \<Rightarrow> clock \<Rightarrow> int \<Rightarrow> int \<Rightarrow>
   (provider_db, claim_ticket option) tx" where
  "claim cfg ops ck tid cid s =
     res_bind (the_row (find (\<lambda>c. pc_id c = cid \<and> pc_tenant c = tid) (db_calls s)) DoesNotExist) (\<lambda>call.
     res_bind (lock_controls s tid (pc_link call)) (\<lambda>(tenant, link, conn).
       if pc_state call = CLAIMED \<or> pc_state call = STARTED then
         (case pc_lease_until call of
            None \<Rightarrow> Inr (None, s)
          | Some t \<Rightarrow>
              if t \<le> ck_now ck then res_bind (uncertain ops ck call s) (\<lambda>s'. Inr (None, s'))
              else Inr (None, s))
       else if (pc_state call \<noteq> RESERVED \<and> pc_state call \<noteq> RETRY) \<or>
               ck_now ck < pc_next_attempt_at call \<or> MAX_ATTEMPTS \<le> pc_attempts call
       then Inr (None, s)
       else
         res_bind (operation_for ops (pc_operation call)) (\<lambda>op.
           let priced =
             res_bind (admit cfg ck (db_ledger s) call tenant link conn op) (\<lambda>_.
               if pc_state call = RETRY \<and> journaled op then
                 res_bind (ph_reserve (op_policy op) ck link call (db_ledger s, db_work s))
                   (\<lambda>(rv, (L, w)). Inr (call\<lparr>pc_reserved := rv_micro rv, pc_tariff := rv_tariff rv\<rparr>,
                                       s\<lparr>db_ledger := L, db_work := w\<rparr>))
               else Inr (call, s))
           in case priced of
                Inl (BudgetDenied reason) \<Rightarrow>
                  res_bind (quota_refusal ck link reason call s) (\<lambda>(_, s'). Inr (None, s'))
              | Inl e \<Rightarrow> Inl e
              | Inr (call1, s1) \<Rightarrow>
                  (let call' = granted s1 ck call1 in
                   Inr (Some \<lparr>tk_tenant = tid, tk_client = pc_client call', tk_call = pc_id call',
                              tk_fence = pc_fence call', tk_owner = db_next s1,
                              tk_epoch = pc_epoch call'\<rparr>,
                        (save_call call' s1)\<lparr>db_next := db_next s1 + 1\<rparr>)))))"

section \<open>call\_dispatch.py\<close>

record dispatch =
  dp_claim :: claim_ticket
  dp_receipt :: journal_record
  dp_journaled :: bool

datatype prepared = Prepared dispatch | Refused exn

text \<open>
  \<open>_prepare\<close> reads the clock at its first lease check, again after the admission locks and
  once more for the start instant: \<open>ck\<close>, \<open>t2\<close> and \<open>t3\<close>.
\<close>

definition ticket_current :: "provider_db \<Rightarrow> provider_call \<Rightarrow> claim_ticket \<Rightarrow> bool" where
  "ticket_current s call t =
     (pc_fence call = tk_fence t \<and> pc_lease_owner call = Some (tk_owner t) \<and>
      pc_epoch call = tk_epoch t \<and> db_epoch s = tk_epoch t)"

definition find_barrier :: "provider_db \<Rightarrow> int \<Rightarrow> int \<Rightarrow> provider \<Rightarrow> string \<Rightarrow> effect_barrier option" where
  "find_barrier s tid cid p key =
     find (\<lambda>b. eb_tenant b = tid \<and> eb_client b = cid \<and> eb_provider b = p \<and> eb_effect_key b = key)
       (db_barriers s)"

definition effectful :: "operation_class \<Rightarrow> bool" where
  "effectful c = (c \<noteq> Read_Op)"

definition refuse_dispatch ::
  "registry_of_operations \<Rightarrow> clock \<Rightarrow> link_row \<Rightarrow> exn \<Rightarrow> provider_call \<Rightarrow> provider_db \<Rightarrow>
   provider_db res" where
  "refuse_dispatch ops ck link e call s =
     res_bind (release call (db_ledger s)) (\<lambda>L.
     (case e of
        BudgetDenied reason \<Rightarrow>
          (let call' = call\<lparr>pc_state := QUOTA, pc_provider_code := reason,
                            pc_version := pc_version call + 1\<rparr>
           in res_bind (refused ck link call' (db_work s)) (\<lambda>w.
                Inr ((save_call call' s)\<lparr>db_ledger := L, db_work := w\<rparr>)))
      | _ \<Rightarrow>
          (let call' = call\<lparr>pc_state := (if e = AdmissionDenied ''pausada'' then PAUSED else AUTHORITY),
                            pc_version := pc_version call + 1\<rparr>
           in Inr ((save_call call' s)\<lparr>db_ledger := L\<rparr>))))"

definition admission_denied :: "exn \<Rightarrow> bool" where
  "admission_denied e =
     ((\<exists>r. e = AdmissionDenied r) \<or> (\<exists>r. e = BudgetDenied r))"

lemma admission_denied_code [code]:
  "admission_denied e = (case e of AdmissionDenied _ \<Rightarrow> True | BudgetDenied _ \<Rightarrow> True | _ \<Rightarrow> False)"
  by (cases e) (auto simp: admission_denied_def)

definition started_call :: "claim_ticket \<Rightarrow> int \<Rightarrow> provider_call \<Rightarrow> provider_call" where
  "started_call t at3 call =
     call\<lparr>pc_attempts := pc_attempts call + 1, pc_dispatch_started_at := Some at3,
          pc_tag := Some (tk_owner t)\<rparr>"

definition prepare ::
  "provider_settings \<Rightarrow> registry_of_operations \<Rightarrow> clock \<Rightarrow> int \<Rightarrow> int \<Rightarrow> claim_ticket \<Rightarrow>
   (provider_db, prepared) tx" where
  "prepare cfg ops ck t2 t3 t s =
     res_bind (the_row (find (\<lambda>c. pc_id c = tk_call t \<and> pc_client c = tk_client t \<and>
                                  pc_tenant c = tk_tenant t) (db_calls s)) DoesNotExist) (\<lambda>call.
     res_bind (lock_controls s (tk_tenant t) (pc_link call)) (\<lambda>(tenant, link, conn).
       if \<not> ticket_current s call t \<or> pc_state call \<noteq> CLAIMED \<or>
          pc_dispatch_started_at call \<noteq> None
       then Inr (Refused StaleClaim, s)
       else
         res_bind (operation_for ops (pc_operation call)) (\<lambda>op.
           case pc_lease_until call of
             None \<Rightarrow> res_bind (uncertain ops ck call s) (\<lambda>s'. Inr (Refused StaleClaim, s'))
           | Some lease \<Rightarrow>
               if lease \<le> ck_now ck
               then res_bind (uncertain ops ck call s) (\<lambda>s'. Inr (Refused StaleClaim, s'))
               else
                 (case admit cfg ck (db_ledger s) call tenant link conn op of
                    Inl e \<Rightarrow>
                      if admission_denied e
                      then res_bind (refuse_dispatch ops ck link e call s) (\<lambda>s'.
                             Inr (Refused e, s'))
                      else Inl e
                  | Inr _ \<Rightarrow>
                      if lease \<le> t2
                      then res_bind (uncertain ops ck call s) (\<lambda>s'. Inr (Refused StaleClaim, s'))
                      else
                        let call1 = started_call t t3 call;
                            call2 = call1\<lparr>pc_state := STARTED, pc_version := pc_version call1 + 1\<rparr>
                        in res_bind (journal_started call1 t) (\<lambda>receipt.
                             let go = (Prepared \<lparr>dp_claim = t, dp_receipt = receipt,
                                                dp_journaled = journaled op\<rparr>)
                             in if \<not> effectful (op_class op) then Inr (go, save_call call2 s)
                                else case find_barrier s (tk_tenant t) (tk_client t)
                                            (pc_provider call1) (pc_effect_key call1) of
                                       None \<Rightarrow>
                                         Inr (go, (save_call call2 s)
                                           \<lparr>db_barriers := db_barriers s @
                                              [\<lparr>eb_tenant = tk_tenant t, eb_client = tk_client t,
                                                eb_provider = pc_provider call1,
                                                eb_effect_key = pc_effect_key call1,
                                                eb_request_digest = pc_request_digest call1,
                                                eb_receipt = journal_path_of receipt,
                                                eb_call = pc_id call1\<rparr>]\<rparr>)
                                     | Some b \<Rightarrow>
                                         if eb_request_digest b \<noteq> pc_request_digest call1
                                         then Inl IntentConflict
                                         else res_bind (uncertain ops ck call1 s) (\<lambda>s'.
                                                Inr (Refused StaleClaim, s')))))))"

record world =
  w_db :: provider_db
  w_journal :: journal

definition begin_io ::
  "provider_settings \<Rightarrow> registry_of_operations \<Rightarrow> clock \<Rightarrow> int \<Rightarrow> int \<Rightarrow> bool \<Rightarrow> claim_ticket \<Rightarrow>
   world \<Rightarrow> dispatch res \<times> world" where
  "begin_io cfg ops ck t2 t3 stored t W =
     (case prepare cfg ops ck t2 t3 t (w_db W) of
        Inl e \<Rightarrow> (Inl e, W)
      | Inr (Refused e, s) \<Rightarrow> (Inl e, W\<lparr>w_db := s\<rparr>)
      | Inr (Prepared d, s) \<Rightarrow>
          (if dp_journaled d
           then case journal_append stored (dp_receipt d) (w_journal W) of
                  Inl e \<Rightarrow> (Inl e, W\<lparr>w_db := s\<rparr>)
                | Inr J \<Rightarrow> (Inr d, W\<lparr>w_db := s, w_journal := J\<rparr>)
           else (Inr d, W\<lparr>w_db := s\<rparr>)))"

definition receipt_billing ::
  "registry_of_operations \<Rightarrow> journal_record \<Rightarrow> call_result \<Rightarrow> call_result res" where
  "receipt_billing ops r result =
     billing_result ops (jr_operation r) (jr_provider r) (jr_billing r) (jr_reserved r) result"

definition record_result ::
  "registry_of_operations \<Rightarrow> bool \<Rightarrow> dispatch \<Rightarrow> call_result \<Rightarrow> journal \<Rightarrow> journal res" where
  "record_result ops stored d result J =
     (if dp_journaled d
      then res_bind (receipt_billing ops (dp_receipt d) result) (\<lambda>r.
             journal_append stored ((dp_receipt d)\<lparr>jr_result := Some r\<rparr>) J)
      else Inr J)"

text \<open>The wire: the adapter's reply, or a transport error of any kind.\<close>

datatype wire = Replied call_result | Connection_Lost

fun transmit :: "wire \<Rightarrow> call_result" where
  "transmit (Replied r) = r"
| "transmit Connection_Lost =
     \<lparr>rs_state = UNCERTAIN, rs_http_status = None, rs_provider_code = ''connection_lost'',
      rs_billed = DESCONHECIDO, rs_digest = '''', rs_settled = None\<rparr>"

section \<open>call\_finalization.py\<close>

text \<open>\<open>(60, 300)[attempts - 1]\<close> with Python's negative indices.\<close>

definition retry_delay :: "int \<Rightarrow> int res" where
  "retry_delay attempts =
     (let i = attempts - 1 in
      if i = 0 \<or> i = - 2 then Inr 60 else if i = 1 \<or> i = - 1 then Inr 300 else Inl IndexError)"

definition has_result :: "provider_db \<Rightarrow> provider_call \<Rightarrow> int \<Rightarrow> bool" where
  "has_result s call aid = (find_attempt s (pc_id call) aid OBS_RESULT \<noteq> None)"

definition transmitted_without_result :: "provider_db \<Rightarrow> provider_call \<Rightarrow> claim_ticket \<Rightarrow> bool" where
  "transmitted_without_result s call t =
     ((pc_tag call = Some (tk_owner t) \<or>
       list_ex (\<lambda>a. at_call a = pc_id call \<and> at_attempt_id a = tk_owner t \<and>
                    at_observation a \<noteq> OBS_LATE) (db_attempts s)) \<and>
      \<not> has_result s call (tk_owner t))"

definition late_row :: "clock \<Rightarrow> provider_call \<Rightarrow> claim_ticket \<Rightarrow> observation \<Rightarrow> call_result \<Rightarrow> call_attempt" where
  "late_row ck call t obs r =
     attempt_row call (tk_owner t) (pc_attempts call) (tk_fence t) obs (pc_reserved call)
       (case pc_dispatch_started_at call of None \<Rightarrow> ck_now ck | Some d \<Rightarrow> d) r"

text \<open>A reply that cannot finalize: kept as a late observation and metered.\<close>

definition keep_late ::
  "registry_of_operations \<Rightarrow> clock \<Rightarrow> provider_call \<Rightarrow> claim_ticket \<Rightarrow> call_result \<Rightarrow> provider_db \<Rightarrow>
   provider_db res" where
  "keep_late ops ck call t r s =
     (let row = late_row ck call t OBS_LATE r in
      res_bind (observe row s) (\<lambda>(_, s1).
        meter ops call (tk_owner t) r (at_occurred_at row) s1))"

definition record_superseded ::
  "registry_of_operations \<Rightarrow> clock \<Rightarrow> provider_call \<Rightarrow> claim_ticket \<Rightarrow> call_result \<Rightarrow> provider_db \<Rightarrow>
   provider_db res" where
  "record_superseded ops ck call t r s =
     (let row = late_row ck call t OBS_LATE r in
      res_bind (observe row s) (\<lambda>(_, s1).
        if transmitted_without_result s1 call t
        then meter ops call (tk_owner t) r (at_occurred_at row) s1 else Inr s1))"

text \<open>A retry is only ever scheduled for a read, and only below the attempt ceiling.\<close>

definition retry_outcome ::
  "clock \<Rightarrow> provider_call \<Rightarrow> call_result \<Rightarrow> (call_result \<times> provider_call) res" where
  "retry_outcome ck call r =
     (if rs_state r \<noteq> RETRY then Inr (r, call)
      else if pc_class call \<noteq> Read_Op then Inr (r\<lparr>rs_state := UNCERTAIN\<rparr>, call)
      else if MAX_ATTEMPTS \<le> pc_attempts call then Inr (r\<lparr>rs_state := FAILED\<rparr>, call)
      else res_bind (retry_delay (pc_attempts call)) (\<lambda>d.
             Inr (r, call\<lparr>pc_next_attempt_at := ck_now ck + d\<rparr>)))"

definition finalized :: "clock \<Rightarrow> call_result \<Rightarrow> provider_call \<Rightarrow> provider_call" where
  "finalized ck r call =
     call\<lparr>pc_state := rs_state r, pc_http_status := rs_http_status r,
          pc_provider_code := rs_provider_code r, pc_billed := rs_billed r,
          pc_response_digest := rs_digest r, pc_settled := rs_settled r,
          pc_finalized_at := Some (ck_now ck), pc_version := pc_version call + 1,
          pc_updated_at := ck_now ck\<rparr>"

definition apply_result ::
  "registry_of_operations \<Rightarrow> clock \<Rightarrow> provider_call \<Rightarrow> claim_ticket \<Rightarrow> call_result \<Rightarrow>
   (provider_db, bool) tx" where
  "apply_result ops ck call t r0 s =
     res_bind (retry_outcome ck call r0) (\<lambda>(r, call1).
     (let row = late_row ck call t OBS_RESULT r in
      res_bind (observe row s) (\<lambda>(created, s1).
      res_bind (if created then
                  res_bind (operation_for ops (pc_operation call1)) (\<lambda>op.
                  res_bind (ph_settle (op_policy op) call1 r (db_ledger s1)) (\<lambda>L.
                    meter ops call1 (tk_owner t) r (at_occurred_at row) (s1\<lparr>db_ledger := L\<rparr>)))
                else Inr s1) (\<lambda>s2.
      (let call2 = finalized ck r call1; s3 = save_call call2 s2 in
       if pc_state call2 = UNCERTAIN
       then res_bind (uncertain ops ck call2 s3) (\<lambda>s4. Inr (True, s4))
       else Inr (True, s3))))))"

definition finalize ::
  "registry_of_operations \<Rightarrow> clock \<Rightarrow> claim_ticket \<Rightarrow> call_result \<Rightarrow> (provider_db, bool) tx" where
  "finalize ops ck t result s =
     res_bind (the_row (find (\<lambda>c. pc_id c = tk_call t \<and> pc_client c = tk_client t \<and>
                                  pc_tenant c = tk_tenant t) (db_calls s)) DoesNotExist) (\<lambda>call.
     res_bind (billing_result ops (pc_operation call) (pc_provider call) (pc_billing call)
                 (pc_reserved call) result) (\<lambda>r.
       if \<not> ticket_current s call t
       then res_bind (record_superseded ops ck call t r s) (\<lambda>s'. Inr (False, s'))
       else if pc_state call \<noteq> STARTED then
         (if pc_dispatch_started_at call \<noteq> None \<and> \<not> has_result s call (tk_owner t)
          then res_bind (keep_late ops ck call t r s) (\<lambda>s'. Inr (False, s'))
          else Inr (False, s))
       else if (case pc_lease_until call of None \<Rightarrow> True | Some l \<Rightarrow> l \<le> ck_now ck) then
         res_bind (keep_late ops ck call t r s) (\<lambda>s1.
         res_bind (uncertain ops ck call s1) (\<lambda>s2. Inr (False, s2)))
       else apply_result ops ck call t r s))"

section \<open>call\_protocol.py\<close>

definition stale_finalize :: call_result where
  "stale_finalize =
     \<lparr>rs_state = UNCERTAIN, rs_http_status = None, rs_provider_code = ''stale_finalize'',
      rs_billed = DESCONHECIDO, rs_digest = '''', rs_settled = None\<rparr>"

text \<open>
  \<open>perform\<close>: start once, transmit once, journal before settling.  \<open>ck1\<close>, \<open>t2\<close>, \<open>t3\<close> are the
  clock at the start and \<open>ck2\<close> at the reply; \<open>st1\<close>, \<open>st2\<close> say whether the store accepted
  the start and the result receipt.
\<close>

definition perform ::
  "provider_settings \<Rightarrow> registry_of_operations \<Rightarrow> clock \<Rightarrow> int \<Rightarrow> int \<Rightarrow> clock \<Rightarrow> bool \<Rightarrow> bool \<Rightarrow>
   (dispatch \<Rightarrow> wire) \<Rightarrow> claim_ticket \<Rightarrow> world \<Rightarrow> call_result res \<times> world" where
  "perform cfg ops ck1 t2 t3 ck2 st1 st2 adapter t W =
     (case begin_io cfg ops ck1 t2 t3 st1 t W of
        (Inl e, W1) \<Rightarrow> (Inl e, W1)
      | (Inr d, W1) \<Rightarrow>
          (case receipt_billing ops (dp_receipt d) (transmit (adapter d)) of
             Inl e \<Rightarrow> (Inl e, W1)
           | Inr r0 \<Rightarrow>
               (let r = (if rs_state r0 \<noteq> RETRY then r0
                         else if jr_class (dp_receipt d) \<noteq> Read_Op then r0\<lparr>rs_state := UNCERTAIN\<rparr>
                         else if MAX_ATTEMPTS \<le> jr_attempt_number (dp_receipt d)
                         then r0\<lparr>rs_state := FAILED\<rparr> else r0)
                in case record_result ops st2 d r (w_journal W1) of
                     Inl e \<Rightarrow> (Inl e, W1)
                   | Inr J \<Rightarrow>
                       (let W2 = W1\<lparr>w_journal := J\<rparr> in
                        case finalize ops ck2 t r (w_db W2) of
                          Inl e \<Rightarrow> (Inl e, W2)
                        | Inr (done, s) \<Rightarrow>
                            (Inr (if done then r else stale_finalize), W2\<lparr>w_db := s\<rparr>)))))"

end
