(* ===== verification/Provider_Safety.thy ===== *)
theory Provider_Safety
  imports Provider_Calls
begin

text \<open>
  What the provider protocol promises, over every interleaving of its transactions: an abstract
  lease automaton per call and the simulation that shows the protocol implements it, the effect
  barrier, the ledger, and the contract every admission policy keeps.
\<close>

section \<open>The lease automaton\<close>

text \<open>
  What matters of a call for sending: the fence of its last lease, the attempts used and
  whether a lease is open, that is granted and neither started nor given up.
\<close>

record lease =
  ls_fence :: int
  ls_attempts :: int
  ls_open :: bool

type_synonym leases = "int \<Rightarrow> lease option"

text \<open>A step of the automaton, with the \<open>(call, fence)\<close> pairs whose transmission it starts.\<close>

inductive lease_step :: "leases \<Rightarrow> (int \<times> int) list \<Rightarrow> leases \<Rightarrow> bool" where
  ls_skip: "lease_step A [] A"
| ls_create: "A c = None \<Longrightarrow>
    lease_step A [] (A(c \<mapsto> \<lparr>ls_fence = 0, ls_attempts = 0, ls_open = False\<rparr>))"
| ls_grant: "A c = Some l \<Longrightarrow> \<not> ls_open l \<Longrightarrow> ls_attempts l < MAX_ATTEMPTS \<Longrightarrow>
    lease_step A [] (A(c \<mapsto> l\<lparr>ls_fence := ls_fence l + 1, ls_open := True\<rparr>))"
| ls_start: "A c = Some l \<Longrightarrow> ls_open l \<Longrightarrow>
    lease_step A [(c, ls_fence l)]
      (A(c \<mapsto> l\<lparr>ls_attempts := ls_attempts l + 1, ls_open := False\<rparr>))"
| ls_drop: "A c = Some l \<Longrightarrow> ls_attempts l \<le> n \<Longrightarrow>
    n \<le> ls_attempts l + (if ls_open l then 1 else 0) \<Longrightarrow>
    lease_step A [] (A(c \<mapsto> l\<lparr>ls_attempts := n, ls_open := False\<rparr>))"

inductive_cases lease_stepE: "lease_step A xs A'"

definition sends_of :: "int \<Rightarrow> (int \<times> int) list \<Rightarrow> nat" where
  "sends_of c h = length (filter (\<lambda>x. fst x = c) h)"

definition lease_inv :: "leases \<Rightarrow> (int \<times> int) list \<Rightarrow> bool" where
  "lease_inv A h \<longleftrightarrow>
     distinct h \<and>
     (\<forall>(c, f)\<in>set h. \<exists>l. A c = Some l \<and> f \<le> ls_fence l \<and> (f = ls_fence l \<longrightarrow> \<not> ls_open l)) \<and>
     (\<forall>c l. A c = Some l \<longrightarrow>
        ls_attempts l \<le> MAX_ATTEMPTS \<and> (ls_open l \<longrightarrow> ls_attempts l < MAX_ATTEMPTS) \<and>
        int (sends_of c h) \<le> ls_attempts l)"

lemma sends_of_append [simp]: "sends_of c (h @ h') = sends_of c h + sends_of c h'"
  by (simp add: sends_of_def)

lemma sends_of_simps [simp]:
  "sends_of c [] = 0" "sends_of c (x # h) = (if fst x = c then 1 else 0) + sends_of c h"
  by (simp_all add: sends_of_def)

lemma sends_of_absent: "A c = None \<Longrightarrow> lease_inv A h \<Longrightarrow> sends_of c h = 0"
  by (force simp: lease_inv_def sends_of_def filter_empty_conv)

lemma lease_inv_update:
  assumes "lease_inv A h" "A c = Some l" "ls_fence l \<le> ls_fence l'"
    "ls_open l' \<longrightarrow> ls_fence l < ls_fence l'"
    "ls_attempts l \<le> ls_attempts l'" "ls_attempts l' \<le> MAX_ATTEMPTS"
    "ls_open l' \<longrightarrow> ls_attempts l' < MAX_ATTEMPTS"
  shows "lease_inv (A(c \<mapsto> l')) h"
  using assms by (fastforce simp: lease_inv_def)

lemma lease_inv_step:
  assumes "lease_step A xs A'" "lease_inv A h"
  shows "lease_inv A' (h @ xs)"
  using assms(1)
proof cases
  case ls_skip
  with assms(2) show ?thesis by simp
next
  case (ls_create c)
  then show ?thesis
    using assms(2) sends_of_absent[OF ls_create(3) assms(2)]
    by (fastforce simp: lease_inv_def MAX_ATTEMPTS_def)
next
  case (ls_grant c l)
  have "lease_inv A' h"
    unfolding ls_grant(2) using ls_grant
    by (intro lease_inv_update[OF assms(2)]) auto
  then show ?thesis using ls_grant by simp
next
  case (ls_start c l)
  have l: "ls_attempts l < MAX_ATTEMPTS" "int (sends_of c h) \<le> ls_attempts l"
    "\<And>f. (c, f) \<in> set h \<Longrightarrow> f \<noteq> ls_fence l"
    using assms(2) ls_start(3,4) by (fastforce simp: lease_inv_def)+
  have "lease_inv A' h"
    unfolding ls_start(2) using ls_start l(1)
    by (intro lease_inv_update[OF assms(2)]) auto
  then show ?thesis
    using ls_start l by (fastforce simp: lease_inv_def)
next
  case (ls_drop c l n)
  have "ls_attempts l \<le> MAX_ATTEMPTS" "ls_open l \<longrightarrow> ls_attempts l < MAX_ATTEMPTS"
    using assms(2) ls_drop(3) by (auto simp: lease_inv_def)
  then have "lease_inv A' h"
    unfolding ls_drop(2) using ls_drop
    by (intro lease_inv_update[OF assms(2)]) (auto split: if_splits)
  then show ?thesis using ls_drop by simp
qed

section \<open>The admission contract\<close>

text \<open>
  What the protocol relies on of an admission policy: its hooks keep the ledger's books in
  order, and a quoted liability is never negative.
\<close>

locale admission_hooks =
  fixes policy :: admission_policy
    and books :: "ledger \<Rightarrow> bool"
  assumes reserve_keeps: "books L \<Longrightarrow>
      ph_reserve policy ck link call (L, w) = Inr (rv, (L', w')) \<Longrightarrow> books L' \<and> 0 \<le> rv_micro rv"
    and settle_keeps: "books L \<Longrightarrow> 0 \<le> pc_reserved call \<Longrightarrow>
      ph_settle policy call r L = Inr L' \<Longrightarrow> books L'"

lemma price_nonneg: "price cfg call tariff = Inr rv \<Longrightarrow> 0 \<le> rv_micro rv"
  by (auto simp: price_def mk_reservation_def res_bind_eq_Inr split: if_splits option.splits)

lemma budget_reserve_nonneg:
  "budget_reserve cfg ck link call (L, w) = Inr (rv, (L', w')) \<Longrightarrow> 0 \<le> rv_micro rv"
  by (auto simp: budget_reserve_def res_bind_eq_Inr Let_def intro: price_nonneg)

interpretation budget: admission_hooks "budget_policy cfg authority" ledger_ok
  for cfg authority
proof (unfold_locales, goal_cases)
  case (1 L ck link call w rv L' w')
  then show ?case
    by (auto simp: budget_policy_def dest: budget_reserve_ok budget_reserve_nonneg)
next
  case (2 L call r L')
  then show ?case by (auto simp: budget_policy_def dest: budget_settle_ok)
qed

text \<open>A registry all of whose policies keep the contract over the provider ledger.\<close>

definition lawful :: "registry_of_operations \<Rightarrow> bool" where
  "lawful ops \<longleftrightarrow> (\<forall>code op. operation_for ops code = Inr op \<longrightarrow>
     admission_hooks (op_policy op) ledger_ok)"

lemma lawful_budget:
  assumes "\<And>c op. (c, op) \<in> set ops \<Longrightarrow> \<exists>cfg authority. op_policy op = budget_policy cfg authority"
  shows "lawful ops"
proof -
  have "admission_hooks (op_policy op) ledger_ok" if "operation_for ops c = Inr op" for c op
  proof -
    have "map_of ops c = Some op" using that by (simp add: operation_for_def)
    then have "(c, op) \<in> set ops" by (rule map_of_SomeD)
    then obtain cfg authority where "op_policy op = budget_policy cfg authority"
      using assms by blast
    then show ?thesis using budget.admission_hooks_axioms[of cfg authority] by simp
  qed
  then show ?thesis by (simp add: lawful_def)
qed

section \<open>What each operation writes\<close>


definition db_ok :: "provider_db \<Rightarrow> bool" where
  "db_ok s \<longleftrightarrow>
     distinct (map pc_id (db_calls s)) \<and>
     (\<forall>c\<in>set (db_calls s). pc_id c < db_next s \<and> 0 \<le> pc_reserved c) \<and>
     ledger_ok (db_ledger s)"

definition abs_leases :: "provider_db \<Rightarrow> leases" where
  "abs_leases s cid =
     map_option (\<lambda>c. \<lparr>ls_fence = pc_fence c, ls_attempts = pc_attempts c,
                      ls_open = (pc_state c = CLAIMED)\<rparr>)
       (row_get pc_id cid (db_calls s))"

lemma abs_leases_call:
  assumes "db_ok s" "c \<in> set (db_calls s)"
  shows "abs_leases s (pc_id c) =
    Some \<lparr>ls_fence = pc_fence c, ls_attempts = pc_attempts c, ls_open = (pc_state c = CLAIMED)\<rparr>"
  using assms by (simp add: abs_leases_def db_ok_def row_get_unique)

lemma abs_leases_put:
  assumes "c \<in> set (db_calls s)" "pc_id c' = pc_id c"
    "db_calls s' = row_put pc_id c' (db_calls s)"
  shows "abs_leases s' = (abs_leases s)(pc_id c \<mapsto>
    \<lparr>ls_fence = pc_fence c', ls_attempts = pc_attempts c', ls_open = (pc_state c' = CLAIMED)\<rparr>)"
  using assms by (intro ext) (auto simp: abs_leases_def row_get_row_put)

lemma db_ok_put:
  assumes "db_ok s" "c \<in> set (db_calls s)" "pc_id c' = pc_id c" "0 \<le> pc_reserved c'"
    "db_calls s' = row_put pc_id c' (db_calls s)" "db_next s \<le> db_next s'"
    "ledger_ok (db_ledger s')"
  shows "db_ok s'"
  using assms set_row_put[of pc_id c' "db_calls s"]
  by (fastforce simp: db_ok_def)

text \<open>An update that closes the lease of a call, if one was open, without a transmission.\<close>

definition closes :: "provider_call \<Rightarrow> provider_call \<Rightarrow> bool" where
  "closes c c' \<longleftrightarrow>
     pc_id c' = pc_id c \<and> pc_fence c' = pc_fence c \<and> pc_state c' \<noteq> CLAIMED \<and>
     pc_attempts c \<le> pc_attempts c' \<and>
     pc_attempts c' \<le> pc_attempts c + (if pc_state c = CLAIMED then 1 else 0) \<and>
     pc_reserved c' = pc_reserved c"

lemma closes_step:
  assumes "db_ok s" "c \<in> set (db_calls s)" "closes c c'"
    "db_calls s' = row_put pc_id c' (db_calls s)" "db_next s \<le> db_next s'"
    "ledger_ok (db_ledger s')"
  shows "db_ok s' \<and> lease_step (abs_leases s) [] (abs_leases s')"
proof -
  have res: "0 \<le> pc_reserved c'" using assms(1,2,3) by (auto simp: db_ok_def closes_def)
  have "abs_leases s' = (abs_leases s)(pc_id c \<mapsto>
      \<lparr>ls_fence = pc_fence c, ls_attempts = pc_attempts c, ls_open = (pc_state c = CLAIMED)\<rparr>
        \<lparr>ls_attempts := pc_attempts c', ls_open := False\<rparr>)"
    using abs_leases_put[OF assms(2) _ assms(4)] assms(3) by (simp add: closes_def)
  moreover have "lease_step (abs_leases s) [] ((abs_leases s)(pc_id c \<mapsto>
      \<lparr>ls_fence = pc_fence c, ls_attempts = pc_attempts c, ls_open = (pc_state c = CLAIMED)\<rparr>
        \<lparr>ls_attempts := pc_attempts c', ls_open := False\<rparr>))"
    using assms(3)
    by (intro ls_drop[where n = "pc_attempts c'"] abs_leases_call[OF assms(1,2)])
      (auto simp: closes_def)
  ultimately show ?thesis
    using db_ok_put[OF assms(1,2) _ res assms(4,5,6)] assms(3) by (simp add: closes_def)
qed

lemma uncertain_Inr:
  assumes "uncertain ops ck c s = Inr s'"
  shows "\<exists>L. quarantine ops c (db_ledger s) = Inr L \<and> db_ledger s' = L \<and>
    db_calls s' = row_put pc_id (c\<lparr>pc_state := UNCERTAIN, pc_version := pc_version c + 1,
      pc_updated_at := ck_now ck\<rparr>) (db_calls s) \<and>
    db_barriers s' = db_barriers s \<and> db_attempts s' = db_attempts s \<and> db_next s' = db_next s \<and>
    db_epoch s' = db_epoch s \<and> db_usage s' = db_usage s"
  using assms by (auto simp: uncertain_def res_bind_eq_Inr Let_def save_call_def)

lemma found_call:
  "find (\<lambda>c. pc_id c = i \<and> P c) rows = Some c \<Longrightarrow> c \<in> set rows \<and> pc_id c = i \<and> P c"
  by (drule find_Some_iff_first) simp

lemma uncertain_step:
  assumes "db_ok s" "c \<in> set (db_calls s)" "uncertain ops ck c1 s = Inr s'"
    "pc_id c1 = pc_id c" "pc_fence c1 = pc_fence c" "pc_attempts c \<le> pc_attempts c1"
    "pc_attempts c1 \<le> pc_attempts c + (if pc_state c = CLAIMED then 1 else 0)"
    "pc_reserved c1 = pc_reserved c"
  shows "db_ok s' \<and> lease_step (abs_leases s) [] (abs_leases s')"
proof -
  obtain L where L: "quarantine ops c1 (db_ledger s) = Inr L" "db_ledger s' = L"
    and calls: "db_calls s' = row_put pc_id (c1\<lparr>pc_state := UNCERTAIN,
      pc_version := pc_version c1 + 1, pc_updated_at := ck_now ck\<rparr>) (db_calls s)"
    and nxt: "db_next s' = db_next s"
    using uncertain_Inr[OF assms(3)] by blast
  have "ledger_ok L"
    using quarantine_ok[OF _ _ L(1)] assms(1,2,8) by (simp add: db_ok_def)
  then show ?thesis
    using assms L nxt by (intro closes_step[OF assms(1,2) _ calls]) (simp_all add: closes_def)
qed

lemma quota_refusal_step:
  assumes "db_ok s" "c \<in> set (db_calls s)" "quota_refusal ck link reason c s = Inr (c', s')"
  shows "db_ok s' \<and> lease_step (abs_leases s) [] (abs_leases s')"
proof -
  obtain L where L: "release c (db_ledger s) = Inr L" "db_ledger s' = L"
    and calls: "db_calls s' = row_put pc_id (c\<lparr>pc_state := QUOTA, pc_provider_code := reason,
      pc_version := pc_version c + 1\<rparr>) (db_calls s)"
    and nxt: "db_next s' = db_next s"
    using assms(3) by (auto simp: quota_refusal_def res_bind_eq_Inr Let_def save_call_def)
  have "ledger_ok L" using release_ok[OF _ L(1)] assms(1) by (simp add: db_ok_def)
  then show ?thesis
    using L nxt by (intro closes_step[OF assms(1,2) _ calls]) (simp_all add: closes_def)
qed

lemma refuse_dispatch_Inr:
  assumes "refuse_dispatch ops ck link e c s = Inr s'"
  shows "\<exists>c'. release c (db_ledger s) = Inr (db_ledger s') \<and>
    db_calls s' = row_put pc_id c' (db_calls s) \<and> closes c c' \<and>
    db_barriers s' = db_barriers s \<and> db_attempts s' = db_attempts s \<and> db_next s' = db_next s \<and>
    db_epoch s' = db_epoch s \<and> db_usage s' = db_usage s"
proof (cases "\<exists>reason. e = BudgetDenied reason")
  case True
  then obtain reason where e: "e = BudgetDenied reason" by blast
  show ?thesis
    using assms
    by (intro exI[of _ "c\<lparr>pc_state := QUOTA, pc_provider_code := reason,
          pc_version := pc_version c + 1\<rparr>"])
      (auto simp: e refuse_dispatch_def res_bind_eq_Inr Let_def save_call_def closes_def)
next
  case False
  define c' where "c' = c\<lparr>pc_state := (if e = AdmissionDenied ''pausada'' then PAUSED else AUTHORITY),
    pc_version := pc_version c + 1\<rparr>"
  have "refuse_dispatch ops ck link e c s =
      res_bind (release c (db_ledger s)) (\<lambda>L. Inr ((save_call c' s)\<lparr>db_ledger := L\<rparr>))"
    using False by (cases e) (simp_all add: refuse_dispatch_def c'_def Let_def)
  with assms have "res_bind (release c (db_ledger s))
      (\<lambda>L. Inr ((save_call c' s)\<lparr>db_ledger := L\<rparr>)) = Inr s'" by simp
  moreover have "closes c c'" by (simp add: closes_def c'_def)
  ultimately show ?thesis
    by (intro exI[of _ c']) (auto simp: res_bind_eq_Inr save_call_def)
qed

lemma refuse_dispatch_step:
  assumes "db_ok s" "c \<in> set (db_calls s)" "refuse_dispatch ops ck link e c s = Inr s'"
  shows "db_ok s' \<and> lease_step (abs_leases s) [] (abs_leases s')"
proof -
  obtain c' where L: "release c (db_ledger s) = Inr (db_ledger s')"
    and calls: "db_calls s' = row_put pc_id c' (db_calls s)" "closes c c'"
    and nxt: "db_next s' = db_next s"
    using refuse_dispatch_Inr[OF assms(3)] by blast
  have "ledger_ok (db_ledger s')" using release_ok[OF _ L] assms(1) by (simp add: db_ok_def)
  then show ?thesis
    using nxt by (intro closes_step[OF assms(1,2) calls(2,1)]) simp_all
qed

subsection \<open>Reservation\<close>

lemma db_ok_new:
  assumes "db_ok s" "pc_id c = db_next s" "0 \<le> pc_reserved c" "pc_fence c = 0" "pc_attempts c = 0"
    "pc_state c \<noteq> CLAIMED" "db_calls s' = db_calls s @ [c]" "db_next s' = db_next s + 1"
    "ledger_ok (db_ledger s')"
  shows "db_ok s' \<and> lease_step (abs_leases s) [] (abs_leases s')"
proof -
  have fresh: "db_next s \<notin> pc_id ` set (db_calls s)" using assms(1) by (auto simp: db_ok_def)
  then have none: "row_get pc_id (db_next s) (db_calls s) = None" by simp
  have "abs_leases s' = (abs_leases s)(db_next s \<mapsto> \<lparr>ls_fence = 0, ls_attempts = 0, ls_open = False\<rparr>)"
  proof
    fix i
    show "abs_leases s' i =
      ((abs_leases s)(db_next s \<mapsto> \<lparr>ls_fence = 0, ls_attempts = 0, ls_open = False\<rparr>)) i"
      using none assms
      by (cases "i = db_next s")
        (auto simp: abs_leases_def row_get_append simp del: row_get_None split: option.splits)
  qed
  moreover have "abs_leases s (db_next s) = None" using none by (simp add: abs_leases_def)
  ultimately have "lease_step (abs_leases s) [] (abs_leases s')" by (simp add: ls_create)
  moreover have "db_ok s'" using assms fresh by (force simp: db_ok_def)
  ultimately show ?thesis by blast
qed

lemma reserve_tx_step:
  assumes "db_ok s" "lawful ops" "reserve_tx cfg ops ck tid lid rq s = Inr (r, s')"
  shows "db_ok s' \<and> lease_step (abs_leases s) [] (abs_leases s')"
proof -
  obtain op tenant link conn where op: "operation_for ops (rq_operation rq) = Inr op"
    and "lock_controls s tid lid = Inr (tenant, link, conn)"
    and rest: "(case find (\<lambda>c. pc_tenant c = tid \<and> pc_client c = lk_client link \<and>
                     pc_request_key c = rq_key rq) (db_calls s) of
        Some existing \<Rightarrow>
          (if same_intent existing link op rq then Inr ((existing, None), s)
           else Inl IntentConflict)
      | None \<Rightarrow>
          (let call = new_call s ck tid link conn op rq in
           res_bind (admit cfg ck (db_ledger s) call tenant link conn op) (\<lambda>_.
           (let s1 = s\<lparr>db_calls := db_calls s @ [call], db_next := db_next s + 1\<rparr> in
            if \<not> journaled op then
              (let call' = call\<lparr>pc_state := RESERVED\<rparr> in Inr ((call', None), save_call call' s1))
            else
              case ph_reserve (op_policy op) ck link call (db_ledger s1, db_work s1) of
                Inr (rv, (L, w)) \<Rightarrow>
                  (let call' = call\<lparr>pc_reserved := rv_micro rv, pc_tariff := rv_tariff rv,
                                    pc_state := RESERVED\<rparr>
                   in Inr ((call', None), (save_call call' s1)\<lparr>db_ledger := L, db_work := w\<rparr>))
              | Inl (BudgetDenied reason) \<Rightarrow>
                  (let call' = call\<lparr>pc_state := QUOTA, pc_provider_code := reason\<rparr> in
                   res_bind (refused ck link call' (db_work s1)) (\<lambda>w.
                     Inr ((call', Some (BudgetDenied reason)),
                          (save_call call' s1)\<lparr>db_work := w\<rparr>)))
              | Inl e \<Rightarrow> Inl e)))) = Inr (r, s')"
    using assms(3) by (auto simp: reserve_tx_def res_bind_eq_Inr)
  define call where "call = new_call s ck tid link conn op rq"
  have id: "pc_id call = db_next s" by (simp add: call_def new_call_def)
  have fresh: "\<And>c. c \<in> set (db_calls s) \<Longrightarrow> pc_id c \<noteq> pc_id call"
    using assms(1) id by (auto simp: db_ok_def)
  have put: "row_put pc_id c' (db_calls s @ [call]) = db_calls s @ [c']" if "pc_id c' = pc_id call" for c'
    using that fresh by (auto simp: row_put_def map_idI)
  have fields: "pc_fence call = 0" "pc_attempts call = 0" "pc_reserved call = 0"
    by (simp_all add: call_def new_call_def)
  have ok: "ledger_ok (db_ledger s)" using assms(1) by (simp add: db_ok_def)
  consider "s' = s"
    | c' where "pc_id c' = pc_id call" "pc_fence c' = 0" "pc_attempts c' = 0" "pc_state c' \<noteq> CLAIMED"
        "0 \<le> pc_reserved c'" "db_calls s' = db_calls s @ [c']" "db_next s' = db_next s + 1"
        "ledger_ok (db_ledger s')"
  proof (cases "find (\<lambda>c. pc_tenant c = tid \<and> pc_client c = lk_client link \<and>
      pc_request_key c = rq_key rq) (db_calls s)")
    case (Some existing)
    then show ?thesis using rest that(1) by (auto split: if_splits)
  next
    case None
    show ?thesis
    proof (cases "journaled op")
      case False
      then show ?thesis
        using rest None that(2)[of "call\<lparr>pc_state := RESERVED\<rparr>"] fields put ok
        by (auto simp: Let_def res_bind_eq_Inr save_call_def simp flip: call_def)
    next
      case True
      show ?thesis
      proof (cases "ph_reserve (op_policy op) ck link call (db_ledger s, db_work s)")
        case (Inl e)
        then obtain reason where e: "e = BudgetDenied reason"
          using rest None True
          by (cases e) (auto simp: Let_def res_bind_eq_Inr simp flip: call_def)
        show ?thesis
          using rest None True Inl e fields put ok
            that(2)[of "call\<lparr>pc_state := QUOTA, pc_provider_code := reason\<rparr>"]
          by (auto simp: Let_def res_bind_eq_Inr save_call_def simp flip: call_def)
      next
        case (Inr x)
        obtain rv L w where x: "x = (rv, (L, w))" by (cases x) auto
        have "ledger_ok L" "0 \<le> rv_micro rv"
          using admission_hooks.reserve_keeps[of "op_policy op" ledger_ok] assms(2) op ok Inr x
          by (auto simp: lawful_def)
        then show ?thesis
          using rest None True Inr x fields put
            that(2)[of "call\<lparr>pc_reserved := rv_micro rv, pc_tariff := rv_tariff rv,
              pc_state := RESERVED\<rparr>"]
          by (auto simp: Let_def res_bind_eq_Inr save_call_def simp flip: call_def)
      qed
    qed
  qed
  then show ?thesis
  proof cases
    case 1
    with assms(1) show ?thesis by (simp add: ls_skip)
  next
    case (2 c')
    then show ?thesis using db_ok_new[OF assms(1), of c' s'] id by simp
  qed
qed


subsection \<open>Claim\<close>

lemma grant_step:
  assumes "db_ok s" "c \<in> set (db_calls s)" "pc_state c \<noteq> CLAIMED" "pc_attempts c < MAX_ATTEMPTS"
    "pc_id c' = pc_id c" "pc_fence c' = pc_fence c + 1" "pc_attempts c' = pc_attempts c"
    "pc_state c' = CLAIMED" "0 \<le> pc_reserved c'" "db_calls s' = row_put pc_id c' (db_calls s)"
    "db_next s \<le> db_next s'" "ledger_ok (db_ledger s')"
  shows "db_ok s' \<and> lease_step (abs_leases s) [] (abs_leases s')"
proof -
  define l where "l = \<lparr>ls_fence = pc_fence c, ls_attempts = pc_attempts c, ls_open = False\<rparr>"
  have now: "abs_leases s (pc_id c) = Some l"
    using abs_leases_call[OF assms(1,2)] assms(3) by (simp add: l_def)
  have "abs_leases s' = (abs_leases s)(pc_id c \<mapsto> l\<lparr>ls_fence := ls_fence l + 1, ls_open := True\<rparr>)"
    using abs_leases_put[OF assms(2,5,10)] assms(6-8) by (simp add: l_def)
  moreover have "lease_step (abs_leases s) []
      ((abs_leases s)(pc_id c \<mapsto> l\<lparr>ls_fence := ls_fence l + 1, ls_open := True\<rparr>))"
    using assms(4) by (intro ls_grant[of "abs_leases s" "pc_id c" l, OF now]) (simp_all add: l_def)
  ultimately show ?thesis
    using db_ok_put[OF assms(1,2,5,9,10,11,12)] by simp
qed

lemma claim_step:
  assumes "db_ok s" "lawful ops" "claim cfg ops ck tid cid s = Inr (r, s')"
  shows "db_ok s' \<and> lease_step (abs_leases s) [] (abs_leases s')"
proof -
  obtain call tenant link conn
    where "find (\<lambda>c. pc_id c = cid \<and> pc_tenant c = tid) (db_calls s) = Some call"
    and rest: "(if pc_state call = CLAIMED \<or> pc_state call = STARTED then
         (case pc_lease_until call of
            None \<Rightarrow> Inr (None, s)
          | Some t \<Rightarrow>
              if t \<le> ck_now ck then res_bind (uncertain ops ck call s) (\<lambda>s'. Inr (None, s'))
              else Inr (None, s))
       else if (pc_state call \<noteq> RESERVED \<and> pc_state call \<noteq> RETRY) \<or>
               ck_now ck < pc_next_attempt_at call \<or> MAX_ATTEMPTS \<le> pc_attempts call
       then Inr (None, s)
       else
         res_bind (operation_for ops (pc_operation call)) (\<lambda>op.
           let priced =
             res_bind (admit cfg ck (db_ledger s) call tenant link conn op) (\<lambda>_.
               if pc_state call = RETRY \<and> journaled op then
                 res_bind (ph_reserve (op_policy op) ck link call (db_ledger s, db_work s))
                   (\<lambda>(rv, (L, w)). Inr (call\<lparr>pc_reserved := rv_micro rv, pc_tariff := rv_tariff rv\<rparr>,
                                       s\<lparr>db_ledger := L, db_work := w\<rparr>))
               else Inr (call, s))
           in case priced of
                Inl (BudgetDenied reason) \<Rightarrow>
                  res_bind (quota_refusal ck link reason call s) (\<lambda>(_, s'). Inr (None, s'))
              | Inl e \<Rightarrow> Inl e
              | Inr (call1, s1) \<Rightarrow>
                  (let call' = granted s1 ck call1 in
                   Inr (Some \<lparr>tk_tenant = tid, tk_client = pc_client call', tk_call = pc_id call',
                              tk_fence = pc_fence call', tk_owner = db_next s1,
                              tk_epoch = pc_epoch call'\<rparr>,
                        (save_call call' s1)\<lparr>db_next := db_next s1 + 1\<rparr>)))) = Inr (r, s')"
    using assms(3) unfolding claim_def by (auto simp: res_bind_eq_Inr)
  then have c: "call \<in> set (db_calls s)" by (auto dest: found_call)
  have ok: "ledger_ok (db_ledger s)" "0 \<le> pc_reserved call"
    using assms(1) c by (auto simp: db_ok_def)
  consider (skip) "s' = s" | (unc) "uncertain ops ck call s = Inr s'"
    | (grant) call1 L w op where "pc_state call \<noteq> CLAIMED" "pc_attempts call < MAX_ATTEMPTS"
        "operation_for ops (pc_operation call) = Inr op"
        "(\<exists>rv. ph_reserve (op_policy op) ck link call (db_ledger s, db_work s) = Inr (rv, (L, w)) \<and>
             call1 = call\<lparr>pc_reserved := rv_micro rv, pc_tariff := rv_tariff rv\<rparr>) \<or>
           call1 = call \<and> L = db_ledger s \<and> w = db_work s"
        "s' = (save_call (granted s ck call1) (s\<lparr>db_ledger := L, db_work := w\<rparr>))
                \<lparr>db_next := db_next s + 1\<rparr>"
    | (quota) reason c' where "quota_refusal ck link reason call s = Inr (c', s')"
  proof (cases "pc_state call = CLAIMED \<or> pc_state call = STARTED \<or>
      (pc_state call \<noteq> RESERVED \<and> pc_state call \<noteq> RETRY) \<or>
      ck_now ck < pc_next_attempt_at call \<or> MAX_ATTEMPTS \<le> pc_attempts call")
    case True
    then show ?thesis
      using rest that(1,2) by (auto simp: res_bind_eq_Inr split: if_splits option.splits)
  next
    case False
    then obtain op where op: "operation_for ops (pc_operation call) = Inr op"
      using rest by (auto simp: res_bind_eq_Inr)
    show ?thesis
    proof (cases "res_bind (admit cfg ck (db_ledger s) call tenant link conn op) (\<lambda>_.
        if pc_state call = RETRY \<and> journaled op then
          res_bind (ph_reserve (op_policy op) ck link call (db_ledger s, db_work s))
            (\<lambda>(rv, (L, w)). Inr (call\<lparr>pc_reserved := rv_micro rv, pc_tariff := rv_tariff rv\<rparr>,
                                s\<lparr>db_ledger := L, db_work := w\<rparr>))
        else Inr (call, s))")
      case (Inl e)
      then show ?thesis
        using rest False op that(4)
        by (cases e) (auto simp: Let_def res_bind_eq_Inr split_beta)
    next
      case (Inr x)
      obtain call1 s1 where x: "x = (call1, s1)" by (cases x)
      from Inr have "\<exists>L w. s1 = s\<lparr>db_ledger := L, db_work := w\<rparr> \<and>
          ((\<exists>rv. ph_reserve (op_policy op) ck link call (db_ledger s, db_work s) = Inr (rv, (L, w)) \<and>
              call1 = call\<lparr>pc_reserved := rv_micro rv, pc_tariff := rv_tariff rv\<rparr>) \<or>
            call1 = call \<and> L = db_ledger s \<and> w = db_work s)"
        unfolding x
        by (cases "pc_state call = RETRY \<and> journaled op")
          (force simp: res_bind_eq_Inr simp del: de_Morgan_conj
             intro: exI[of _ "db_ledger s"] exI[of _ "db_work s"])+
      then obtain L w where s1: "s1 = s\<lparr>db_ledger := L, db_work := w\<rparr>"
        and call1: "(\<exists>rv. ph_reserve (op_policy op) ck link call (db_ledger s, db_work s) =
              Inr (rv, (L, w)) \<and>
              call1 = call\<lparr>pc_reserved := rv_micro rv, pc_tariff := rv_tariff rv\<rparr>) \<or>
            call1 = call \<and> L = db_ledger s \<and> w = db_work s"
        by blast
      have "s' = (save_call (granted s ck call1) s1)\<lparr>db_next := db_next s + 1\<rparr>"
        using rest False op Inr x s1 by (auto simp: Let_def granted_def)
      then show ?thesis using that(3)[OF _ _ op call1] False s1 by auto
    qed
  qed
  then show ?thesis
  proof cases
    case skip
    with assms(1) show ?thesis by (simp add: ls_skip)
  next
    case unc
    then show ?thesis by (intro uncertain_step[OF assms(1) c]) simp_all
  next
    case (grant call1 L w op)
    have "ledger_ok L \<and> 0 \<le> pc_reserved call1"
      using grant(3,4) ok admission_hooks.reserve_keeps[of "op_policy op" ledger_ok] assms(2)
      by (fastforce simp: lawful_def)
    moreover have "pc_id call1 = pc_id call \<and> pc_fence call1 = pc_fence call \<and>
        pc_attempts call1 = pc_attempts call"
      using grant(4) by auto
    ultimately show ?thesis
      using grant(5)
      by (intro grant_step[OF assms(1) c grant(1,2), of "granted s ck call1"])
        (simp_all add: granted_def save_call_def)
  next
    case quota
    then show ?thesis by (rule quota_refusal_step[OF assms(1) c])
  qed
qed


subsection \<open>Dispatch\<close>

definition barrier_of :: "provider_call \<Rightarrow> claim_ticket \<Rightarrow> journal_record \<Rightarrow> effect_barrier" where
  "barrier_of call t receipt =
     \<lparr>eb_tenant = tk_tenant t, eb_client = tk_client t, eb_provider = pc_provider call,
      eb_effect_key = pc_effect_key call, eb_request_digest = pc_request_digest call,
      eb_receipt = journal_path_of receipt, eb_call = pc_id call\<rparr>"

definition sent_call :: "claim_ticket \<Rightarrow> int \<Rightarrow> provider_call \<Rightarrow> provider_call" where
  "sent_call t at3 call =
     (started_call t at3 call)\<lparr>pc_state := STARTED, pc_version := pc_version call + 1\<rparr>"

text \<open>The four ways a dispatch transaction ends: ignored, lost, refused or sent.\<close>

lemma prepare_cases:
  assumes "prepare cfg ops ck t2 t3 t s = Inr (r, s')"
  obtains call where "call \<in> set (db_calls s)" "pc_id call = tk_call t" "r = Refused StaleClaim"
      "s' = s"
  | call c1 where "call \<in> set (db_calls s)" "pc_id call = tk_call t" "pc_state call = CLAIMED"
      "c1 = call \<or> c1 = started_call t t3 call" "r = Refused StaleClaim"
      "uncertain ops ck c1 s = Inr s'"
  | call link e where "call \<in> set (db_calls s)" "pc_id call = tk_call t" "r = Refused e"
      "refuse_dispatch ops ck link e call s = Inr s'"
  | call op receipt where "call \<in> set (db_calls s)" "pc_id call = tk_call t"
      "pc_client call = tk_client t" "pc_tenant call = tk_tenant t"
      "ticket_current s call t" "pc_state call = CLAIMED"
      "operation_for ops (pc_operation call) = Inr op"
      "journal_started (started_call t t3 call) t = Inr receipt"
      "r = Prepared \<lparr>dp_claim = t, dp_receipt = receipt, dp_journaled = journaled op\<rparr>"
      "effectful (op_class op) \<longrightarrow> find_barrier s (tk_tenant t) (tk_client t) (pc_provider call)
          (pc_effect_key call) = None"
      "s' = (save_call (sent_call t t3 call) s)\<lparr>db_barriers := db_barriers s @
          (if effectful (op_class op) then [barrier_of call t receipt] else [])\<rparr>"
proof -
  obtain call tenant link conn
    where found: "find (\<lambda>c. pc_id c = tk_call t \<and> pc_client c = tk_client t \<and>
        pc_tenant c = tk_tenant t) (db_calls s) = Some call"
    and rest: "(if \<not> ticket_current s call t \<or> pc_state call \<noteq> CLAIMED \<or>
          pc_dispatch_started_at call \<noteq> None
       then Inr (Refused StaleClaim, s)
       else
         res_bind (operation_for ops (pc_operation call)) (\<lambda>op.
           case pc_lease_until call of
             None \<Rightarrow> res_bind (uncertain ops ck call s) (\<lambda>s'. Inr (Refused StaleClaim, s'))
           | Some lease \<Rightarrow>
               if lease \<le> ck_now ck
               then res_bind (uncertain ops ck call s) (\<lambda>s'. Inr (Refused StaleClaim, s'))
               else
                 (case admit cfg ck (db_ledger s) call tenant link conn op of
                    Inl e \<Rightarrow>
                      if admission_denied e
                      then res_bind (refuse_dispatch ops ck link e call s) (\<lambda>s'.
                             Inr (Refused e, s'))
                      else Inl e
                  | Inr _ \<Rightarrow>
                      if lease \<le> t2
                      then res_bind (uncertain ops ck call s) (\<lambda>s'. Inr (Refused StaleClaim, s'))
                      else
                        let call1 = started_call t t3 call;
                            call2 = call1\<lparr>pc_state := STARTED, pc_version := pc_version call1 + 1\<rparr>
                        in res_bind (journal_started call1 t) (\<lambda>receipt.
                             let go = (Prepared \<lparr>dp_claim = t, dp_receipt = receipt,
                                                dp_journaled = journaled op\<rparr>)
                             in if \<not> effectful (op_class op) then Inr (go, save_call call2 s)
                                else case find_barrier s (tk_tenant t) (tk_client t)
                                            (pc_provider call1) (pc_effect_key call1) of
                                       None \<Rightarrow>
                                         Inr (go, (save_call call2 s)
                                           \<lparr>db_barriers := db_barriers s @
                                              [\<lparr>eb_tenant = tk_tenant t, eb_client = tk_client t,
                                                eb_provider = pc_provider call1,
                                                eb_effect_key = pc_effect_key call1,
                                                eb_request_digest = pc_request_digest call1,
                                                eb_receipt = journal_path_of receipt,
                                                eb_call = pc_id call1\<rparr>]\<rparr>)
                                     | Some b \<Rightarrow>
                                         if eb_request_digest b \<noteq> pc_request_digest call1
                                         then Inl IntentConflict
                                         else res_bind (uncertain ops ck call1 s) (\<lambda>s'.
                                                Inr (Refused StaleClaim, s')))))) = Inr (r, s')"
    using assms unfolding prepare_def by (auto simp: res_bind_eq_Inr)
  have call: "call \<in> set (db_calls s)" "pc_id call = tk_call t" "pc_client call = tk_client t"
    "pc_tenant call = tk_tenant t"
    using found_call[of "tk_call t" "\<lambda>c. pc_client c = tk_client t \<and> pc_tenant c = tk_tenant t"] found
    by auto
  show thesis
  proof (cases "\<not> ticket_current s call t \<or> pc_state call \<noteq> CLAIMED \<or>
      pc_dispatch_started_at call \<noteq> None")
    case True
    then show thesis using rest that(1)[OF call(1,2)] by auto
  next
    case live: False
    then obtain op where op: "operation_for ops (pc_operation call) = Inr op"
      using rest by (auto simp: res_bind_eq_Inr)
    show thesis
    proof (cases "(case pc_lease_until call of None \<Rightarrow> True | Some l \<Rightarrow> l \<le> ck_now ck \<or>
        (l \<le> t2 \<and> admit cfg ck (db_ledger s) call tenant link conn op = Inr ()))")
      case True
      then show thesis
        using rest live op that(2)[OF call(1,2)]
        by (auto simp: res_bind_eq_Inr split: option.splits if_splits)
    next
      case False
      then obtain lease where lease: "pc_lease_until call = Some lease" "\<not> lease \<le> ck_now ck"
        by (auto split: option.splits)
      show thesis
      proof (cases "admit cfg ck (db_ledger s) call tenant link conn op")
        case (Inl e)
        then show thesis
          using rest live op lease that(3)[OF call(1,2)]
          by (auto simp: res_bind_eq_Inr split: if_splits)
      next
        case (Inr u)
        then have in_time: "\<not> lease \<le> t2" using False lease by simp
        have u: "u = ()" by simp
        obtain receipt where receipt: "journal_started (started_call t t3 call) t = Inr receipt"
          using rest live op lease Inr in_time by (auto simp: res_bind_eq_Inr Let_def)
        have same: "pc_provider (started_call t t3 call) = pc_provider call"
          "pc_effect_key (started_call t t3 call) = pc_effect_key call"
          "pc_version (started_call t t3 call) = pc_version call"
          "pc_id (started_call t t3 call) = pc_id call"
          "pc_request_digest (started_call t t3 call) = pc_request_digest call"
          by (simp_all add: started_call_def)
        show thesis
        proof (cases "effectful (op_class op) \<and> find_barrier s (tk_tenant t) (tk_client t)
            (pc_provider call) (pc_effect_key call) \<noteq> None")
          case True
          then have "uncertain ops ck (started_call t t3 call) s = Inr s' \<and>
              r = Refused StaleClaim"
            using rest live op lease Inr in_time receipt same
            by (auto simp: Let_def res_bind_eq_Inr split: if_splits)
          then show thesis
            using that(2)[OF call(1,2), of "started_call t t3 call"] live by simp
        next
          case False
          have free: "effectful (op_class op) \<longrightarrow> find_barrier s (tk_tenant t) (tk_client t)
              (pc_provider call) (pc_effect_key call) = None" using False by simp
          have idle: "(save_call c s)\<lparr>db_barriers := db_barriers s\<rparr> = save_call c s" for c
            by (simp add: save_call_def)
          have "r = Prepared \<lparr>dp_claim = t, dp_receipt = receipt, dp_journaled = journaled op\<rparr>
              \<and> s' = (save_call (sent_call t t3 call) s)\<lparr>db_barriers := db_barriers s @
                (if effectful (op_class op) then [barrier_of call t receipt] else [])\<rparr>"
            using rest live op lease Inr in_time receipt same free idle
            by (cases "effectful (op_class op)")
              (auto simp: Let_def barrier_of_def sent_call_def)
          then show thesis
            using that(4)[OF call _ _ op receipt] live free by simp
        qed
      qed
    qed
  qed
qed


lemma prepare_step:
  assumes "db_ok s" "prepare cfg ops ck t2 t3 t s = Inr (r, s')"
  shows "db_ok s' \<and> lease_step (abs_leases s)
    (case r of Prepared d \<Rightarrow> [(tk_call t, tk_fence t)] | Refused e \<Rightarrow> []) (abs_leases s')"
  using assms(2)
proof (cases rule: prepare_cases)
  case 1
  with assms(1) show ?thesis by (simp add: ls_skip)
next
  case (2 call c1)
  have "db_ok s' \<and> lease_step (abs_leases s) [] (abs_leases s')"
    using 2 by (intro uncertain_step[OF assms(1) 2(1,6)]) (auto simp: started_call_def)
  then show ?thesis using 2 by simp
next
  case (3 call link e)
  then show ?thesis using refuse_dispatch_step[OF assms(1)] by simp
next
  case (4 call op receipt)
  define l where "l = \<lparr>ls_fence = pc_fence call, ls_attempts = pc_attempts call, ls_open = True\<rparr>"
  have now: "abs_leases s (pc_id call) = Some l"
    using abs_leases_call[OF assms(1) 4(1)] 4(6) by (simp add: l_def)
  have calls: "db_calls s' = row_put pc_id (sent_call t t3 call) (db_calls s)"
    using 4(11) by (simp add: save_call_def)
  have "abs_leases s' =
      (abs_leases s)(pc_id call \<mapsto> l\<lparr>ls_attempts := ls_attempts l + 1, ls_open := False\<rparr>)"
    using abs_leases_put[OF 4(1) _ calls] by (simp add: l_def sent_call_def started_call_def)
  moreover have "lease_step (abs_leases s) [(pc_id call, ls_fence l)]
      ((abs_leases s)(pc_id call \<mapsto> l\<lparr>ls_attempts := ls_attempts l + 1, ls_open := False\<rparr>))"
    by (intro ls_start[of "abs_leases s" "pc_id call" l, OF now]) (simp add: l_def)
  moreover have "ls_fence l = tk_fence t" using 4(5) by (simp add: l_def ticket_current_def)
  moreover have "db_ok s'"
  proof (intro db_ok_put[OF assms(1) 4(1) _ _ calls])
    show "0 \<le> pc_reserved (sent_call t t3 call)" "ledger_ok (db_ledger s')" "db_next s \<le> db_next s'"
      using assms(1) 4(1,11) by (simp_all add: db_ok_def sent_call_def started_call_def save_call_def)
  qed (simp add: sent_call_def started_call_def)
  ultimately show ?thesis using 4(2,9) by simp
qed

subsection \<open>Finalization\<close>

lemma observe_frame:
  "observe row s = Inr (b, s') \<Longrightarrow>
     db_calls s' = db_calls s \<and> db_ledger s' = db_ledger s \<and> db_next s' = db_next s \<and>
     db_barriers s' = db_barriers s \<and> db_epoch s' = db_epoch s \<and> db_usage s' = db_usage s"
  by (auto simp: observe_def split: option.splits if_splits)

lemma meter_frame:
  "meter ops call aid r occurred s = Inr s' \<Longrightarrow>
     db_calls s' = db_calls s \<and> db_ledger s' = db_ledger s \<and> db_next s' = db_next s \<and>
     db_barriers s' = db_barriers s \<and> db_epoch s' = db_epoch s \<and> db_attempts s' = db_attempts s"
proof (cases "metric_of call")
  case None
  then show "meter ops call aid r occurred s = Inr s' \<Longrightarrow> ?thesis" by (simp add: meter_def)
next
  case (Some m)
  have tail: "(case e of None \<Rightarrow> (if a then Inr s else Inr (s\<lparr>db_usage := x\<rparr>))
        | Some u \<Rightarrow> (if b u then (case e2 of Some y \<Rightarrow> Inr s | None \<Rightarrow> Inr (s\<lparr>db_usage := z\<rparr>)) else Inr s))
      = (Inr s' :: provider_db res) \<Longrightarrow> ?thesis"
    for e :: "usage_row option" and a x b and e2 :: "usage_row option" and z
    by (auto split: option.splits if_splits)
  assume "meter ops call aid r occurred s = Inr s'"
  then show ?thesis
    unfolding meter_def Let_def Some option.case res_bind_eq_Inr
    by (elim exE conjE) (erule tail)
qed

lemma keep_late_frame:
  assumes "keep_late ops ck call t r s = Inr s'"
  shows "db_calls s' = db_calls s \<and> db_ledger s' = db_ledger s \<and> db_next s' = db_next s \<and>
    db_barriers s' = db_barriers s \<and> db_epoch s' = db_epoch s"
proof -
  obtain b s1 where "observe (late_row ck call t OBS_LATE r) s = Inr (b, s1)"
    "meter ops call (tk_owner t) r (at_occurred_at (late_row ck call t OBS_LATE r)) s1 = Inr s'"
    using assms by (auto simp: keep_late_def Let_def res_bind_eq_Inr)
  then show ?thesis by (auto dest!: observe_frame meter_frame)
qed

lemma record_superseded_frame:
  assumes "record_superseded ops ck call t r s = Inr s'"
  shows "db_calls s' = db_calls s \<and> db_ledger s' = db_ledger s \<and> db_next s' = db_next s \<and>
    db_barriers s' = db_barriers s \<and> db_epoch s' = db_epoch s"
proof -
  obtain b s1 where "observe (late_row ck call t OBS_LATE r) s = Inr (b, s1)"
    "(if transmitted_without_result s1 call t
      then meter ops call (tk_owner t) r (at_occurred_at (late_row ck call t OBS_LATE r)) s1
      else Inr s1) = Inr s'"
    using assms by (auto simp: record_superseded_def Let_def res_bind_eq_Inr)
  then show ?thesis by (auto dest!: observe_frame meter_frame split: if_splits)
qed

lemma retry_outcome_Inr:
  assumes "retry_outcome ck call r0 = Inr (r, call1)" "rs_state r0 \<noteq> CLAIMED"
  shows "rs_state r \<noteq> CLAIMED" "pc_id call1 = pc_id call" "pc_fence call1 = pc_fence call"
    "pc_attempts call1 = pc_attempts call" "pc_reserved call1 = pc_reserved call"
    "pc_operation call1 = pc_operation call" "pc_state call1 = pc_state call"
  using assms by (auto simp: retry_outcome_def res_bind_eq_Inr split: if_splits)


lemma apply_result_step:
  assumes "db_ok s" "lawful ops" "call \<in> set (db_calls s)" "pc_state call = STARTED"
    "rs_state r0 \<noteq> CLAIMED" "apply_result ops ck call t r0 s = Inr (b, s')"
  shows "b \<and> db_ok s' \<and> lease_step (abs_leases s) [] (abs_leases s') \<and>
    db_barriers s' = db_barriers s"
proof -
  obtain r call1 created s1 s2 where
    retry: "retry_outcome ck call r0 = Inr (r, call1)"
    and obs: "observe (late_row ck call t OBS_RESULT r) s = Inr (created, s1)"
    and settle: "(if created then
        res_bind (operation_for ops (pc_operation call1)) (\<lambda>op.
        res_bind (ph_settle (op_policy op) call1 r (db_ledger s1)) (\<lambda>L.
          meter ops call1 (tk_owner t) r (at_occurred_at (late_row ck call t OBS_RESULT r))
            (s1\<lparr>db_ledger := L\<rparr>)))
      else Inr s1) = Inr s2"
    and last: "(if pc_state (finalized ck r call1) = UNCERTAIN
        then res_bind (uncertain ops ck (finalized ck r call1) (save_call (finalized ck r call1) s2))
               (\<lambda>s4. Inr (True, s4))
        else Inr (True, save_call (finalized ck r call1) s2)) = Inr (b, s')"
    using assms(6) unfolding apply_result_def Let_def
    by (auto simp only: res_bind_eq_Inr split_paired_Ex case_prod_conv)
  note same = retry_outcome_Inr[OF retry assms(5)]
  have reserved: "0 \<le> pc_reserved call" using assms(1,3) by (simp add: db_ok_def)
  have s1: "db_calls s1 = db_calls s" "db_ledger s1 = db_ledger s" "db_next s1 = db_next s"
    "db_barriers s1 = db_barriers s"
    using observe_frame[OF obs] by simp_all
  have s2: "db_calls s2 = db_calls s" "ledger_ok (db_ledger s2)" "db_next s2 = db_next s"
    "db_barriers s2 = db_barriers s"
  proof -
    have "db_calls s2 = db_calls s \<and> ledger_ok (db_ledger s2) \<and> db_next s2 = db_next s \<and>
        db_barriers s2 = db_barriers s"
    proof (cases created)
      case True
      then obtain op L where op: "operation_for ops (pc_operation call1) = Inr op"
        and L: "ph_settle (op_policy op) call1 r (db_ledger s1) = Inr L"
        and m: "meter ops call1 (tk_owner t) r
          (at_occurred_at (late_row ck call t OBS_RESULT r)) (s1\<lparr>db_ledger := L\<rparr>) = Inr s2"
        using settle by (auto simp: res_bind_eq_Inr)
      have "ledger_ok L"
        using admission_hooks.settle_keeps[of "op_policy op" ledger_ok _ call1 r L] L op assms(1,2)
          s1(2) reserved same(5) by (auto simp: lawful_def db_ok_def)
      then show ?thesis using meter_frame[OF m] s1 by simp
    next
      case False
      then show ?thesis using settle s1 assms(1) by (simp add: db_ok_def)
    qed
    then show "db_calls s2 = db_calls s" "ledger_ok (db_ledger s2)" "db_next s2 = db_next s"
      "db_barriers s2 = db_barriers s" by simp_all
  qed
  define c2 where "c2 = finalized ck r call1"
  define s3 where "s3 = save_call c2 s2"
  have closes: "closes call c2"
    using same by (simp add: closes_def c2_def finalized_def)
  have s3: "db_ok s3 \<and> lease_step (abs_leases s) [] (abs_leases s3)"
    using s2 by (intro closes_step[OF assms(1,3) closes]) (simp_all add: s3_def save_call_def)
  show ?thesis
  proof (cases "pc_state c2 = UNCERTAIN")
    case False
    then show ?thesis using last s3 s2(4) by (auto simp: c2_def s3_def save_call_def)
  next
    case True
    then have unc: "uncertain ops ck c2 s3 = Inr s'" and b: "b"
      using last by (auto simp: c2_def s3_def res_bind_eq_Inr)
    have "c2 \<in> set (db_calls s3)"
      using assms(3) closes s2(1)
      by (force simp: s3_def save_call_def row_put_def closes_def image_iff)
    then have "db_ok s' \<and> lease_step (abs_leases s3) [] (abs_leases s')"
      using uncertain_step[of s3 c2 ops ck c2 s'] s3 unc by simp
    moreover have "abs_leases s' = abs_leases s3"
    proof -
      obtain c3 where "db_calls s' = row_put pc_id c3 (db_calls s3)" "pc_id c3 = pc_id c2"
        "pc_fence c3 = pc_fence c2" "pc_attempts c3 = pc_attempts c2" "pc_state c3 = UNCERTAIN"
        using uncertain_Inr[OF unc] by auto
      then show ?thesis
        using abs_leases_put[OF \<open>c2 \<in> set (db_calls s3)\<close>, of c3 s']
          abs_leases_call[of s3 c2] \<open>c2 \<in> set (db_calls s3)\<close> s3 True
        by (auto simp: fun_upd_idem_iff)
    qed
    moreover have "db_barriers s' = db_barriers s"
      using uncertain_Inr[OF unc] s2(4) by (auto simp: s3_def save_call_def)
    ultimately show ?thesis using s3 b by simp
  qed
qed


lemma result_ok_state: "result_ok r \<Longrightarrow> rs_state r \<noteq> CLAIMED"
  by (auto simp: result_ok_def result_states_def)

lemma billing_result_state:
  "billing_result ops c p bc m r0 = Inr r \<Longrightarrow> rs_state r = rs_state r0"
  by (auto simp: billing_result_def res_bind_eq_Inr classify_def Let_def
      split: if_splits option.splits)

lemma abs_leases_same: "db_calls s' = db_calls s \<Longrightarrow> abs_leases s' = abs_leases s"
  by (intro ext) (simp add: abs_leases_def)

lemma finalize_step:
  assumes "db_ok s" "lawful ops" "result_ok r0" "finalize ops ck t r0 s = Inr (b, s')"
  shows "db_ok s' \<and> lease_step (abs_leases s) [] (abs_leases s') \<and> db_barriers s' = db_barriers s"
proof -
  obtain call r where
    found: "find (\<lambda>c. pc_id c = tk_call t \<and> pc_client c = tk_client t \<and>
        pc_tenant c = tk_tenant t) (db_calls s) = Some call"
    and r: "billing_result ops (pc_operation call) (pc_provider call) (pc_billing call)
        (pc_reserved call) r0 = Inr r"
    and rest: "(if \<not> ticket_current s call t
       then res_bind (record_superseded ops ck call t r s) (\<lambda>s'. Inr (False, s'))
       else if pc_state call \<noteq> STARTED then
         (if pc_dispatch_started_at call \<noteq> None \<and> \<not> has_result s call (tk_owner t)
          then res_bind (keep_late ops ck call t r s) (\<lambda>s'. Inr (False, s'))
          else Inr (False, s))
       else if (case pc_lease_until call of None \<Rightarrow> True | Some l \<Rightarrow> l \<le> ck_now ck) then
         res_bind (keep_late ops ck call t r s) (\<lambda>s1.
         res_bind (uncertain ops ck call s1) (\<lambda>s2. Inr (False, s2)))
       else apply_result ops ck call t r s) = Inr (b, s')"
    using assms(4) unfolding finalize_def
    by (elim res_bind_InrE) (drule iffD1[OF the_row_eq_Inr], erule (2) that)
  have c: "call \<in> set (db_calls s)"
    using found_call[of "tk_call t" "\<lambda>c. pc_client c = tk_client t \<and> pc_tenant c = tk_tenant t",
      OF found] by blast
  have state: "rs_state r \<noteq> CLAIMED"
    using billing_result_state[OF r] result_ok_state[OF assms(3)] by simp
  have kept: "db_ok s1 \<and> abs_leases s1 = abs_leases s"
    if "db_calls s1 = db_calls s \<and> db_ledger s1 = db_ledger s \<and> db_next s1 = db_next s" for s1
    using that assms(1) abs_leases_same[of s1 s] by (simp add: db_ok_def)
  consider "\<not> ticket_current s call t" | "ticket_current s call t" "pc_state call \<noteq> STARTED"
    | "ticket_current s call t" "pc_state call = STARTED"
        "case pc_lease_until call of None \<Rightarrow> True | Some l \<Rightarrow> l \<le> ck_now ck"
    | "ticket_current s call t" "pc_state call = STARTED"
        "\<not> (case pc_lease_until call of None \<Rightarrow> True | Some l \<Rightarrow> l \<le> ck_now ck)"
    by blast
  then show ?thesis
  proof cases
    case 1
    then have "record_superseded ops ck call t r s = Inr s'"
      using rest by (auto simp: res_bind_eq_Inr)
    then show ?thesis
      using kept[of s'] record_superseded_frame[of ops ck call t r s s'] by (simp add: ls_skip)
  next
    case 2
    then have "s' = s \<or> keep_late ops ck call t r s = Inr s'"
      using rest by (auto simp: res_bind_eq_Inr split: if_splits)
    then show ?thesis
      using kept[of s'] keep_late_frame[of ops ck call t r s s'] assms(1) by (auto simp: ls_skip)
  next
    case 3
    then obtain s1 where s1: "keep_late ops ck call t r s = Inr s1"
      and unc: "uncertain ops ck call s1 = Inr s'"
      using rest by (auto simp: res_bind_eq_Inr)
    have k: "db_ok s1 \<and> abs_leases s1 = abs_leases s" "call \<in> set (db_calls s1)"
      "db_barriers s1 = db_barriers s"
      using kept[of s1] keep_late_frame[OF s1] c by simp_all
    have "db_ok s' \<and> lease_step (abs_leases s1) [] (abs_leases s')"
      using k by (intro uncertain_step[OF _ _ unc]) simp_all
    moreover have "db_barriers s' = db_barriers s1" using uncertain_Inr[OF unc] by blast
    ultimately show ?thesis using k by simp
  next
    case 4
    then have "apply_result ops ck call t r s = Inr (b, s')" using rest by simp
    then show ?thesis
      using apply_result_step[OF assms(1,2) c 4(2) state] by blast
  qed
qed

section \<open>Every interleaving\<close>

text \<open>
  One committed transaction of the protocol, with the dispatches it lets out.  Between two
  transactions of it the rest of the system may change what it reads, open a month's budget,
  install any owned work, meter usage of its own and advance the restore epoch.
\<close>

inductive pstep ::
  "registry_of_operations \<Rightarrow> provider_db \<Rightarrow> dispatch list \<Rightarrow> provider_db \<Rightarrow> bool"
  for ops :: registry_of_operations where
  ps_reserve: "reserve_tx cfg ops ck tid lid rq s = Inr (r, s') \<Longrightarrow> pstep ops s [] s'"
| ps_claim: "claim cfg ops ck tid cid s = Inr (tk, s') \<Longrightarrow> pstep ops s [] s'"
| ps_refused: "prepare cfg ops ck t2 t3 t s = Inr (Refused e, s') \<Longrightarrow> pstep ops s [] s'"
| ps_prepared: "prepare cfg ops ck t2 t3 t s = Inr (Prepared d, s') \<Longrightarrow> pstep ops s [d] s'"
| ps_finalize: "result_ok r \<Longrightarrow> finalize ops ck t r s = Inr (b, s') \<Longrightarrow> pstep ops s [] s'"
| ps_budget: "bd_id b \<notin> bd_id ` set (lg_budgets (db_ledger s)) \<Longrightarrow>
    bd_known b = 0 \<Longrightarrow> bd_uncertain b = 0 \<Longrightarrow> bd_reserved b = 0 \<Longrightarrow>
    pstep ops s [] (s\<lparr>db_ledger := (db_ledger s)
      \<lparr>lg_budgets := lg_budgets (db_ledger s) @ [b]\<rparr>\<rparr>)"
| ps_world: "db_epoch s \<le> epoch \<Longrightarrow> db_next s \<le> next_id \<Longrightarrow>
    pstep ops s [] (s\<lparr>db_tenants := ts, db_connections := cs, db_links := ls, db_work := w,
      db_usage := us, db_epoch := epoch, db_next := next_id\<rparr>)"

inductive runs ::
  "registry_of_operations \<Rightarrow> provider_db \<Rightarrow> dispatch list \<Rightarrow> provider_db \<Rightarrow> bool"
  for ops :: registry_of_operations and s0 :: provider_db where
  runs_start: "runs ops s0 [] s0"
| runs_step: "runs ops s0 h s \<Longrightarrow> pstep ops s ds s' \<Longrightarrow> runs ops s0 (h @ ds) s'"

definition start_db :: "provider_db \<Rightarrow> bool" where
  "start_db s \<longleftrightarrow> db_calls s = [] \<and> db_barriers s = [] \<and> ledger_ok (db_ledger s)"

definition sent_key :: "dispatch \<Rightarrow> int \<times> int" where
  "sent_key d = (jr_call (dp_receipt d), jr_fence (dp_receipt d))"

definition has_effect :: "registry_of_operations \<Rightarrow> dispatch \<Rightarrow> bool" where
  "has_effect ops d =
     (case operation_for ops (jr_operation (dp_receipt d)) of
        Inl e \<Rightarrow> False | Inr op \<Rightarrow> effectful (op_class op))"

definition effect_of :: "dispatch \<Rightarrow> int \<times> int \<times> provider \<times> string" where
  "effect_of d = (let r = dp_receipt d in
     (jr_tenant r, jr_client r, jr_provider r, jr_effect_key r))"

definition barrier_key :: "effect_barrier \<Rightarrow> int \<times> int \<times> provider \<times> string" where
  "barrier_key b = (eb_tenant b, eb_client b, eb_provider b, eb_effect_key b)"

lemma find_barrier_None:
  "find_barrier s tid cid p key = None \<longleftrightarrow> (tid, cid, p, key) \<notin> barrier_key ` set (db_barriers s)"
  by (force simp: find_barrier_def find_None_iff barrier_key_def)

text \<open>What a step of the protocol does to the parts the run invariant watches.\<close>

definition step_effect ::
  "registry_of_operations \<Rightarrow> provider_db \<Rightarrow> dispatch list \<Rightarrow> provider_db \<Rightarrow> bool" where
  "step_effect ops s ds s' \<longleftrightarrow>
     db_ok s' \<and> lease_step (abs_leases s) (map sent_key ds) (abs_leases s') \<and>
     db_epoch s \<le> db_epoch s' \<and>
     (\<forall>d\<in>set ds. jr_epoch (dp_receipt d) = db_epoch s) \<and> length ds \<le> 1 \<and>
     set (db_barriers s) \<subseteq> set (db_barriers s') \<and>
     (\<forall>d\<in>set ds. has_effect ops d \<longrightarrow>
        effect_of d \<notin> barrier_key ` set (db_barriers s) \<and>
        effect_of d \<in> barrier_key ` set (db_barriers s'))"

lemma step_effect_silent:
  "db_ok s' \<and> lease_step (abs_leases s) [] (abs_leases s') \<Longrightarrow> db_epoch s \<le> db_epoch s' \<Longrightarrow>
   set (db_barriers s) \<subseteq> set (db_barriers s') \<Longrightarrow> step_effect ops s [] s'"
  by (simp add: step_effect_def)


definition same_barriers :: "provider_db \<Rightarrow> provider_db \<Rightarrow> bool" where
  "same_barriers s s' \<longleftrightarrow> db_barriers s' = db_barriers s \<and> db_epoch s' = db_epoch s"

lemma same_barriers_refl [simp]: "same_barriers s s"
  by (simp add: same_barriers_def)

lemma same_barriers_upd [simp]:
  "same_barriers s (s'\<lparr>db_calls := a\<rparr>) = same_barriers s s'"
  "same_barriers s (s'\<lparr>db_ledger := b\<rparr>) = same_barriers s s'"
  "same_barriers s (s'\<lparr>db_work := c\<rparr>) = same_barriers s s'"
  "same_barriers s (s'\<lparr>db_next := d\<rparr>) = same_barriers s s'"
  by (simp_all add: same_barriers_def)

lemma reserve_tx_barriers:
  assumes "reserve_tx cfg ops ck tid lid rq s = Inr (r, s')"
  shows "same_barriers s s'"
  using assms unfolding reserve_tx_def
  by (auto simp: Let_def save_call_def elim!: res_bind_InrE
      split: if_splits sum.splits exn.splits option.splits)

lemma claim_barriers:
  assumes "claim cfg ops ck tid cid s = Inr (r, s')"
  shows "same_barriers s s'"
proof -
  have unc: "same_barriers s s1" if "uncertain ops ck c s = Inr s1" for c s1
    using uncertain_Inr[OF that] by (simp add: same_barriers_def)
  have quota: "same_barriers s s1" if "quota_refusal ck link reason c s = Inr (c', s1)"
    for link reason c c' s1
    using that by (auto simp: quota_refusal_def res_bind_eq_Inr Let_def save_call_def same_barriers_def)
  show ?thesis
    using assms unfolding claim_def
    by (auto simp: Let_def save_call_def elim!: res_bind_InrE dest!: unc quota
        split: if_splits sum.splits exn.splits option.splits)
qed


lemma uncertain_barriers: "uncertain ops ck c s = Inr s' \<Longrightarrow> same_barriers s s'"
  using uncertain_Inr[of ops ck c s s'] by (auto simp: same_barriers_def)

lemma finalize_barriers:
  assumes "finalize ops ck t r s = Inr (b, s')"
  shows "db_epoch s' = db_epoch s"
proof -
  have late: "db_epoch s1 = db_epoch s0" if "keep_late ops ck c t r s0 = Inr s1" for c r s0 s1
    using keep_late_frame[OF that] by simp
  have superseded: "db_epoch s1 = db_epoch s0" if "record_superseded ops ck c t r s0 = Inr s1"
    for c r s0 s1
    using record_superseded_frame[OF that] by simp
  have unc: "db_epoch s1 = db_epoch s0" if "uncertain ops ck c s0 = Inr s1" for c s0 s1
    using uncertain_barriers[OF that] by (simp add: same_barriers_def)
  have obs: "db_epoch s1 = db_epoch s0" if "observe row s0 = Inr (b, s1)" for row b s0 s1
    using observe_frame[OF that] by simp
  have met: "db_epoch s1 = db_epoch s0" if "meter ops c aid r at1 s0 = Inr s1" for c aid r at1 s0 s1
    using meter_frame[OF that] by simp
  have result: "db_epoch s1 = db_epoch s" if "apply_result ops ck c t r s = Inr (b, s1)" for c r b s1
    using that unfolding apply_result_def Let_def save_call_def
    by (auto elim!: res_bind_InrE dest!: obs met unc split: if_splits)
  show ?thesis
    using assms unfolding finalize_def
    by (auto elim!: res_bind_InrE dest!: late superseded unc result split: if_splits)
qed

lemma prepare_barriers:
  assumes "prepare cfg ops ck t2 t3 t s = Inr (r, s')"
  shows "db_epoch s' = db_epoch s \<and>
    (case r of Refused e \<Rightarrow> db_barriers s' = db_barriers s
     | Prepared d \<Rightarrow> sent_key d = (tk_call t, tk_fence t) \<and> jr_epoch (dp_receipt d) = db_epoch s \<and>
         set (db_barriers s) \<subseteq> set (db_barriers s') \<and>
         (has_effect ops d \<longrightarrow> effect_of d \<notin> barrier_key ` set (db_barriers s) \<and>
                              effect_of d \<in> barrier_key ` set (db_barriers s')))"
  using assms
proof (cases rule: prepare_cases)
  case 1
  then show ?thesis by simp
next
  case (2 call c1)
  then show ?thesis using uncertain_barriers[OF 2(6)] by (simp add: same_barriers_def)
next
  case (3 call link e)
  have "db_barriers s' = db_barriers s \<and> db_epoch s' = db_epoch s"
    using refuse_dispatch_Inr[OF 3(4)] by blast
  with 3 show ?thesis by simp
next
  case (4 call op receipt)
  have receipt: "jr_call receipt = tk_call t" "jr_fence receipt = tk_fence t"
    "jr_epoch receipt = tk_epoch t" "jr_tenant receipt = tk_tenant t"
    "jr_client receipt = tk_client t" "jr_provider receipt = pc_provider call"
    "jr_effect_key receipt = pc_effect_key call" "jr_operation receipt = pc_operation call"
    using 4(8) by (auto simp: journal_started_def started_call_def)
  have epoch: "tk_epoch t = db_epoch s" using 4(5) by (simp add: ticket_current_def)
  have key: "effect_of \<lparr>dp_claim = t, dp_receipt = receipt, dp_journaled = journaled op\<rparr> =
      barrier_key (barrier_of call t receipt)"
    using receipt by (simp add: effect_of_def barrier_key_def barrier_of_def)
  have db: "db_barriers s' = db_barriers s @
      (if effectful (op_class op) then [barrier_of call t receipt] else [])"
    "db_epoch s' = db_epoch s"
    using 4(11) by (simp_all add: save_call_def)
  have "effectful (op_class op) \<longrightarrow> barrier_key (barrier_of call t receipt) \<notin>
      barrier_key ` set (db_barriers s)"
    using 4(10) by (simp add: find_barrier_None barrier_key_def barrier_of_def)
  then show ?thesis
    using 4(7,9) receipt epoch key db by (auto simp: sent_key_def has_effect_def)
qed

lemma ledger_ok_new_budget:
  assumes "ledger_ok L" "bd_id b \<notin> bd_id ` set (lg_budgets L)"
    "bd_known b = 0" "bd_uncertain b = 0" "bd_reserved b = 0"
  shows "ledger_ok (L\<lparr>lg_budgets := lg_budgets L @ [b]\<rparr>)"
proof -
  have "hd_budget h \<noteq> bd_id b" if "h \<in> set (lg_holds L)" for h
    using assms(1,2) that unfolding ledger_ok_def by metis
  then have "map (exposure (bd_id b) st) (lg_holds L) = map (\<lambda>h. 0) (lg_holds L)" for st
    by (auto simp: exposure_def)
  then have "held_sum (lg_holds L) (bd_id b) st = 0" for st
    by (simp only: held_sum_def sum_list_0)
  then show ?thesis using assms by (auto simp: ledger_ok_def buckets_ok_def)
qed

lemma pstep_effect:
  assumes "pstep ops s ds s'" "db_ok s" "lawful ops"
  shows "step_effect ops s ds s'"
  using assms(1)
proof cases
  case (ps_reserve cfg ck tid lid rq r)
  then show ?thesis
    using reserve_tx_step[OF assms(2,3)] reserve_tx_barriers
    by (simp add: step_effect_silent same_barriers_def)
next
  case (ps_claim cfg ck tid cid tk)
  then show ?thesis
    using claim_step[OF assms(2,3)] claim_barriers
    by (simp add: step_effect_silent same_barriers_def)
next
  case (ps_refused cfg ck t2 t3 t e)
  then show ?thesis
    using prepare_step[OF assms(2) ps_refused(2)] prepare_barriers[OF ps_refused(2)]
    by (simp add: step_effect_silent)
next
  case (ps_prepared cfg ck t2 t3 t d)
  then show ?thesis
    using prepare_step[OF assms(2) ps_prepared(2)] prepare_barriers[OF ps_prepared(2)]
    by (simp add: step_effect_def)
next
  case (ps_finalize r ck t b)
  then show ?thesis
    using finalize_step[OF assms(2,3) ps_finalize(2,3)] finalize_barriers[OF ps_finalize(3)]
    by (simp add: step_effect_silent)
next
  case (ps_budget b)
  have "db_ok s'" using assms(2) ps_budget by (auto simp: db_ok_def ledger_ok_new_budget)
  then show ?thesis
    using ps_budget abs_leases_same[of s' s] by (simp add: step_effect_silent ls_skip)
next
  case (ps_world epoch next_id ts cs ls w us)
  have "db_ok s'" using assms(2) ps_world by (force simp: db_ok_def)
  then show ?thesis
    using ps_world abs_leases_same[of s' s] by (simp add: step_effect_silent ls_skip)
qed


definition run_inv :: "registry_of_operations \<Rightarrow> dispatch list \<Rightarrow> provider_db \<Rightarrow> bool" where
  "run_inv ops h s \<longleftrightarrow>
     db_ok s \<and> lease_inv (abs_leases s) (map sent_key h) \<and>
     sorted (map (\<lambda>d. jr_epoch (dp_receipt d)) h) \<and>
     (\<forall>d\<in>set h. jr_epoch (dp_receipt d) \<le> db_epoch s) \<and>
     distinct (map effect_of (filter (has_effect ops) h)) \<and>
     (\<forall>d\<in>set h. has_effect ops d \<longrightarrow> effect_of d \<in> barrier_key ` set (db_barriers s))"

lemma run_inv_start: "start_db s \<Longrightarrow> run_inv ops [] s"
  by (auto simp: run_inv_def start_db_def db_ok_def lease_inv_def abs_leases_def row_get_def)

lemma run_inv_step:
  assumes "run_inv ops h s" "step_effect ops s ds s'"
  shows "run_inv ops (h @ ds) s'"
proof -
  have eff: "db_ok s'" "lease_step (abs_leases s) (map sent_key ds) (abs_leases s')"
    "db_epoch s \<le> db_epoch s'" "set (db_barriers s) \<subseteq> set (db_barriers s')" "length ds \<le> 1"
    "\<And>d. d \<in> set ds \<Longrightarrow> jr_epoch (dp_receipt d) = db_epoch s"
    "\<And>d. d \<in> set ds \<Longrightarrow> has_effect ops d \<Longrightarrow> effect_of d \<notin> barrier_key ` set (db_barriers s)"
    "\<And>d. d \<in> set ds \<Longrightarrow> has_effect ops d \<Longrightarrow> effect_of d \<in> barrier_key ` set (db_barriers s')"
    using assms(2) by (auto simp: step_effect_def)
  have inv: "db_ok s" "lease_inv (abs_leases s) (map sent_key h)"
    "sorted (map (\<lambda>d. jr_epoch (dp_receipt d)) h)"
    "\<And>d. d \<in> set h \<Longrightarrow> jr_epoch (dp_receipt d) \<le> db_epoch s"
    "distinct (map effect_of (filter (has_effect ops) h))"
    "\<And>d. d \<in> set h \<Longrightarrow> has_effect ops d \<Longrightarrow> effect_of d \<in> barrier_key ` set (db_barriers s)"
    using assms(1) by (auto simp: run_inv_def)
  have small: "ds = [] \<or> (\<exists>d. ds = [d])" using eff(5) by (cases ds) auto
  have "lease_inv (abs_leases s') (map sent_key (h @ ds))"
    using lease_inv_step[OF eff(2) inv(2)] by simp
  moreover have "sorted (map (\<lambda>d. jr_epoch (dp_receipt d)) (h @ ds))"
    using small inv(3,4) eff(6) by (auto simp: sorted_append)
  moreover have "distinct (map effect_of (filter (has_effect ops) (h @ ds)))"
  proof -
    have "effect_of x \<noteq> effect_of d"
      if "x \<in> set h" "has_effect ops x" "d \<in> set ds" "has_effect ops d" for x d
      using inv(6)[OF that(1,2)] eff(7)[OF that(3,4)] by metis
    then show ?thesis using small inv(5) by (auto simp: image_iff) metis
  qed
  moreover have "\<forall>d\<in>set (h @ ds). has_effect ops d \<longrightarrow>
      effect_of d \<in> barrier_key ` set (db_barriers s')"
    using inv(6) eff(8) image_mono[OF eff(4), of barrier_key] by auto
  moreover have "\<forall>d\<in>set (h @ ds). jr_epoch (dp_receipt d) \<le> db_epoch s'"
    using inv(4) eff(3,6) by fastforce
  ultimately show ?thesis using eff(1) by (simp add: run_inv_def)
qed

lemma runs_inv:
  assumes "runs ops s0 h s" "start_db s0" "lawful ops"
  shows "run_inv ops h s"
  using assms(1)
proof induction
  case runs_start
  then show ?case by (rule run_inv_start[OF assms(2)])
next
  case (runs_step h s ds s')
  then have "step_effect ops s ds s'" using assms(3) by (simp add: pstep_effect run_inv_def)
  then show ?case by (rule run_inv_step[OF runs_step.IH])
qed

end
