(* ===== verification/Provider_Guarantees.thy ===== *)
theory Provider_Guarantees
  imports Provider_Safety
begin

text \<open>
  The guarantees of the provider protocol, each over every interleaving of its transactions, or
  of one transaction from any database.  A small firm with one issuance operation under the
  production budget policy serves as the concrete instance.
\<close>

section \<open>A concrete firm\<close>

definition demo_settings :: provider_settings where
  "demo_settings =
     \<lparr>ps_providers_paused = False, ps_paused = (\<lambda>_. False), ps_environment = (\<lambda>_. FAKE),
      ps_real_data_approved = False, ps_global_cap = (\<lambda>_. Some (Amount 100)),
      ps_unit_price = (\<lambda>_. Some (Amount 2)),
      ps_disabled_features = []\<rparr>"

definition demo_operation :: operation where
  "demo_operation =
     \<lparr>op_code = ''CND'', op_provider = SERPRO, op_revision = ''r1'', op_class = Issuance_Op,
      op_feature = FEDERAL_CHECKS, op_billing = EMISSAO,
      op_policy = budget_policy demo_settings (\<lambda>_. True)\<rparr>"

definition demo_operations :: registry_of_operations where
  "demo_operations = [(''CND'', demo_operation)]"

definition demo_clock :: "int \<Rightarrow> clock" where
  "demo_clock now = \<lparr>ck_now = now, ck_today = Date 2026 1 5\<rparr>"

definition demo_db :: provider_db where
  "demo_db =
     \<lparr>db_tenants = [\<lparr>tn_id = 1, tn_active = True,
        tn_features = [''cycles_r1'', ''scan_required'', ''federal_checks'']\<rparr>],
      db_connections = [\<lparr>cn_id = 5, cn_tenant = 1, cn_provider = SERPRO, cn_environment = FAKE,
                          cn_status = ''ativa'', cn_version = 1\<rparr>],
      db_links = [\<lparr>lk_id = 7, lk_tenant = 1, lk_client = 3, lk_connection = 5,
                    lk_status = ''ativa'', lk_disablement = ''ativa'', lk_credential_state = ''ativa'',
                    lk_version = 1, lk_generation = 1\<rparr>],
      db_calls = [], db_attempts = [], db_barriers = [], db_usage = [],
      db_ledger = \<lparr>lg_tenants = [1],
        lg_budgets = [\<lparr>bd_id = 9, bd_tenant = 1, bd_provider = SERPRO, bd_window = Date 1970 1 1,
          bd_cap = 50000000, bd_known = 0, bd_uncertain = 0, bd_reserved = 0,
          bd_tariff = ''serpro-2026'', bd_version = 1\<rparr>],
        lg_holds = []\<rparr>,
      db_work = \<lparr>wk_engagements = [], wk_memberships = [], wk_issues = [], wk_cycles = [],
        wk_exceptions = [], wk_audit = [], wk_next = 1\<rparr>,
      db_epoch = 1, db_next = 100\<rparr>"

definition demo_request :: call_request where
  "demo_request =
     (let k = replicate 64 (CHR ''a'') in
      \<lparr>rq_operation = ''CND'', rq_key = k, rq_digest = k, rq_effect_key = k\<rparr>)"

definition demo_reserved :: provider_db where
  "demo_reserved =
     (case reserve_tx demo_settings demo_operations (demo_clock 0) 1 7 demo_request demo_db of
        Inr (_, s) \<Rightarrow> s | Inl _ \<Rightarrow> demo_db)"

definition demo_claimed :: "(provider_db \<times> claim_ticket) option" where
  "demo_claimed =
     (case claim demo_settings demo_operations (demo_clock 10) 1 100 demo_reserved of
        Inr (Some t, s) \<Rightarrow> Some (s, t) | _ \<Rightarrow> None)"

definition demo_sent :: "(provider_db \<times> dispatch) option" where
  "demo_sent =
     (case demo_claimed of
        Some (s, t) \<Rightarrow>
          (case prepare demo_settings demo_operations (demo_clock 20) 20 20 t s of
             Inr (Prepared d, s') \<Rightarrow> Some (s', d) | _ \<Rightarrow> None)
      | None \<Rightarrow> None)"


lemma demo_operations_lawful: "lawful demo_operations"
  by (rule lawful_budget) (auto simp: demo_operations_def demo_operation_def)

lemma demo_db_start: "start_db demo_db"
  by (auto simp: start_db_def demo_db_def ledger_ok_def buckets_ok_def held_sum_def)

lemma demo_sent_some: "demo_sent \<noteq> None"
  by code_simp

lemma demo_reserved_step: "pstep demo_operations demo_db [] demo_reserved"
proof -
  have "\<not> isl (reserve_tx demo_settings demo_operations (demo_clock 0) 1 7 demo_request demo_db)"
    by code_simp
  then obtain x where
    x: "reserve_tx demo_settings demo_operations (demo_clock 0) 1 7 demo_request demo_db = Inr x"
    by (metis sum.collapse(2))
  then show ?thesis
    by (cases x) (auto simp: demo_reserved_def intro: ps_reserve)
qed

lemma demo_run: "\<exists>s d. demo_sent = Some (s, d) \<and> runs demo_operations demo_db [d] s"
proof -
  obtain s1 t s2 d where
    claimed: "claim demo_settings demo_operations (demo_clock 10) 1 100 demo_reserved = Inr (Some t, s1)"
    and sent: "prepare demo_settings demo_operations (demo_clock 20) 20 20 t s1 = Inr (Prepared d, s2)"
    and some: "demo_sent = Some (s2, d)"
    using demo_sent_some
    by (auto simp: demo_sent_def demo_claimed_def split: option.splits sum.splits prod.splits
        prepared.splits)
  have "runs demo_operations demo_db ([] @ []) demo_reserved"
    by (rule runs_step[OF runs_start demo_reserved_step])
  then have "runs demo_operations demo_db (([] @ []) @ []) s1"
    by (rule runs_step) (rule ps_claim[OF claimed])
  then have "runs demo_operations demo_db ((([] @ []) @ []) @ [d]) s2"
    by (rule runs_step) (rule ps_prepared[OF sent])
  then show ?thesis using some by auto
qed

lemma demo_sent_effect: "map_option (has_effect demo_operations \<circ> snd) demo_sent = Some True"
  by code_simp

section \<open>Every interleaving of the protocol\<close>

lemma demo_witness:
  "\<exists>h s. runs demo_operations demo_db h s \<and> length (filter (has_effect demo_operations) h) = 1"
proof -
  obtain s d where sd: "demo_sent = Some (s, d)" "runs demo_operations demo_db [d] s"
    using demo_run by blast
  have "has_effect demo_operations d" using demo_sent_effect unfolding sd(1) by simp
  then show ?thesis using sd(2) by (intro exI[of _ "[d]"] exI[of _ s]) simp
qed



text \<open>C3: Over every interleaving, a claim is dispatched at most once: no two dispatches carry the
  same call and fence.\<close>
theorem claims_dispatch_once:
  assumes "runs ops s0 h s" "start_db s0" "lawful ops"
  shows "distinct (map sent_key h)"
  using runs_inv[OF assms] by (simp add: run_inv_def lease_inv_def)

theorem claims_dispatch_once_witness:
  "\<exists>h s. runs demo_operations demo_db h s \<and> h \<noteq> [] \<and> distinct (map sent_key h)"
proof -
  obtain h s where "runs demo_operations demo_db h s" "h \<noteq> []" using demo_witness by force
  then show ?thesis
    using claims_dispatch_once[OF _ demo_db_start demo_operations_lawful] by blast
qed

text \<open>C20: Over every interleaving, one call is transmitted at most three times, the attempt ceiling.\<close>
theorem dispatch_ceiling:
  assumes "runs ops s0 h s" "start_db s0" "lawful ops"
  shows "int (length (filter (\<lambda>d. jr_call (dp_receipt d) = c) h)) \<le> MAX_ATTEMPTS"
proof -
  have inv: "lease_inv (abs_leases s) (map sent_key h)"
    using runs_inv[OF assms] by (simp add: run_inv_def)
  have "sends_of c (map sent_key h) = length (filter (\<lambda>d. jr_call (dp_receipt d) = c) h)"
    by (simp add: sends_of_def filter_map o_def sent_key_def)
  moreover have "int (sends_of c (map sent_key h)) \<le> MAX_ATTEMPTS"
  proof (cases "abs_leases s c")
    case None
    then show ?thesis using sends_of_absent[OF None inv] by (simp add: MAX_ATTEMPTS_def)
  next
    case (Some l)
    then show ?thesis using inv by (fastforce simp: lease_inv_def)
  qed
  ultimately show ?thesis by simp
qed

theorem dispatch_ceiling_witness:
  "\<exists>h s. runs demo_operations demo_db h s \<and> h \<noteq> [] \<and>
     int (length (filter (\<lambda>d. jr_call (dp_receipt d) = 100) h)) \<le> MAX_ATTEMPTS"
proof -
  obtain h s where "runs demo_operations demo_db h s" "h \<noteq> []" using demo_witness by force
  then show ?thesis
    using dispatch_ceiling[OF _ demo_db_start demo_operations_lawful] by blast
qed





text \<open>C7: Refinement: each transaction of the protocol, the guards and failure branches of every
  operation included, is a step of the lease automaton, which grants a lease only below the
  attempt ceiling, sends only under an open lease and closes it by sending.\<close>
theorem protocol_refines_leases:
  assumes "pstep ops s ds s'" "db_ok s" "lawful ops"
  shows "lease_step (abs_leases s) (map sent_key ds) (abs_leases s')"
  using pstep_effect[OF assms] by (simp add: step_effect_def)

theorem protocol_refines_leases_witness:
  "\<exists>s'. pstep demo_operations demo_db [] s' \<and> lease_step (abs_leases demo_db) [] (abs_leases s')"
proof -
  have "db_ok demo_db" using run_inv_start[OF demo_db_start] by (simp add: run_inv_def)
  then show ?thesis
    using protocol_refines_leases[OF demo_reserved_step _ demo_operations_lawful] demo_reserved_step
    by auto
qed

section \<open>One transaction\<close>

definition within_ceilings :: "provider_settings \<Rightarrow> ledger \<Rightarrow> int \<Rightarrow> provider \<Rightarrow> date \<Rightarrow> bool" where
  "within_ceilings cfg L tid p month =
     (case month_budget L tid p month of
        None \<Rightarrow> False
      | Some b \<Rightarrow> bd_total b \<le> bd_cap b \<and>
          (case microbrl (ps_global_cap cfg p) of
             Inl e \<Rightarrow> False | Inr cap \<Rightarrow> platform_total L p month \<le> cap))"

text \<open>C15: A granted reservation of money leaves the firm's month within its own cap and the
  platform's month within the global cap, everything known, uncertain and reserved counted.\<close>
theorem reservation_within_ceilings:
  assumes "ledger_ok L" "distinct (lg_tenants L)"
    "budget_reserve cfg ck link call (L, w) = Inr (quoted, (L', w'))"
    "\<not> (pc_provider call = FOCUS \<and> rv_micro quoted = 0)"
  shows "within_ceilings cfg L' (pc_tenant call) (pc_provider call) (this_month (ck_now ck))"
  using budget_reserve_caps[OF assms] by (auto simp: within_ceilings_def)

theorem reservation_within_ceilings_witness:
  "\<exists>call quoted L' w'.
     budget_reserve demo_settings (demo_clock 0) (hd (db_links demo_db)) call
       (db_ledger demo_db, db_work demo_db) = Inr (quoted, (L', w')) \<and>
     rv_micro quoted = 2000000 \<and>
     within_ceilings demo_settings L' (pc_tenant call) (pc_provider call) (Date 1970 1 1)"
proof -
  define call where "call = new_call demo_db (demo_clock 0) 1 (hd (db_links demo_db))
    (hd (db_connections demo_db)) demo_operation demo_request"
  have "(case budget_reserve demo_settings (demo_clock 0) (hd (db_links demo_db)) call
      (db_ledger demo_db, db_work demo_db) of Inr (q, _) \<Rightarrow> rv_micro q = 2000000 | Inl _ \<Rightarrow> False)"
    unfolding call_def by code_simp
  then obtain quoted L' w' where
    r: "budget_reserve demo_settings (demo_clock 0) (hd (db_links demo_db)) call
        (db_ledger demo_db, db_work demo_db) = Inr (quoted, (L', w'))" "rv_micro quoted = 2000000"
    by (auto split: sum.splits prod.splits)
  have "ledger_ok (db_ledger demo_db)" using demo_db_start by (simp add: start_db_def)
  moreover have "distinct (lg_tenants (db_ledger demo_db))" by (simp add: demo_db_def)
  moreover have "this_month (ck_now (demo_clock 0)) = Date 1970 1 1" by code_simp
  ultimately show ?thesis
    using reservation_within_ceilings[OF _ _ r(1)] r by (metis zero_neq_numeral)
qed

text \<open>A reservation the budget refuses is kept as a quota row with the reason, and moves no money.\<close>
theorem denied_reservation_costs_nothing:
  assumes "db_ok s" "reserve_tx cfg ops ck tid lid rq s = Inr ((call, Some e), s')"
  shows "e = BudgetDenied (pc_provider_code call) \<and> pc_state call = QUOTA \<and>
    db_calls s' = db_calls s @ [call] \<and> db_ledger s' = db_ledger s"
proof -
  have "\<forall>x\<in>set (db_calls s). pc_id x \<noteq> db_next s" using assms(1) by (auto simp: db_ok_def)
  then have put: "row_put pc_id c (db_calls s) = db_calls s" if "pc_id c = db_next s" for c
    using that by (simp add: row_put_def map_idI)
  show ?thesis
    using assms(2) unfolding reserve_tx_def
    by (auto simp: Let_def save_call_def new_call_def put elim!: res_bind_InrE
        split: if_splits sum.splits exn.splits option.splits)
qed

text \<open>The same firm with a cap of one millionth of a real, and nobody to own the refusal yet.\<close>

definition poor_db :: provider_db where
  "poor_db = demo_db\<lparr>db_ledger := (db_ledger demo_db)
     \<lparr>lg_budgets := map (\<lambda>b. b\<lparr>bd_cap := 1\<rparr>) (lg_budgets (db_ledger demo_db))\<rparr>,
     db_work := (db_work demo_db)
     \<lparr>wk_memberships := [\<lparr>mb_tenant = 1, mb_user = 4, mb_client = None, mb_active = True,
        mb_is_owner = True, mb_created_at = 0, mb_id = 1\<rparr>]\<rparr>\<rparr>"

theorem denied_reservation_costs_nothing_witness:
  "\<exists>call s'. reserve_tx demo_settings demo_operations (demo_clock 0) 1 7 demo_request poor_db =
       Inr ((call, Some (BudgetDenied ''cota_esgotada'')), s') \<and>
     pc_state call = QUOTA \<and> db_calls s' = [call] \<and> db_ledger s' = db_ledger poor_db"
proof -
  have "(case reserve_tx demo_settings demo_operations (demo_clock 0) 1 7 demo_request poor_db of
      Inr ((_, d), _) \<Rightarrow> d = Some (BudgetDenied ''cota_esgotada'') | Inl _ \<Rightarrow> False)"
    by code_simp
  then obtain call s' where
    r: "reserve_tx demo_settings demo_operations (demo_clock 0) 1 7 demo_request poor_db =
        Inr ((call, Some (BudgetDenied ''cota_esgotada'')), s')"
    by (auto split: sum.splits prod.splits)
  have "db_ok poor_db"
    by (auto simp: db_ok_def poor_db_def demo_db_def ledger_ok_def buckets_ok_def held_sum_def)
  then show ?thesis
    using denied_reservation_costs_nothing[OF _ r] r by (auto simp: poor_db_def demo_db_def)
qed

end
