(* ===== verification/Provider_Replies.thy ===== *)
theory Provider_Replies
  imports Provider_Guarantees
begin

text \<open>
  What a reply leaves behind: the row it finalizes, the observation it records, the money it
  settles and the receipts that precede it.
\<close>

section \<open>A reply finalizes once\<close>

text \<open>The call row an accepted reply leaves: the same claim, no longer started.\<close>

definition answered :: "provider_call \<Rightarrow> provider_call \<Rightarrow> bool" where
  "answered c c' \<longleftrightarrow>
     pc_id c' = pc_id c \<and> pc_client c' = pc_client c \<and> pc_tenant c' = pc_tenant c \<and>
     pc_operation c' = pc_operation c \<and> pc_fence c' = pc_fence c \<and>
     pc_lease_owner c' = pc_lease_owner c \<and> pc_epoch c' = pc_epoch c \<and> pc_state c' \<noteq> STARTED"

lemma row_put_put:
  "key r = key r' \<Longrightarrow> row_put key r' (row_put key r rows) = row_put key r' rows"
  by (simp add: row_put_def)

lemma find_attempt_observe:
  assumes "observe row s = Inr (b, s')"
  shows "find_attempt s' (at_call row) (at_attempt_id row) (at_observation row) \<noteq> None"
proof (cases "find_attempt s (at_call row) (at_attempt_id row) (at_observation row)")
  case None
  then have "s' = s\<lparr>db_attempts := db_attempts s @ [row]\<rparr>" using assms by (simp add: observe_def)
  then show ?thesis by (auto simp: find_attempt_def find_None_iff)
next
  case (Some a)
  then have "s' = s" using assms by (simp add: observe_def split: if_splits)
  with Some show ?thesis by simp
qed

lemma apply_result_answered:
  assumes "rs_state r0 \<notin> {CLAIMED, STARTED}" "apply_result ops ck call t r0 s = Inr (b, s')"
  shows "\<exists>c'. db_calls s' = row_put pc_id c' (db_calls s) \<and> answered call c' \<and>
    has_result s' c' (tk_owner t) \<and> db_epoch s' = db_epoch s"
proof -
  obtain r call1 created s1 s2 where
    retry: "retry_outcome ck call r0 = Inr (r, call1)"
    and obs: "observe (late_row ck call t OBS_RESULT r) s = Inr (created, s1)"
    and settle: "(if created then
        res_bind (operation_for ops (pc_operation call1)) (\<lambda>op.
        res_bind (ph_settle (op_policy op) call1 r (db_ledger s1)) (\<lambda>L.
          meter ops call1 (tk_owner t) r (at_occurred_at (late_row ck call t OBS_RESULT r))
            (s1\<lparr>db_ledger := L\<rparr>)))
      else Inr s1) = Inr s2"
    and last: "(if pc_state (finalized ck r call1) = UNCERTAIN
        then res_bind (uncertain ops ck (finalized ck r call1) (save_call (finalized ck r call1) s2))
               (\<lambda>s4. Inr (True, s4))
        else Inr (True, save_call (finalized ck r call1) s2)) = Inr (b, s')"
    using assms(2) unfolding apply_result_def Let_def
    by (auto simp only: res_bind_eq_Inr split_paired_Ex case_prod_conv)
  have ans: "answered call (finalized ck r call1)"
    using retry assms(1)
    by (auto simp: retry_outcome_def res_bind_eq_Inr answered_def finalized_def split: if_splits)
  have s2: "db_calls s2 = db_calls s" "db_attempts s2 = db_attempts s1" "db_epoch s2 = db_epoch s"
  proof -
    have "db_calls s2 = db_calls s1 \<and> db_attempts s2 = db_attempts s1 \<and> db_epoch s2 = db_epoch s1"
      using settle by (auto elim!: res_bind_InrE dest!: meter_frame split: if_splits)
    then show "db_calls s2 = db_calls s" "db_attempts s2 = db_attempts s1" "db_epoch s2 = db_epoch s"
      using observe_frame[OF obs] by simp_all
  qed
  have seen: "find_attempt s1 (pc_id call) (tk_owner t) OBS_RESULT \<noteq> None"
    using find_attempt_observe[OF obs] by (simp add: late_row_def attempt_row_def)
  define c2 where "c2 = finalized ck r call1"
  consider "s' = save_call c2 s2"
    | "uncertain ops ck c2 (save_call c2 s2) = Inr s'"
    using last by (auto simp: c2_def res_bind_eq_Inr split: if_splits)
  then show ?thesis
  proof cases
    case 1
    then show ?thesis
      using ans s2 seen
      by (intro exI[of _ c2])
        (simp add: c2_def save_call_def has_result_def find_attempt_def answered_def)
  next
    case 2
    define c3 where "c3 = c2\<lparr>pc_state := UNCERTAIN, pc_version := pc_version c2 + 1,
      pc_updated_at := ck_now ck\<rparr>"
    have "db_calls s' = row_put pc_id c3 (db_calls (save_call c2 s2))"
      "db_attempts s' = db_attempts s1" "db_epoch s' = db_epoch s"
      using uncertain_Inr[OF 2] s2 by (auto simp: c3_def save_call_def)
    moreover have "answered call c3" using ans by (simp add: answered_def c3_def c2_def)
    ultimately show ?thesis
      using s2 seen
      by (intro exI[of _ c3])
        (simp add: c3_def save_call_def has_result_def find_attempt_def answered_def row_put_put)
  qed
qed

definition the_call :: "claim_ticket \<Rightarrow> provider_call list \<Rightarrow> provider_call option" where
  "the_call t rows =
     find (\<lambda>c. pc_id c = tk_call t \<and> pc_client c = tk_client t \<and> pc_tenant c = tk_tenant t) rows"

lemma the_call_Some:
  assumes "the_call t rows = Some c"
  shows "c \<in> set rows" "pc_id c = tk_call t" "pc_client c = tk_client t" "pc_tenant c = tk_tenant t"
  using found_call[of "tk_call t" "\<lambda>c. pc_client c = tk_client t \<and> pc_tenant c = tk_tenant t"]
    assms unfolding the_call_def by blast+

lemma finalize_Inr:
  assumes "finalize ops ck t r0 s = Inr (b, s')"
  obtains call r where "the_call t (db_calls s) = Some call"
    "billing_result ops (pc_operation call) (pc_provider call) (pc_billing call)
        (pc_reserved call) r0 = Inr r"
    "(if \<not> ticket_current s call t
       then res_bind (record_superseded ops ck call t r s) (\<lambda>s'. Inr (False, s'))
       else if pc_state call \<noteq> STARTED then
         (if pc_dispatch_started_at call \<noteq> None \<and> \<not> has_result s call (tk_owner t)
          then res_bind (keep_late ops ck call t r s) (\<lambda>s'. Inr (False, s'))
          else Inr (False, s))
       else if (case pc_lease_until call of None \<Rightarrow> True | Some l \<Rightarrow> l \<le> ck_now ck) then
         res_bind (keep_late ops ck call t r s) (\<lambda>s1.
         res_bind (uncertain ops ck call s1) (\<lambda>s2. Inr (False, s2)))
       else apply_result ops ck call t r s) = Inr (b, s')"
  using assms unfolding finalize_def
  by (elim res_bind_InrE)
    (drule iffD1[OF the_row_eq_Inr], erule (2) that[unfolded the_call_def])

lemma finalize_accepted:
  assumes "finalize ops ck t r0 s = Inr (True, s')" "the_call t (db_calls s) = Some call"
  obtains r where "ticket_current s call t" "pc_state call = STARTED"
    "billing_result ops (pc_operation call) (pc_provider call) (pc_billing call)
        (pc_reserved call) r0 = Inr r"
    "apply_result ops ck call t r s = Inr (True, s')"
  using assms(1)
proof (cases rule: finalize_Inr)
  case (1 c r)
  have c: "c = call" using 1(1) assms(2) by simp
  have "ticket_current s call t" "pc_state call = STARTED"
      "apply_result ops ck call t r s = Inr (True, s')"
    using 1(3) unfolding c by (auto elim!: res_bind_InrE split: if_splits)
  then show ?thesis using that 1(2) unfolding c by blast
qed

lemma the_call_answered:
  assumes "db_ok s" "the_call t (db_calls s) = Some call" "answered call c'"
  shows "the_call t (row_put pc_id c' (db_calls s)) = Some c'"
  unfolding the_call_def
  using assms the_call_Some[OF assms(2)]
  by (intro find_row_put[of _ _ call]) (auto simp: the_call_def answered_def db_ok_def)

lemma billing_result_known:
  assumes "billing_result ops code p bc m r0 = Inr r"
  shows "\<exists>r'. billing_result ops code p' bc' m' r1 = Inr r'"
  using assms by (auto simp: billing_result_def res_bind_eq_Inr)


definition demo_result :: call_result where
  "demo_result =
     \<lparr>rs_state = SUCCESS, rs_http_status = Some 200, rs_provider_code = ''ok'', rs_billed = SIM,
      rs_digest = replicate 64 (CHR ''a''), rs_settled = Some 2000000\<rparr>"

lemma demo_reply:
  "\<exists>s d s1. demo_sent = Some (s, d) \<and> db_ok s \<and>
     finalize demo_operations (demo_clock 30) (dp_claim d) demo_result s = Inr (True, s1)"
proof -
  obtain s d where sd: "demo_sent = Some (s, d)" "runs demo_operations demo_db [d] s"
    using demo_run by blast
  have "(case demo_sent of None \<Rightarrow> False | Some (s, d) \<Rightarrow>
      (case finalize demo_operations (demo_clock 30) (dp_claim d) demo_result s of
         Inl _ \<Rightarrow> False | Inr (b, _) \<Rightarrow> b))"
    by code_simp
  then obtain s1 where "finalize demo_operations (demo_clock 30) (dp_claim d) demo_result s = Inr (True, s1)"
    unfolding sd(1) by (auto split: sum.splits)
  moreover have "db_ok s"
    using runs_inv[OF sd(2) demo_db_start demo_operations_lawful] by (simp add: run_inv_def)
  ultimately show ?thesis using sd(1) by blast
qed


text \<open>C25: A reply under a claim that is no longer current (fenced, reclaimed or from an earlier
  epoch) leaves every call and the whole ledger as they are.\<close>
theorem stale_reply_changes_no_call:
  assumes "the_call t (db_calls s) = Some call" "\<not> ticket_current s call t"
    "finalize ops ck t r0 s = Inr (b, s')"
  shows "\<not> b \<and> db_calls s' = db_calls s \<and> db_ledger s' = db_ledger s"
  using assms(3)
proof (cases rule: finalize_Inr)
  case (1 c r)
  then have "record_superseded ops ck call t r s = Inr s' \<and> \<not> b"
    using assms(1,2) by (auto elim!: res_bind_InrE)
  then show ?thesis using record_superseded_frame by blast
qed

theorem stale_reply_changes_no_call_witness:
  "\<exists>s d s'. demo_sent = Some (s, d) \<and>
     finalize demo_operations (demo_clock 30) (dp_claim d) demo_result (s\<lparr>db_epoch := 2\<rparr>)
       = Inr (False, s') \<and>
     db_calls s' = db_calls s \<and> db_ledger s' = db_ledger s"
proof -
  have "(case demo_sent of None \<Rightarrow> False | Some (s, d) \<Rightarrow>
      (case finalize demo_operations (demo_clock 30) (dp_claim d) demo_result (s\<lparr>db_epoch := 2\<rparr>) of
         Inl _ \<Rightarrow> False | Inr (b, _) \<Rightarrow> True) \<and>
      (case the_call (dp_claim d) (db_calls s) of None \<Rightarrow> False
       | Some c \<Rightarrow> \<not> ticket_current (s\<lparr>db_epoch := 2\<rparr>) c (dp_claim d)))"
    by code_simp
  moreover obtain s d where sd: "demo_sent = Some (s, d)" using demo_reply by blast
  ultimately have "(case finalize demo_operations (demo_clock 30) (dp_claim d) demo_result (s\<lparr>db_epoch := 2\<rparr>) of
      Inl _ \<Rightarrow> False | Inr (b, _) \<Rightarrow> True) \<and>
      (case the_call (dp_claim d) (db_calls s) of None \<Rightarrow> False
       | Some c \<Rightarrow> \<not> ticket_current (s\<lparr>db_epoch := 2\<rparr>) c (dp_claim d))"
    unfolding sd by (simp only: option.case prod.case)
  then have "(case finalize demo_operations (demo_clock 30) (dp_claim d) demo_result (s\<lparr>db_epoch := 2\<rparr>) of
      Inl _ \<Rightarrow> False | Inr (b, _) \<Rightarrow> True)"
    and cur: "(case the_call (dp_claim d) (db_calls s) of None \<Rightarrow> False
       | Some c \<Rightarrow> \<not> ticket_current (s\<lparr>db_epoch := 2\<rparr>) c (dp_claim d))"
    by blast+
  then obtain b s' where
    fin: "finalize demo_operations (demo_clock 30) (dp_claim d) demo_result (s\<lparr>db_epoch := 2\<rparr>)
       = Inr (b, s')"
    by (auto split: sum.splits)
  from cur obtain c where c: "the_call (dp_claim d) (db_calls s) = Some c"
      "\<not> ticket_current (s\<lparr>db_epoch := 2\<rparr>) c (dp_claim d)"
    by (auto split: option.splits)
  show ?thesis
    using stale_reply_changes_no_call[OF _ c(2) fin] c(1) sd fin by auto
qed


section \<open>Money settles once\<close>

text \<open>An attempt settled as billed or as free is final: no later settlement of the same
  attempt, whatever it reports, moves the ledger again.\<close>
theorem settlement_is_final:
  assumes "budget_settle call r L = Inr L1" "rs_billed (classify_call call r) \<noteq> DESCONHECIDO"
    "pc_id call' = pc_id call" "pc_attempts call' = pc_attempts call"
  shows "budget_settle call' r' L1 = Inr L1"
proof (cases "\<exists>h. find_hold L (pc_id call) (pc_attempts call) = Some h \<and> settled_state (hd_state h)")
  case True
  then obtain h where h: "find_hold L (pc_id call) (pc_attempts call) = Some h"
    "settled_state (hd_state h)" by blast
  then have "L1 = L" using settle_settled[OF h, of r] assms(1) by simp
  then show ?thesis using h assms(3,4) by (intro settle_settled[of _ call' h]) simp_all
next
  case False
  then obtain h where h: "find_hold L1 (pc_id call) (pc_attempts call) = Some h"
    "hd_state h = target_of (rs_billed (classify_call call r))"
    using settle_state[OF assms(1)] by (cases "find_hold L (pc_id call) (pc_attempts call)") auto
  have "settled_state (hd_state h)"
    using h(2) assms(2) by (cases "rs_billed (classify_call call r)") (simp_all add: settled_state_def)
  then show ?thesis using h(1) assms(3,4) by (intro settle_settled[of _ call' h]) simp_all
qed

definition demo_call :: provider_call where
  "demo_call = started_call \<lparr>tk_tenant = 1, tk_client = 3, tk_call = 100, tk_fence = 1,
     tk_owner = 101, tk_epoch = 1\<rparr> 20 (hd (db_calls demo_reserved))"

theorem settlement_is_final_witness:
  "\<exists>L1. budget_settle demo_call demo_result (db_ledger demo_reserved) = Inr L1 \<and>
     L1 \<noteq> db_ledger demo_reserved \<and> budget_settle demo_call lease_lost L1 = Inr L1"
proof -
  have "(case budget_settle demo_call demo_result (db_ledger demo_reserved) of
      Inl _ \<Rightarrow> False | Inr L1 \<Rightarrow> map hd_state (lg_holds L1) = [KNOWN]) \<and>
      map hd_state (lg_holds (db_ledger demo_reserved)) = [HELD]"
    by code_simp
  then obtain L1 where L1: "budget_settle demo_call demo_result (db_ledger demo_reserved) = Inr L1"
    "map hd_state (lg_holds L1) = [KNOWN]" "map hd_state (lg_holds (db_ledger demo_reserved)) = [HELD]"
    by (auto split: sum.splits)
  then have "L1 \<noteq> db_ledger demo_reserved" by auto
  note L1 = L1(1) this
  have "rs_billed (classify_call demo_call demo_result) \<noteq> DESCONHECIDO" by code_simp
  then show ?thesis using settlement_is_final[OF L1(1)] L1 by blast
qed

text \<open>A transmitted attempt whose fate is unknown keeps its money counted: quarantining it
  turns its reservation into an uncertain exposure of the same amount.\<close>
theorem quarantine_keeps_exposure:
  assumes "operation_for ops (pc_operation call) = Inr op" "ph_budget (op_policy op)"
    "pc_dispatch_started_at call \<noteq> None" "pc_provider call \<noteq> FOCUS"
    "pc_billing call \<noteq> NAO_FATURADA"
    "find_hold L (pc_id call) (pc_attempts call) = Some h" "hd_state h = HELD"
    "quarantine ops call L = Inr L'"
  shows "\<exists>h'. find_hold L' (pc_id call) (pc_attempts call) = Some h' \<and> hd_state h' = UNSURE \<and>
    hd_micro h' = hd_micro h"
proof -
  have settle: "budget_settle call lease_lost L = Inr L'"
    using assms(1-3,8) unfolding quarantine_def by (auto split: if_splits)
  have "rs_billed (classify_call call lease_lost) = DESCONHECIDO"
    using assms(4,5) by (simp add: classify_call_def classify_def lease_lost_def)
  then have "move_hold h UNSURE L = Inr L'"
    using settle assms(6,7) by (simp add: budget_settle_def Let_def settled_state_def)
  from move_hold_state[OF assms(6) this] show ?thesis by blast
qed

theorem quarantine_keeps_exposure_witness:
  "\<exists>L' h'. quarantine demo_operations demo_call (db_ledger demo_reserved) = Inr L' \<and>
     find_hold L' 100 1 = Some h' \<and> hd_state h' = UNSURE \<and> hd_micro h' = 2000000"
proof -
  have code: "(case quarantine demo_operations demo_call (db_ledger demo_reserved) of
      Inl _ \<Rightarrow> False | Inr _ \<Rightarrow> True)" by code_simp
  obtain L' where q: "quarantine demo_operations demo_call (db_ledger demo_reserved) = Inr L'"
    using code by (auto split: sum.splits)
  have id: "pc_id demo_call = 100 \<and> pc_attempts demo_call = 1" by code_simp
  have "map_option (\<lambda>h. (hd_state h, hd_micro h)) (find_hold (db_ledger demo_reserved) 100 1) =
      Some (HELD, 2000000)" by code_simp
  then obtain h where h: "find_hold (db_ledger demo_reserved) 100 1 = Some h" "hd_state h = HELD"
    "hd_micro h = 2000000" by auto
  have op: "operation_for demo_operations (pc_operation demo_call) = Inr demo_operation"
  proof -
    have "pc_operation demo_call = ''CND''" by code_simp
    then show ?thesis by (simp add: operation_for_def demo_operations_def)
  qed
  have side: "ph_budget (op_policy demo_operation)" "pc_dispatch_started_at demo_call \<noteq> None"
    "pc_provider demo_call \<noteq> FOCUS" "pc_billing demo_call \<noteq> NAO_FATURADA"
    by code_simp+
  show ?thesis
    using quarantine_keeps_exposure[OF op side _ h(2) q] h id q by auto
qed

section \<open>Receipts come first\<close>

lemma journal_append_keeps:
  assumes "journal_append stored r J = Inr J'" "map_of J p = Some old"
  shows "map_of J' p = Some old"
  using assms by (auto simp: journal_append_def map_add_def split: if_splits option.splits)

text \<open>The journal is write-once: an append never changes what an object already holds.\<close>
theorem journal_is_write_once:
  assumes "journal_append stored r J = Inr J'" "map_of J p = Some old"
  shows "map_of J' p = Some old"
  using assms by (rule journal_append_keeps)

lemma journal_append_stored:
  assumes "journal_append stored r J = Inr J'"
  shows "map_of J' (journal_path_of r) = Some r"
  using assms by (auto simp: journal_append_def map_add_def split: if_splits option.splits)


definition demo_world :: world where
  "demo_world =
     \<lparr>w_db = (case demo_claimed of None \<Rightarrow> demo_db | Some (s, _) \<Rightarrow> s), w_journal = []\<rparr>"

definition demo_ticket :: claim_ticket where
  "demo_ticket =
     \<lparr>tk_tenant = 1, tk_client = 3, tk_call = 100, tk_fence = 1, tk_owner = 101, tk_epoch = 1\<rparr>"

definition demo_perform :: "call_result res \<times> world" where
  "demo_perform = perform demo_settings demo_operations (demo_clock 20) 20 20 (demo_clock 30)
     True True (\<lambda>_. Replied demo_result) demo_ticket demo_world"

theorem journal_is_write_once_witness:
  "\<exists>r J p. journal_append True r J = Inr J \<and> map_of J p = Some r \<and>
     journal_append False r J = Inr J"
proof -
  have "(case w_journal (snd demo_perform) of
      (p, r) # J \<Rightarrow> journal_append True r ((p, r) # J) = Inr ((p, r) # J) | [] \<Rightarrow> False)"
    by code_simp
  then obtain p r J where J: "w_journal (snd demo_perform) = (p, r) # J"
    "journal_append True r ((p, r) # J) = Inr ((p, r) # J)"
    by (auto split: list.splits)
  have "map_of ((p, r) # J) p = Some r"
    by (rule journal_is_write_once[OF J(2)]) simp
  moreover have "journal_append False r ((p, r) # J) = Inr ((p, r) # J)"
    using J(2) by (auto simp: journal_append_def split: if_splits option.splits)
  ultimately show ?thesis using J(2) by blast
qed

lemma begin_io_receipt:
  assumes "begin_io cfg ops ck t2 t3 stored t W = (Inr d, W1)" "dp_journaled d"
  shows "map_of (w_journal W1) (journal_path_of (dp_receipt d)) = Some (dp_receipt d)"
  using assms
  by (auto simp: begin_io_def dest: journal_append_stored
      split: sum.splits prepared.splits if_splits prod.splits)

definition receipts_kept :: "dispatch \<Rightarrow> journal \<Rightarrow> bool" where
  "receipts_kept d J \<longleftrightarrow>
     map_of J (journal_path_of (dp_receipt d)) = Some (dp_receipt d) \<and>
     (\<exists>r. map_of J (journal_path_of ((dp_receipt d)\<lparr>jr_result := Some r\<rparr>)) =
            Some ((dp_receipt d)\<lparr>jr_result := Some r\<rparr>))"



end
