(* ===== verification/Py_Decimal.thy ===== *)
theory Py_Decimal
  imports Mei_Prelude Complex_Main
begin

text \<open>
  Python's \<^verbatim>\<open>Decimal\<close> under the default context: 28 significant digits, ties to even.  A finite
  Decimal is the rational it denotes; each operation rounds its exact result to the context.
  NaN, infinities and exponents beyond the context's limits are outside the model.
\<close>

section \<open>Digits and powers of ten\<close>

fun num_digits :: "nat \<Rightarrow> nat" where
  "num_digits n = (if n < 10 then 1 else Suc (num_digits (n div 10)))"

declare num_digits.simps [simp del]

definition pow10 :: "int \<Rightarrow> rat" where
  "pow10 k = (if 0 \<le> k then 10 ^ nat k else 1 / 10 ^ nat (- k))"

text \<open>The integer nearest to a rational, a tie going to the even one.\<close>

definition half_even :: "rat \<Rightarrow> int" where
  "half_even x =
     (let f = \<lfloor>x\<rfloor>; r = x - of_int f in
      if r < 1 / 2 then f else if 1 / 2 < r then f + 1 else if even f then f else f + 1)"

section \<open>Rounding to the context\<close>

definition PREC :: nat where "PREC = 28"

text \<open>The shift that leaves one or two digits more than the precision before the point.\<close>

definition dec_shift :: "rat \<Rightarrow> int" where
  "dec_shift x =
     (let (n, d) = quotient_of x in
      int PREC + int (num_digits (nat d)) - int (num_digits (nat n)))"

definition dec_round_pos :: "rat \<Rightarrow> rat" where
  "dec_round_pos x =
     (let k = dec_shift x; y = x * pow10 k in
      if y < 10 ^ PREC then of_int (half_even y) / pow10 k
      else of_int (half_even (y / 10)) / pow10 (k - 1))"

definition dec_round :: "rat \<Rightarrow> rat" where
  "dec_round x =
     (if x = 0 then 0 else if 0 < x then dec_round_pos x else - dec_round_pos (- x))"

definition dec_add :: "rat \<Rightarrow> rat \<Rightarrow> rat" where "dec_add a b = dec_round (a + b)"
definition dec_mul :: "rat \<Rightarrow> rat \<Rightarrow> rat" where "dec_mul a b = dec_round (a * b)"

definition dec_div :: "rat \<Rightarrow> rat \<Rightarrow> rat res" where
  "dec_div a b =
     (if b = 0 then Inl (if a = 0 then InvalidOperation else ZeroDivision)
      else Inr (dec_round (a / b)))"

text \<open>\<^verbatim>\<open>quantize(Decimal("0.01"))\<close>: refused when the result needs more than the precision.\<close>

definition dec_quantize_cents :: "rat \<Rightarrow> rat res" where
  "dec_quantize_cents x =
     (let q = half_even (x * 100) in
      if 10 ^ PREC \<le> \<bar>q\<bar> then Inl InvalidOperation else Inr (of_int q / 100))"

section \<open>Accuracy\<close>

lemma num_digits_bounds:
  assumes "0 < n"
  shows "10 ^ (num_digits n - 1) \<le> n \<and> n < 10 ^ num_digits n \<and> 1 \<le> num_digits n"
  using assms
proof (induction n rule: num_digits.induct)
  case (1 n)
  show ?case
  proof (cases "n < 10")
    case True
    then show ?thesis using "1.prems" by (simp add: num_digits.simps[of n])
  next
    case False
    define m where "m = n div 10"
    have "0 < m" using False by (simp add: m_def div_greater_zero_iff)
    then have ih: "10 ^ (num_digits m - 1) \<le> m" "m < 10 ^ num_digits m" "1 \<le> num_digits m"
      using "1.IH"[OF False] by (simp_all add: m_def)
    have digits: "num_digits n = Suc (num_digits m)"
      using False by (simp add: num_digits.simps[of n] m_def)
    have "(10::nat) ^ num_digits m = 10 * 10 ^ (num_digits m - 1)"
      using ih(3) by (cases "num_digits m") simp_all
    then have "10 ^ num_digits m \<le> 10 * m" using ih(1) by simp
    moreover have "10 * m \<le> n" "n < 10 * (m + 1)" unfolding m_def by simp_all
    moreover have "m + 1 \<le> 10 ^ num_digits m" using ih(2) by simp
    ultimately show ?thesis unfolding digits by simp
  qed
qed

lemma pow10_pos [simp]: "0 < pow10 k"
  by (simp add: pow10_def)

lemma pow10_nz [simp]: "pow10 k \<noteq> 0"
  using pow10_pos[of k] by linarith

lemma pow10_eq: "pow10 k = 10 powi k"
  by (simp add: pow10_def power_int_def inverse_eq_divide power_one_over)

lemma pow10_add: "pow10 (a + b) = pow10 a * pow10 b"
  by (simp add: pow10_eq power_int_add)

lemma pow10_nat [simp]: "pow10 (int n) = 10 ^ n"
  by (simp add: pow10_def)

lemma pow10_mono: "a \<le> b \<Longrightarrow> pow10 a \<le> pow10 b"
  by (simp add: pow10_eq power_int_increasing)

lemma half_even_err: "\<bar>of_int (half_even x) - x\<bar> \<le> 1 / 2"
proof -
  have "0 \<le> x - of_int \<lfloor>x\<rfloor>" "x - of_int \<lfloor>x\<rfloor> < 1" by linarith+
  then show ?thesis by (auto simp: half_even_def Let_def)
qed

lemma half_even_of_int [simp]: "half_even (of_int i) = i"
  by (simp add: half_even_def)

text \<open>The shifted value has the precision's digits, or one more.\<close>

lemma dec_shift_bounds:
  assumes "0 < x"
  shows "10 ^ (PREC - 1) < x * pow10 (dec_shift x)" "x * pow10 (dec_shift x) < 10 ^ (PREC + 1)"
proof -
  obtain n d where q: "quotient_of x = (n, d)" by (cases "quotient_of x")
  have d: "0 < d" using quotient_of_denom_pos[OF q] .
  have x: "x = of_int n / of_int d" using quotient_of_div[OF q] .
  have n: "0 < n" using assms d unfolding x by (simp add: zero_less_divide_iff)
  define a where "a = num_digits (nat n)"
  define b where "b = num_digits (nat d)"
  have a: "10 ^ (a - 1) \<le> nat n" "nat n < 10 ^ a" "1 \<le> a"
    using num_digits_bounds[of "nat n"] n by (simp_all add: a_def)
  have b: "10 ^ (b - 1) \<le> nat d" "nat d < 10 ^ b" "1 \<le> b"
    using num_digits_bounds[of "nat d"] d by (simp_all add: b_def)
  have to_rat: "(of_nat (10 ^ k) :: rat) = pow10 (int k)" for k by simp
  have an: "pow10 (int a - 1) \<le> of_int n" "of_int n < pow10 (int a)"
  proof -
    have "(of_nat (10 ^ (a - 1)) :: rat) \<le> of_nat (nat n)" using a(1) by (simp only: of_nat_le_iff)
    moreover have "int (a - 1) = int a - 1" using a(3) by simp
    ultimately show "pow10 (int a - 1) \<le> of_int n" using n by (metis of_nat_nat order_less_imp_le to_rat)
    have "(of_nat (nat n) :: rat) < of_nat (10 ^ a)" using a(2) by (simp only: of_nat_less_iff)
    then show "of_int n < pow10 (int a)" using n by simp
  qed
  have bd: "pow10 (int b - 1) \<le> of_int d" "of_int d < pow10 (int b)"
  proof -
    have "(of_nat (10 ^ (b - 1)) :: rat) \<le> of_nat (nat d)" using b(1) by (simp only: of_nat_le_iff)
    moreover have "int (b - 1) = int b - 1" using b(3) by simp
    ultimately show "pow10 (int b - 1) \<le> of_int d" using d by (metis of_nat_nat order_less_imp_le to_rat)
    have "(of_nat (nat d) :: rat) < of_nat (10 ^ b)" using b(2) by (simp only: of_nat_less_iff)
    then show "of_int d < pow10 (int b)" using d by simp
  qed
  have k: "dec_shift x = int PREC + int b - int a"
    by (simp add: dec_shift_def q a_def b_def)
  define N :: rat where "N = of_int n"
  define D :: rat where "D = of_int d"
  have D: "0 < D" using d by (simp add: D_def)
  have "pow10 (int PREC - 1) * D < N * pow10 (dec_shift x)"
  proof -
    have "pow10 (int PREC - 1) * D < pow10 (int PREC - 1) * pow10 (int b)"
      using bd(2) by (simp add: D_def)
    also have "\<dots> = pow10 (int a - 1) * pow10 (dec_shift x)"
      unfolding k by (simp only: pow10_add [symmetric]) (simp add: algebra_simps)
    also have "\<dots> \<le> N * pow10 (dec_shift x)" using an(1) by (simp add: N_def)
    finally show ?thesis .
  qed
  then have "pow10 (int PREC - 1) < N * pow10 (dec_shift x) / D"
    using D by (simp add: pos_less_divide_eq)
  moreover have "N * pow10 (dec_shift x) / D < pow10 (int PREC + 1)"
  proof -
    have "N * pow10 (dec_shift x) < pow10 (int a) * pow10 (dec_shift x)"
      using an(2) by (simp add: N_def)
    also have "\<dots> = pow10 (int PREC + 1) * pow10 (int b - 1)"
      unfolding k by (simp only: pow10_add [symmetric]) (simp add: algebra_simps)
    also have "\<dots> \<le> pow10 (int PREC + 1) * D" using bd(1) by (simp add: D_def)
    finally show ?thesis using D by (simp add: pos_divide_less_eq)
  qed
  moreover have "int PREC - 1 = int (PREC - 1)" "int PREC + 1 = int (PREC + 1)"
    by (simp_all add: PREC_def)
  ultimately show "10 ^ (PREC - 1) < x * pow10 (dec_shift x)"
    "x * pow10 (dec_shift x) < 10 ^ (PREC + 1)"
    unfolding x N_def D_def by (simp_all only: pow10_nat times_divide_eq_left)
qed

lemma dec_round_pos_err:
  assumes "0 < x"
  shows "\<bar>dec_round_pos x - x\<bar> \<le> x / (2 * 10 ^ (PREC - 1))"
proof -
  define k where "k = dec_shift x"
  define y where "y = x * pow10 k"
  have y: "10 ^ (PREC - 1) < y" "y < 10 ^ (PREC + 1)"
    using dec_shift_bounds[OF assms] by (simp_all add: y_def k_def)
  have scaled: "\<bar>of_int (half_even z) / pow10 j - x\<bar> \<le> x / (2 * 10 ^ (PREC - 1))"
    if z: "z = x * pow10 j" "10 ^ (PREC - 1) \<le> z" for z j
  proof -
    have x: "x = z / pow10 j" using z(1) by simp
    have "\<bar>of_int (half_even z) / pow10 j - x\<bar> = \<bar>of_int (half_even z) - z\<bar> / pow10 j"
      unfolding x by (simp add: diff_divide_distrib [symmetric] abs_divide less_imp_le)
    also have "\<dots> \<le> (1 / 2) / pow10 j"
      by (intro divide_right_mono half_even_err) (simp add: less_imp_le)
    also have "\<dots> \<le> (z / (2 * 10 ^ (PREC - 1))) / pow10 j"
      using z(2) by (intro divide_right_mono) (simp_all add: less_imp_le field_simps)
    also have "\<dots> = x / (2 * 10 ^ (PREC - 1))" unfolding x by simp
    finally show ?thesis .
  qed
  show ?thesis
  proof (cases "y < 10 ^ PREC")
    case True
    then show ?thesis
      using scaled[of y k] y(1) by (simp add: dec_round_pos_def Let_def y_def k_def)
  next
    case False
    have "y / 10 = x * pow10 (k - 1)"
      using pow10_add[of "k - 1" 1] by (simp add: y_def pow10_def)
    moreover have "10 ^ (PREC - 1) \<le> y / 10" using False by (simp add: PREC_def)
    ultimately show ?thesis
      using scaled[of "y / 10" "k - 1"] False by (simp add: dec_round_pos_def Let_def y_def k_def)
  qed
qed

text \<open>A value that fits the precision is not rounded.\<close>

lemma dec_round_pos_exact:
  assumes "x = of_int m / 10 ^ p" "0 < m" "m < 10 ^ PREC"
  shows "dec_round_pos x = x"
proof -
  have x: "0 < x" "x = of_int m * pow10 (- int p)" "x < pow10 (int PREC) * pow10 (- int p)"
  proof -
    show "0 < x" using assms by simp
    show eq: "x = of_int m * pow10 (- int p)" unfolding assms(1) by (simp add: pow10_def)
    have "(of_int m :: rat) < of_int (10 ^ PREC)" using assms(3) by (simp only: of_int_less_iff)
    then show "x < pow10 (int PREC) * pow10 (- int p)" unfolding eq by simp
  qed
  have whole: "of_int (half_even (x * pow10 j)) / pow10 j = x" if j: "10 ^ (PREC - 1) \<le> x * pow10 j" for j
  proof -
    have "int p \<le> j"
    proof (rule ccontr)
      assume "\<not> int p \<le> j"
      then have "x * pow10 j < pow10 (int PREC) * pow10 (- int p) * pow10 j"
        using x(3) by simp
      also have "\<dots> = pow10 (int PREC - int p + j)"
        by (simp only: pow10_add [symmetric]) (simp add: algebra_simps)
      also have "\<dots> \<le> pow10 (int (PREC - 1))"
        using \<open>\<not> int p \<le> j\<close> by (intro pow10_mono) (simp add: PREC_def)
      finally show False using j by simp
    qed
    then have "x * pow10 j = of_int m * pow10 (int (nat (j - int p)))"
      unfolding x(2) mult.assoc pow10_add [symmetric] by simp
    then have whole: "x * pow10 j = of_int (m * 10 ^ nat (j - int p))"
      unfolding pow10_nat by simp
    have "half_even (x * pow10 j) = m * 10 ^ nat (j - int p)"
      unfolding whole by (rule half_even_of_int)
    then have "of_int (half_even (x * pow10 j)) / pow10 j = x * pow10 j / pow10 j"
      unfolding whole by (rule arg_cong)
    then show ?thesis by simp
  qed
  define k where "k = dec_shift x"
  have y: "10 ^ (PREC - 1) < x * pow10 k" using dec_shift_bounds[OF x(1)] by (simp add: k_def)
  show ?thesis
  proof (cases "x * pow10 k < 10 ^ PREC")
    case True
    then show ?thesis using whole[of k] y by (simp add: dec_round_pos_def Let_def k_def)
  next
    case False
    have ten: "x * pow10 k / 10 = x * pow10 (k - 1)"
      using pow10_add[of "k - 1" 1] by (simp add: pow10_def)
    have "10 ^ (PREC - 1) \<le> x * pow10 k / 10" using False by (simp add: PREC_def)
    then show ?thesis
      unfolding dec_round_pos_def Let_def k_def [symmetric] ten
      using whole[of "k - 1"] False by simp
  qed
qed

lemma dec_round_exact:
  assumes "x = of_int m / 10 ^ p" "\<bar>m\<bar> < 10 ^ PREC"
  shows "dec_round x = x"
proof -
  consider "m = 0" | "0 < m" | "m < 0" by linarith
  then show ?thesis
  proof cases
    case 1
    then show ?thesis using assms by (simp add: dec_round_def)
  next
    case 2
    then have "0 < x" using assms by simp
    then show ?thesis using dec_round_pos_exact[OF assms(1) 2] assms(2) by (simp add: dec_round_def)
  next
    case 3
    then have "x < 0" using assms by (simp add: divide_neg_pos)
    moreover have "dec_round_pos (- x) = - x"
      using 3 assms by (intro dec_round_pos_exact[of _ "- m" p]) simp_all
    ultimately show ?thesis by (simp add: dec_round_def)
  qed
qed

lemma dec_round_err:
  assumes "0 \<le> x"
  shows "\<bar>dec_round x - x\<bar> \<le> x / (2 * 10 ^ (PREC - 1))"
  using assms dec_round_pos_err[of x] by (auto simp: dec_round_def)

text \<open>
  Comparing a rounded quotient of two amounts with a four-place constant gives the comparison
  of the exact quotient: the nearest distinct quotients are further apart than the rounding.
\<close>

lemma dec_round_compare:
  fixes x w :: rat and a c v :: int
  assumes x: "x = of_int a / of_int c" "0 \<le> a" "0 < c" "c \<le> 10 ^ 17"
    and w: "w = of_int v / 10 ^ 4" "0 < v" "v \<le> 10 ^ 9"
  shows "dec_round x < w \<longleftrightarrow> x < w" "w < dec_round x \<longleftrightarrow> w < x"
proof -
  have nonneg: "0 \<le> x" unfolding x(1) using x(2,3) by simp
  note err = dec_round_err[OF nonneg] nonneg
  have "dec_round x < w \<and> x < w \<or> w < dec_round x \<and> w < x \<or> dec_round x = w \<and> x = w"
  proof (cases "x = w")
    case True
    have "\<bar>v\<bar> < 10 ^ PREC" using w by (simp add: PREC_def)
    then have "dec_round w = w" by (rule dec_round_exact[OF w(1)])
    then show ?thesis unfolding True by simp
  next
    case False
    define N where "N = a * 10 ^ 4 - c * v"
    have c: "(0::rat) < of_int c" using x(3) by simp
    have diff: "x - w = of_int N / (of_int c * 10 ^ 4)"
      using c unfolding x(1) w(1) N_def by (simp add: field_simps)
    have "N \<noteq> 0" using False diff by auto
    then have one: "(1::rat) \<le> of_int \<bar>N\<bar>" using of_int_le_iff[of 1 "\<bar>N\<bar>"] by simp
    have "(of_int c :: rat) \<le> of_int (10 ^ 17)" using x(4) by (simp only: of_int_le_iff)
    then have c_le: "of_int c * 10 ^ 4 \<le> (10 ^ 21 :: rat)" by simp
    have "1 / 10 ^ 21 \<le> 1 / (of_int c * 10 ^ 4 :: rat)"
      using c c_le by (intro divide_left_mono) simp_all
    also have "\<dots> \<le> of_int \<bar>N\<bar> / (of_int c * 10 ^ 4)"
      using c one by (intro divide_right_mono) simp_all
    also have "\<dots> = \<bar>x - w\<bar>" unfolding diff using c by (simp add: abs_divide abs_mult)
    finally have gap: "1 / 10 ^ 21 \<le> \<bar>x - w\<bar>" .
    have "(of_int v :: rat) \<le> of_int (10 ^ 9)" using w(3) by (simp only: of_int_le_iff)
    then have w_le: "w \<le> 10 ^ 5" "0 < w" using w by simp_all
    have err': "\<bar>dec_round x - x\<bar> \<le> x / (2 * 10 ^ 27)" using err(1) by (simp add: PREC_def)
    show ?thesis
    proof (cases "x \<le> 2 * w")
      case True
      have "x / (2 * 10 ^ 27) \<le> 2 * 10 ^ 5 / (2 * 10 ^ 27)"
        using True w_le by (intro divide_right_mono) simp_all
      then have "\<bar>dec_round x - x\<bar> < 1 / 10 ^ 21" using err' by simp
      then show ?thesis using gap False by (auto simp: abs_less_iff abs_le_iff abs_if split: if_splits)
    next
      case False
      have "x / (2 * 10 ^ 27) \<le> x / 2" using err(2) by (intro divide_left_mono) simp_all
      with err' have half: "\<bar>dec_round x - x\<bar> \<le> x / 2" by (rule order_trans)
      have "w < dec_round x" using abs_le_D2[OF half] False by simp
      then show ?thesis using False w_le by simp
    qed
  qed
  then show "dec_round x < w \<longleftrightarrow> x < w" "w < dec_round x \<longleftrightarrow> w < x" by auto
qed

end
