(* ===== verification/Revenue_Threshold.thy ===== *)
theory Revenue_Threshold
  imports Tax_Timeline Py_Decimal
begin

text \<open>
  The revenue ceiling monitor: \<^verbatim>\<open>obligations/parameters.py\<close>, which resolves an effective-dated
  fiscal parameter, and \<^verbatim>\<open>obligations/threshold.py\<close>, which measures a client's year against it.
  Amounts are Decimals (theory \<^verbatim>\<open>Py_Decimal\<close>); the category of a year comes from the tax
  timeline.
\<close>

section \<open>Fiscal parameters\<close>

text \<open>A parameter's text and whether \<^verbatim>\<open>Decimal\<close> reads it as a finite number.\<close>

datatype decimal_text = Not_Decimal | Decimal_Text rat

record fiscal_parameter =
  fp_key :: string
  fp_category :: "mei_category option"
  fp_value :: decimal_text
  fp_from :: date
  fp_to :: "date option"

definition fp_covers :: "date \<Rightarrow> fiscal_parameter \<Rightarrow> bool" where
  "fp_covers on r = in_force (fp_from r) (fp_to r) on"

definition latest_parameter :: "fiscal_parameter list \<Rightarrow> date \<Rightarrow> fiscal_parameter option" where
  "latest_parameter rows on = find (fp_covers on) (order_by_desc fp_from rows)"

interpretation parameter: effective_dating fp_from fp_covers latest_parameter
  unfolding latest_parameter_def
  by (rule first_of_ordered_dating) (simp add: fp_covers_def in_force_def)

definition parameters_of ::
  "fiscal_parameter list \<Rightarrow> string \<Rightarrow> mei_category option \<Rightarrow> fiscal_parameter list" where
  "parameters_of table key cat = filter (\<lambda>r. fp_key r = key \<and> fp_category r = cat) table"

definition effective_parameter ::
  "fiscal_parameter list \<Rightarrow> string \<Rightarrow> date \<Rightarrow> mei_category option \<Rightarrow> fiscal_parameter res" where
  "effective_parameter table key on cat =
     (let category = (case cat of None \<Rightarrow> COMMON | Some c \<Rightarrow> c) in
      case latest_parameter (parameters_of table key (Some category)) on of
        Some r \<Rightarrow> Inr r
      | None \<Rightarrow> the_row (latest_parameter (parameters_of table key None) on) NoEffectiveParameter)"

definition parameter_for ::
  "fiscal_parameter list \<Rightarrow> string \<Rightarrow> date \<Rightarrow> mei_category option \<Rightarrow> rat res" where
  "parameter_for table key on cat =
     res_bind (effective_parameter table key on cat) (\<lambda>r.
       case fp_value r of Not_Decimal \<Rightarrow> Inl InvalidOperation | Decimal_Text x \<Rightarrow> Inr x)"

text \<open>\<^verbatim>\<open>ParameterCache\<close>: each distinct question is read once.\<close>

type_synonym parameter_ask = "string \<times> date \<times> mei_category option"
type_synonym parameter_cache = "(parameter_ask \<times> rat) list"

definition empty_parameter_cache :: parameter_cache where
  "empty_parameter_cache = []"

definition cached_value ::
  "fiscal_parameter list \<Rightarrow> string \<Rightarrow> date \<Rightarrow> mei_category option \<Rightarrow> (parameter_cache, rat) tx" where
  "cached_value table key on cat cache =
     (case map_of cache (key, on, cat) of
        Some x \<Rightarrow> Inr (x, cache)
      | None \<Rightarrow> res_bind (parameter_for table key on cat) (\<lambda>x.
                  Inr (x, ((key, on, cat), x) # cache)))"

section \<open>The threshold\<close>

definition CEILING_KEY :: string where "CEILING_KEY = ''mei.annual_ceiling''"
definition PROPORTIONAL_KEY :: string where "PROPORTIONAL_KEY = ''mei.monthly_proportional''"
definition TOLERANCE_KEY :: string where "TOLERANCE_KEY = ''mei.excess_tolerance_pct''"

definition MONTHS_IN_YEAR :: int where "MONTHS_IN_YEAR = 12"
definition WARNING_AT :: rat where "WARNING_AT = 4 / 5"
definition CEILING_AT :: rat where "CEILING_AT = 1"

datatype threshold_band = BAND_OK | BAND_WARNING | BAND_WITHIN_TOLERANCE | BAND_OVER_TOLERANCE

record threshold_status =
  ts_accumulated :: rat
  ts_ceiling :: rat
  ts_percentage :: rat
  ts_band :: threshold_band
  ts_months :: int
  ts_opening_year :: bool
  ts_effective_on :: "date option"

record revenue_row =
  rv_client :: int
  rv_month :: date
  rv_gross :: rat

text \<open>What the monitor reads: the parameters, and the firm's revenue and profile rows.\<close>

record revenue_db =
  rd_parameters :: "fiscal_parameter list"
  rd_revenues :: "revenue_row list"
  rd_profiles :: "tax_profile list"

definition months_active_in :: "client \<Rightarrow> int \<Rightarrow> int" where
  "months_active_in c year =
     (case c_opened_on c of
        None \<Rightarrow> MONTHS_IN_YEAR
      | Some d \<Rightarrow> if d_year d \<noteq> year then MONTHS_IN_YEAR else MONTHS_IN_YEAR - d_month d + 1)"

definition ceiling_for ::
  "fiscal_parameter list \<Rightarrow> int \<Rightarrow> int \<Rightarrow> mei_category option \<Rightarrow> (parameter_cache, rat) tx" where
  "ceiling_for table year months cat cache =
     res_bind (mk_date year 1 1) (\<lambda>on.
       if months = MONTHS_IN_YEAR then cached_value table CEILING_KEY on cat cache
       else res_bind (cached_value table PROPORTIONAL_KEY on cat cache) (\<lambda>(monthly, cache').
              Inr (dec_mul monthly (of_int months), cache')))"

definition band_for :: "rat \<Rightarrow> rat \<Rightarrow> threshold_band" where
  "band_for consumed tolerance =
     (if dec_add CEILING_AT tolerance < consumed then BAND_OVER_TOLERANCE
      else if CEILING_AT < consumed then BAND_WITHIN_TOLERANCE
      else if WARNING_AT \<le> consumed then BAND_WARNING else BAND_OK)"

definition effective_date_for ::
  "threshold_band \<Rightarrow> client \<Rightarrow> int \<Rightarrow> bool \<Rightarrow> date option res" where
  "effective_date_for band c year opening =
     (case band of
        BAND_WITHIN_TOLERANCE \<Rightarrow> res_bind (mk_date (year + 1) 1 1) (\<lambda>d. Inr (Some d))
      | BAND_OVER_TOLERANCE \<Rightarrow>
          (case c_opened_on c of
             Some d \<Rightarrow> if opening then Inr (Some d) else res_bind (mk_date year 1 1) (\<lambda>d. Inr (Some d))
           | None \<Rightarrow> res_bind (mk_date year 1 1) (\<lambda>d. Inr (Some d)))
      | _ \<Rightarrow> Inr None)"

text \<open>\<open>None\<close> for the profile rows is \<^verbatim>\<open>_NOT_PROVIDED\<close>: the caller did not say.\<close>

definition mei_category_for ::
  "revenue_db \<Rightarrow> client \<Rightarrow> int \<Rightarrow> tax_profile list option \<Rightarrow> mei_category option res" where
  "mei_category_for db c year provided =
     (let rows = (case provided of
                    None \<Rightarrow> filter (\<lambda>r. tp_client r = c_id c) (rd_profiles db)
                  | Some rows \<Rightarrow> rows)
      in if rows = [] then Inr (Some (c_mei_category c))
         else res_bind (mk_date year 1 1) (\<lambda>on.
                case claim_at rows on of None \<Rightarrow> Inr None | Some claim \<Rightarrow> Inr (tp_category claim)))"

definition revenue_of :: "revenue_db \<Rightarrow> int \<Rightarrow> int \<Rightarrow> rat" where
  "revenue_of db cid year =
     sum_list (map rv_gross
       (filter (\<lambda>r. rv_client r = cid \<and> d_year (rv_month r) = year) (rd_revenues db)))"

definition threshold_status ::
  "revenue_db \<Rightarrow> client \<Rightarrow> int \<Rightarrow> rat option \<Rightarrow> tax_profile list option \<Rightarrow>
   (parameter_cache, threshold_status) tx" where
  "threshold_status db c year accumulated provided cache =
     (let table = rd_parameters db;
          months = months_active_in c year;
          opening = (months \<noteq> MONTHS_IN_YEAR)
      in res_bind (mei_category_for db c year provided) (\<lambda>category.
         res_bind (ceiling_for table year months category cache) (\<lambda>(limit, cache1).
         (let total = (case accumulated of None \<Rightarrow> revenue_of db (c_id c) year | Some a \<Rightarrow> a) in
          res_bind (dec_div total limit) (\<lambda>consumed.
          res_bind (mk_date year 1 1) (\<lambda>on.
          res_bind (cached_value table TOLERANCE_KEY on category cache1) (\<lambda>(tolerance, cache2).
          (let band = band_for consumed tolerance in
           res_bind (dec_quantize_cents (dec_mul consumed 100)) (\<lambda>percentage.
           res_bind (effective_date_for band c year opening) (\<lambda>effective.
             Inr (\<lparr>ts_accumulated = total, ts_ceiling = limit, ts_percentage = percentage,
                   ts_band = band, ts_months = months, ts_opening_year = opening,
                   ts_effective_on = effective\<rparr>, cache2)))))))))))"


section \<open>One resolver for a sweep\<close>

definition cache_sound :: "fiscal_parameter list \<Rightarrow> parameter_cache \<Rightarrow> bool" where
  "cache_sound table cache \<longleftrightarrow>
     (\<forall>key on cat x. map_of cache (key, on, cat) = Some x \<longrightarrow> parameter_for table key on cat = Inr x)"

lemma cache_sound_empty [simp]: "cache_sound table empty_parameter_cache"
  by (simp add: cache_sound_def empty_parameter_cache_def)

lemma cached_value_sound:
  assumes "cache_sound table cache"
  shows "(case cached_value table key on cat cache of
      Inl e \<Rightarrow> parameter_for table key on cat = Inl e
    | Inr (x, cache') \<Rightarrow> parameter_for table key on cat = Inr x \<and> cache_sound table cache')"
proof (cases "map_of cache (key, on, cat)")
  case None
  then show ?thesis
    using assms
    by (cases "parameter_for table key on cat") (auto simp: cached_value_def cache_sound_def)
next
  case (Some x)
  then show ?thesis using assms by (simp add: cached_value_def cache_sound_def)
qed

lemma cached_value_Inr:
  "cache_sound table cache \<Longrightarrow> cached_value table key on cat cache = Inr (x, cache') \<Longrightarrow>
     parameter_for table key on cat = Inr x \<and> cache_sound table cache'"
  using cached_value_sound[of table cache key on cat] by simp

lemma cached_value_Inl:
  "cache_sound table cache \<Longrightarrow> cached_value table key on cat cache = Inl e \<Longrightarrow>
     parameter_for table key on cat = Inl e"
  using cached_value_sound[of table cache key on cat] by simp

text \<open>The ceiling and the status without a cache: every question goes to the table.\<close>

definition plain_ceiling ::
  "fiscal_parameter list \<Rightarrow> int \<Rightarrow> int \<Rightarrow> mei_category option \<Rightarrow> rat res" where
  "plain_ceiling table year months cat =
     res_bind (mk_date year 1 1) (\<lambda>on.
       if months = MONTHS_IN_YEAR then parameter_for table CEILING_KEY on cat
       else res_bind (parameter_for table PROPORTIONAL_KEY on cat) (\<lambda>monthly.
              Inr (dec_mul monthly (of_int months))))"

definition plain_status ::
  "revenue_db \<Rightarrow> client \<Rightarrow> int \<Rightarrow> rat option \<Rightarrow> tax_profile list option \<Rightarrow> threshold_status res" where
  "plain_status db c year accumulated provided =
     (let table = rd_parameters db;
          months = months_active_in c year;
          opening = (months \<noteq> MONTHS_IN_YEAR)
      in res_bind (mei_category_for db c year provided) (\<lambda>category.
         res_bind (plain_ceiling table year months category) (\<lambda>limit.
         (let total = (case accumulated of None \<Rightarrow> revenue_of db (c_id c) year | Some a \<Rightarrow> a) in
          res_bind (dec_div total limit) (\<lambda>consumed.
          res_bind (mk_date year 1 1) (\<lambda>on.
          res_bind (parameter_for table TOLERANCE_KEY on category) (\<lambda>tolerance.
          (let band = band_for consumed tolerance in
           res_bind (dec_quantize_cents (dec_mul consumed 100)) (\<lambda>percentage.
           res_bind (effective_date_for band c year opening) (\<lambda>effective.
             Inr \<lparr>ts_accumulated = total, ts_ceiling = limit, ts_percentage = percentage,
                  ts_band = band, ts_months = months, ts_opening_year = opening,
                  ts_effective_on = effective\<rparr>))))))))))"

lemma res_bind_sim:
  assumes "case m of Inl e \<Rightarrow> n = Inl e | Inr (x, c) \<Rightarrow> n = Inr x \<and> P c"
    "\<And>x c. P c \<Longrightarrow> (case f (x, c) of Inl e \<Rightarrow> g x = Inl e | Inr (y, c') \<Rightarrow> g x = Inr y \<and> Q c')"
  shows "case res_bind m f of Inl e \<Rightarrow> res_bind n g = Inl e
    | Inr (y, c') \<Rightarrow> res_bind n g = Inr y \<and> Q c'"
proof (cases m)
  case (Inl e)
  with assms(1) show ?thesis by simp
next
  case (Inr p)
  obtain x c where p: "p = (x, c)" by (cases p)
  with Inr assms(1) have "n = Inr x" "P c" by simp_all
  with Inr p assms(2)[of c x] show ?thesis by (auto split: sum.splits)
qed

lemma res_bind_sim_same:
  assumes "\<And>x. case f x of Inl e \<Rightarrow> g x = Inl e | Inr (y, c') \<Rightarrow> g x = Inr y \<and> Q c'"
  shows "case res_bind m f of Inl e \<Rightarrow> res_bind m g = Inl e
    | Inr (y, c') \<Rightarrow> res_bind m g = Inr y \<and> Q c'"
proof (cases m)
  case (Inl e)
  then show ?thesis by simp
next
  case (Inr x)
  with assms[of x] show ?thesis by (auto split: sum.splits)
qed

lemma ceiling_for_sim:
  assumes "cache_sound table cache"
  shows "case ceiling_for table year months cat cache of
      Inl e \<Rightarrow> plain_ceiling table year months cat = Inl e
    | Inr (x, cache') \<Rightarrow> plain_ceiling table year months cat = Inr x \<and> cache_sound table cache'"
proof (cases "months = MONTHS_IN_YEAR")
  case True
  show ?thesis
    unfolding ceiling_for_def plain_ceiling_def True
    using cached_value_sound[OF assms] by (intro res_bind_sim_same) simp
next
  case False
  show ?thesis
    unfolding ceiling_for_def plain_ceiling_def
    using False
    by (intro res_bind_sim_same, simp)
      (rule res_bind_sim[OF cached_value_sound[OF assms]], simp)
qed

lemma threshold_status_sim:
  assumes "cache_sound (rd_parameters db) cache"
  shows "case threshold_status db c year accumulated provided cache of
      Inl e \<Rightarrow> plain_status db c year accumulated provided = Inl e
    | Inr (st, cache') \<Rightarrow> plain_status db c year accumulated provided = Inr st \<and>
        cache_sound (rd_parameters db) cache'"
  unfolding threshold_status_def plain_status_def Let_def
  apply (rule res_bind_sim_same)
  apply (rule res_bind_sim[OF ceiling_for_sim[OF assms]])
  apply (simp only: prod.case)
  apply (rule res_bind_sim_same, rule res_bind_sim_same)
  apply (rule res_bind_sim[OF cached_value_sound], assumption)
  apply (simp only: prod.case)
  apply (rule res_bind_sim_same, rule res_bind_sim_same)
  apply simp
  done


lemma threshold_status_Inr:
  assumes "cache_sound (rd_parameters db) cache"
    "threshold_status db c year accumulated provided cache = Inr (st, cache')"
  obtains category tolerance percentage
  where "mei_category_for db c year provided = Inr category"
    "plain_ceiling (rd_parameters db) year (months_active_in c year) category = Inr (ts_ceiling st)"
    "ts_accumulated st = (case accumulated of None \<Rightarrow> revenue_of db (c_id c) year | Some a \<Rightarrow> a)"
    "ts_ceiling st \<noteq> 0" "mk_date year 1 1 = Inr (Date year 1 1)"
    "parameter_for (rd_parameters db) TOLERANCE_KEY (Date year 1 1) category = Inr tolerance"
    "ts_band st = band_for (dec_round (ts_accumulated st / ts_ceiling st)) tolerance"
    "ts_months st = months_active_in c year" "ts_opening_year st = (ts_months st \<noteq> MONTHS_IN_YEAR)"
    "effective_date_for (ts_band st) c year (ts_opening_year st) = Inr (ts_effective_on st)"
    "ts_percentage st = percentage"
proof -
  have "plain_status db c year accumulated provided = Inr st"
    using threshold_status_sim[OF assms(1), of c year accumulated provided] assms(2) by simp
  then show thesis
    unfolding plain_status_def Let_def
    by (elim res_bind_InrE) (rule that; auto simp: dec_div_def mk_date_def split: if_splits)
qed


section \<open>Properties\<close>

text \<open>Sharing one parameter resolver across a sweep never changes a client's status: with any
  cache that earlier questions filled, the answer (or the refusal) is the one a fresh resolver
  gives.\<close>
theorem shared_resolver_transparent:
  assumes "cache_sound (rd_parameters db) cache"
  shows "map_sum id fst (threshold_status db c year accumulated provided cache) =
    map_sum id fst (threshold_status db c year accumulated provided empty_parameter_cache)"
  using threshold_status_sim[OF assms, of c year accumulated provided]
    threshold_status_sim[OF cache_sound_empty, of db c year accumulated provided]
  by (auto split: sum.splits prod.splits)

definition exact_band :: "rat \<Rightarrow> rat \<Rightarrow> rat \<Rightarrow> threshold_band" where
  "exact_band amount limit tolerance =
     (if limit * (1 + tolerance) < amount then BAND_OVER_TOLERANCE
      else if limit < amount then BAND_WITHIN_TOLERANCE
      else if limit * (4 / 5) \<le> amount then BAND_WARNING else BAND_OK)"

lemma band_for_exact:
  fixes amount limit tolerance :: rat and a l t :: int
  assumes "amount = of_int a / 100" "0 \<le> a" "limit = of_int l / 100" "0 < l" "l \<le> 10 ^ 17"
    "tolerance = of_int t / 10 ^ 4" "0 \<le> t" "t \<le> 10 ^ 8"
  shows "band_for (dec_round (amount / limit)) tolerance = exact_band amount limit tolerance"
proof -
  define x where "x = amount / limit"
  have x: "x = of_int a / of_int l" using assms(4) by (simp add: x_def assms(1,3))
  have limit: "0 < limit" using assms(3,4) by simp
  have sum: "1 + tolerance = of_int (10 ^ 4 + t) / 10 ^ 4"
    unfolding assms(6) by (simp add: field_simps)
  have add: "dec_add 1 tolerance = 1 + tolerance"
    unfolding dec_add_def
    by (rule dec_round_exact[OF sum]) (use assms(7,8) in \<open>simp add: PREC_def\<close>)
  note cmp = dec_round_compare[OF x assms(2,4,5)]
  have "(1 + tolerance < dec_round x) = (1 + tolerance < x)"
    by (rule cmp(2)[OF sum]) (use assms(7,8) in simp_all)
  moreover have "(1 < dec_round x) = (1 < x)"
    by (rule cmp(2)[of 1 "10 ^ 4"]) simp_all
  moreover have "(dec_round x < 4 / 5) = (x < 4 / 5)"
    by (rule cmp(1)[of "4 / 5" 8000]) simp_all
  moreover have "(1 + tolerance < x) = (limit * (1 + tolerance) < amount)"
    "(1 < x) = (limit < amount)" "(x < 4 / 5) = (amount < limit * (4 / 5))"
    using limit by (simp_all add: x_def pos_less_divide_eq pos_divide_less_eq mult.commute)
  ultimately show ?thesis
    unfolding band_for_def exact_band_def CEILING_AT_def WARNING_AT_def add x_def [symmetric]
    by (simp add: not_less [symmetric])
qed

text \<open>Amounts in cents are banded exactly: although the ratio is rounded to 28 digits, the
  band reported for a client is the one the exact comparison of revenue, ceiling and tolerance
  gives, at and around every boundary.\<close>
theorem threshold_band_exact:
  assumes "cache_sound (rd_parameters db) cache"
    "threshold_status db c year accumulated provided cache = Inr (st, cache')"
    "ts_accumulated st = of_int a / 100" "0 \<le> a"
    "ts_ceiling st = of_int l / 100" "0 < l" "l \<le> 10 ^ 17"
    "mei_category_for db c year provided = Inr category"
    "parameter_for (rd_parameters db) TOLERANCE_KEY (Date year 1 1) category = Inr (of_int t / 10 ^ 4)"
    "0 \<le> t" "t \<le> 10 ^ 8"
  shows "ts_band st = exact_band (ts_accumulated st) (ts_ceiling st) (of_int t / 10 ^ 4)"
  using assms(2)
proof (rule threshold_status_Inr[OF assms(1)], goal_cases)
  case (1 category' tolerance percentage)
  have tolerance: "tolerance = of_int t / 10 ^ 4" using 1(1,6) assms(8,9) by simp
  show ?case
    unfolding 1(7) tolerance using band_for_exact[OF assms(3,4,5,6,7) refl assms(10,11)] by simp
qed



definition seeded_parameters :: "fiscal_parameter list" where
  "seeded_parameters =
     [\<lparr>fp_key = CEILING_KEY, fp_category = Some COMMON, fp_value = Decimal_Text 81000,
       fp_from = Date 2018 1 1, fp_to = None\<rparr>,
      \<lparr>fp_key = PROPORTIONAL_KEY, fp_category = Some COMMON, fp_value = Decimal_Text 6750,
       fp_from = Date 2018 1 1, fp_to = None\<rparr>,
      \<lparr>fp_key = TOLERANCE_KEY, fp_category = None, fp_value = Decimal_Text (1 / 5),
       fp_from = Date 2018 1 1, fp_to = None\<rparr>]"

definition july_client :: client where
  "july_client =
     \<lparr>c_id = 7, c_tenant = 1, c_status = CL_ACTIVE, c_is_mei = True, c_mei_category = COMMON,
      c_opened_on = Some (Date 2026 7 20), c_tax_profile_revision = 0\<rparr>"

definition july_db :: revenue_db where
  "july_db = \<lparr>rd_parameters = seeded_parameters,
     rd_revenues = [\<lparr>rv_client = 7, rv_month = Date 2026 8 1, rv_gross = 48600\<rparr>],
     rd_profiles = []\<rparr>"

text \<open>Six months of 6750 make 40500; 48600 is exactly the tolerance and 60750 is over it.\<close>

lemma july_parameters:
  "parameter_for seeded_parameters PROPORTIONAL_KEY (Date 2026 1 1) (Some COMMON) = Inr 6750"
  "parameter_for seeded_parameters TOLERANCE_KEY (Date 2026 1 1) (Some COMMON) = Inr (1 / 5)"
  by (simp_all add: parameter_for_def effective_parameter_def latest_parameter_def parameters_of_def
      seeded_parameters_def CEILING_KEY_def PROPORTIONAL_KEY_def TOLERANCE_KEY_def fp_covers_def
      in_force_def order_by_desc_def less_eq_date_def)

lemma july_rounds:
  "dec_round 40500 = 40500" "dec_round (6 / 5) = 6 / 5" "dec_round (3 / 2) = 3 / 2"
  "dec_round 120 = 120" "dec_round 150 = 150"
  using dec_round_exact[of 40500 40500 0] dec_round_exact[of "6 / 5" 12 1]
    dec_round_exact[of "3 / 2" 15 1] dec_round_exact[of 120 120 0] dec_round_exact[of 150 150 0]
  by (simp_all add: PREC_def)

lemma july_dates:
  "mk_date 2026 1 1 = Inr (Date 2026 1 1)" "mk_date (2026 + 1) 1 1 = Inr (Date 2027 1 1)"
  "mk_date 2027 1 1 = Inr (Date 2027 1 1)"
  by code_simp+

lemma july_keys: "TOLERANCE_KEY \<noteq> PROPORTIONAL_KEY" "PROPORTIONAL_KEY \<noteq> TOLERANCE_KEY"
  by (simp_all add: PROPORTIONAL_KEY_def TOLERANCE_KEY_def)

lemma july_quantize: "dec_quantize_cents 120 = Inr 120" "dec_quantize_cents 150 = Inr 150"
  using half_even_of_int[of 12000] half_even_of_int[of 15000]
  by (simp_all add: dec_quantize_cents_def Let_def PREC_def del: half_even_of_int)

lemmas july_defs = threshold_status_def july_client_def july_db_def mei_category_for_def
  months_active_in_def ceiling_for_def cached_value_def MONTHS_IN_YEAR_def dec_mul_def dec_div_def
  dec_add_def band_for_def CEILING_AT_def WARNING_AT_def effective_date_for_def revenue_of_def
  empty_parameter_cache_def

lemma july_status:
  "\<exists>st cache. threshold_status july_db july_client 2026 None None empty_parameter_cache = Inr (st, cache) \<and>
     ts_ceiling st = 40500 \<and> ts_accumulated st = 48600 \<and> ts_band st = BAND_WITHIN_TOLERANCE"
  by (simp add: july_defs july_parameters july_rounds july_quantize july_dates july_keys)

lemma july_over:
  "\<exists>st cache. threshold_status july_db july_client 2026 (Some 60750) None empty_parameter_cache =
     Inr (st, cache) \<and> ts_band st = BAND_OVER_TOLERANCE"
  by (simp add: july_defs july_parameters july_rounds july_quantize july_dates july_keys)

theorem shared_resolver_transparent_witness:
  "\<exists>st cache. threshold_status july_db july_client 2026 None None empty_parameter_cache = Inr (st, cache) \<and>
     map_sum id fst (threshold_status july_db july_client 2026 (Some 60750) None cache) =
     map_sum id fst (threshold_status july_db july_client 2026 (Some 60750) None empty_parameter_cache)"
proof -
  obtain st cache where
    st: "threshold_status july_db july_client 2026 None None empty_parameter_cache = Inr (st, cache)"
    using july_status by blast
  then have "cache_sound (rd_parameters july_db) cache"
    using threshold_status_sim[OF cache_sound_empty, of july_db july_client 2026 None None] by simp
  from shared_resolver_transparent[OF this, of july_client 2026 "Some 60750" None] st
  show ?thesis by blast
qed

theorem threshold_band_exact_witness:
  "\<exists>st cache. threshold_status july_db july_client 2026 None None empty_parameter_cache = Inr (st, cache) \<and>
     ts_band st = exact_band 48600 40500 (of_int 2000 / 10 ^ 4)"
proof -
  obtain st cache where
    st: "threshold_status july_db july_client 2026 None None empty_parameter_cache = Inr (st, cache)"
      "ts_ceiling st = 40500" "ts_accumulated st = 48600"
    using july_status by blast
  have cat: "mei_category_for july_db july_client 2026 None = Inr (Some COMMON)"
    by (simp add: mei_category_for_def july_db_def july_client_def)
  have tol: "parameter_for (rd_parameters july_db) TOLERANCE_KEY (Date 2026 1 1) (Some COMMON) =
      Inr (of_int 2000 / 10 ^ 4)"
    using july_parameters by (simp add: july_db_def)
  have "ts_band st = exact_band (ts_accumulated st) (ts_ceiling st) (of_int 2000 / 10 ^ 4)"
    by (rule threshold_band_exact[OF cache_sound_empty st(1), of 4860000 4050000])
      (use st(2,3) cat tol in simp_all)
  then show ?thesis using st by auto
qed


text \<open>A parameter is never defaulted: the resolver refuses exactly when no row of the key covers
  the day, neither the category's own nor one for every category.\<close>
theorem parameter_never_defaulted:
  "effective_parameter table key on cat = Inl NoEffectiveParameter \<longleftrightarrow>
   \<not> (\<exists>r\<in>set table. fp_key r = key \<and> fp_covers on r \<and>
        (fp_category r = None \<or> fp_category r = Some (case cat of None \<Rightarrow> COMMON | Some c \<Rightarrow> c)))"
proof -
  let ?c = "case cat of None \<Rightarrow> COMMON | Some c \<Rightarrow> c"
  have "effective_parameter table key on cat = Inl NoEffectiveParameter \<longleftrightarrow>
      latest_parameter (parameters_of table key (Some ?c)) on = None \<and>
      latest_parameter (parameters_of table key None) on = None"
    by (auto simp: effective_parameter_def Let_def split: option.splits)
  then show ?thesis
    unfolding parameter.pick_None_iff by (auto simp: parameters_of_def)
qed

end
