(* ===== verification/Authorization.thy ===== *)
theory Authorization
  imports Feature_Flags Tax_Timeline
begin

text \<open>
  Who may do what, and over which clients: \<^verbatim>\<open>apps/authz/services.py\<close>, the level half of
  \<^verbatim>\<open>stash.py\<close>, \<^verbatim>\<open>support.py\<close>, \<^verbatim>\<open>portfolio.py\<close>, \<^verbatim>\<open>objects.py\<close> and \<^verbatim>\<open>firm_account.py\<close>.
  The context variables of a request are the record \<open>authz_ctx\<close>, the tables the decisions read
  are \<open>authz_db\<close>.  The row-level-security policies of the database, which can only narrow a
  read further, are not part of the model.
\<close>

section \<open>Rows and context\<close>

record account =
  u_id :: int
  u_active :: bool
  u_superuser :: bool

datatype actor = Anonymous | Account account

record membership =
  ms_id :: int
  ms_user :: int
  ms_tenant :: int
  ms_client :: "int option"
  ms_role :: role
  ms_active :: bool
  ms_review_version :: int
  ms_version :: int

record user_grant =
  ug_id :: int
  ug_tenant :: int
  ug_user :: int
  ug_slug :: string
  ug_level :: grant_level
  ug_granted_by :: "int option"
  ug_revoked_at :: "int option"
  ug_expires_at :: "int option"
  ug_version :: int

datatype assignment_role = PRIMARY | SUPPORT

record assignment =
  as_id :: int
  as_tenant :: int
  as_client :: int
  as_user :: int
  as_role :: assignment_role

datatype support_scope = READ_ONLY | READ_WRITE_SETTINGS

record support_context =
  sc_grant :: int
  sc_tenant :: int
  sc_scope :: support_scope
  sc_clients :: "int list"

record authz_ctx =
  ax_tenant :: "int option"
  ax_client :: "int option"
  ax_stash :: "portal_stash option"
  ax_support :: "support_context option"

record authz_db =
  ad_capabilities :: "string list"
  ad_role_grants :: "role_grant list"
  ad_user_grants :: "user_grant list"
  ad_memberships :: "membership list"
  ad_assignments :: "assignment list"
  ad_clients :: "client list"
  ad_users :: "account list"

text \<open>
  \<^verbatim>\<open>TenantScopedManager\<close>: a scoped table answers with the rows of the tenant in context, and
  with nothing when there is none.
\<close>

definition scoped :: "authz_ctx \<Rightarrow> ('r \<Rightarrow> int) \<Rightarrow> 'r list \<Rightarrow> 'r list" where
  "scoped ctx tenant_of rows =
     (case ax_tenant ctx of None \<Rightarrow> [] | Some t \<Rightarrow> filter (\<lambda>r. tenant_of r = t) rows)"

definition resolved_tenant :: "authz_ctx \<Rightarrow> int option \<Rightarrow> int option" where
  "resolved_tenant ctx tid = (case tid of Some t \<Rightarrow> Some t | None \<Rightarrow> ax_tenant ctx)"

section \<open>Stash and support sessions\<close>

definition stashed_level :: "authz_ctx \<Rightarrow> actor \<Rightarrow> string \<Rightarrow> int option \<Rightarrow> grant_level option res" where
  "stashed_level ctx user action tid =
     (case ax_stash ctx of
        None \<Rightarrow> Inr None
      | Some st \<Rightarrow>
          (case user of
             Anonymous \<Rightarrow> Inl PortalStashMiss
           | Account u \<Rightarrow>
               if u_id u \<noteq> st_user st then Inl PortalStashMiss
               else if resolved_tenant ctx tid \<noteq> Some (st_tenant st) then Inl PortalStashMiss
               else (case map_of (st_levels st) action of
                       None \<Rightarrow> Inl PortalStashMiss
                     | Some l \<Rightarrow> Inr (Some l))))"

definition SUPPORT_READ_CAPABILITIES :: "string list" where
  "SUPPORT_READ_CAPABILITIES =
     [''clients.view_assigned'', ''clients.view_all'', ''cycles.review'', ''audit.view'']"

definition SETTINGS_WRITE_CAPABILITY :: string where
  "SETTINGS_WRITE_CAPABILITY = ''billing.manage''"

definition in_support_mode :: "authz_ctx \<Rightarrow> bool" where
  "in_support_mode ctx = (ax_support ctx \<noteq> None)"

definition support_level :: "authz_ctx \<Rightarrow> string \<Rightarrow> grant_level option" where
  "support_level ctx action =
     (case ax_support ctx of
        None \<Rightarrow> None
      | Some sc \<Rightarrow>
          if action \<in> set SUPPORT_READ_CAPABILITIES then Some FULL
          else if action = SETTINGS_WRITE_CAPABILITY \<and> sc_scope sc = READ_WRITE_SETTINGS
          then Some FULL
          else Some NONE)"

definition support_clients :: "authz_ctx \<Rightarrow> authz_db \<Rightarrow> client list option" where
  "support_clients ctx db =
     (case ax_support ctx of
        None \<Rightarrow> None
      | Some sc \<Rightarrow>
          if sc_clients sc = [] then Some []
          else Some (filter (\<lambda>c. c_id c \<in> set (sc_clients sc)) (scoped ctx c_tenant (ad_clients db))))"

section \<open>Levels\<close>

definition membership_rows :: "authz_ctx \<Rightarrow> authz_db \<Rightarrow> account \<Rightarrow> int option \<Rightarrow> membership list" where
  "membership_rows ctx db u tid =
     (case resolved_tenant ctx tid of
        None \<Rightarrow> []
      | Some t \<Rightarrow>
          sort_key ms_id
            (filter (\<lambda>m. ms_user m = u_id u \<and> ms_tenant m = t \<and> ms_active m \<and>
                         ms_client m = ax_client ctx) (ad_memberships db)))"

definition role_of :: "authz_ctx \<Rightarrow> authz_db \<Rightarrow> account \<Rightarrow> int option \<Rightarrow> role option" where
  "role_of ctx db u tid =
     (case membership_rows ctx db u tid of [] \<Rightarrow> None | m # _ \<Rightarrow> Some (ms_role m))"

definition role_level :: "authz_db \<Rightarrow> role option \<Rightarrow> string \<Rightarrow> grant_level" where
  "role_level db r slug =
     (case r of
        None \<Rightarrow> NONE
      | Some r \<Rightarrow>
          (case find (\<lambda>g. rg_slug g = slug \<and> rg_role g = r) (ad_role_grants db) of
             None \<Rightarrow> NONE
           | Some g \<Rightarrow> rg_level g))"

definition role_grant_rows ::
  "authz_ctx \<Rightarrow> authz_db \<Rightarrow> actor \<Rightarrow> string list \<Rightarrow> int option \<Rightarrow>
   (string \<times> role option \<times> grant_level) list" where
  "role_grant_rows ctx db user slugs tid =
     (let known = filter (\<lambda>slug. slug \<in> set slugs) (ad_capabilities db) in
      case user of
        Anonymous \<Rightarrow> map (\<lambda>slug. (slug, None, NONE)) known
      | Account u \<Rightarrow>
          if u_superuser u then map (\<lambda>slug. (slug, None, NONE)) known
          else (let r = role_of ctx db u tid
                in map (\<lambda>slug. (slug, r, role_level db r slug)) known))"

definition grant_live :: "int \<Rightarrow> user_grant \<Rightarrow> bool" where
  "grant_live now g =
     (ug_revoked_at g = None \<and>
      (case ug_expires_at g of None \<Rightarrow> True | Some e \<Rightarrow> now < e))"

definition user_grant_levels ::
  "authz_ctx \<Rightarrow> authz_db \<Rightarrow> int \<Rightarrow> account \<Rightarrow> string list \<Rightarrow> role \<Rightarrow> int option \<Rightarrow>
   (string \<times> grant_level) list" where
  "user_grant_levels ctx db now u slugs r tid =
     (if r \<in> set CLIENT_ROLES then []
      else (case resolved_tenant ctx tid of
              None \<Rightarrow> []
            | Some t \<Rightarrow>
                map (\<lambda>g. (ug_slug g, ug_level g))
                  (filter (\<lambda>g. grant_live now g \<and> ug_tenant g = t \<and> ug_user g = u_id u \<and>
                               ug_slug g \<in> set slugs) (ad_user_grants db))))"

definition resolve_levels_and_role ::
  "authz_ctx \<Rightarrow> authz_db \<Rightarrow> int \<Rightarrow> actor \<Rightarrow> string list \<Rightarrow> int option \<Rightarrow> bool \<Rightarrow>
   (role option \<times> (string \<times> grant_level) list) res" where
  "resolve_levels_and_role ctx db now user actions tid include_superuser_role =
     (let slugs = dict_fromkeys actions;
          all_at = (\<lambda>level. map (\<lambda>slug. (slug, level)) slugs) in
      if ax_stash ctx \<noteq> None then
        res_bind (res_map (\<lambda>slug.
            res_bind (stashed_level ctx user slug tid) (\<lambda>level.
              Inr (slug, case level of None \<Rightarrow> NONE | Some l \<Rightarrow> l))) slugs)
          (\<lambda>levels. Inr (None, levels))
      else if in_support_mode ctx then
        Inr (None, map (\<lambda>slug. (slug, case support_level ctx slug of None \<Rightarrow> NONE | Some l \<Rightarrow> l)) slugs)
      else
        (let rows = role_grant_rows ctx db user slugs tid;
             known = map fst rows in
         if \<exists>slug \<in> set slugs. slug \<notin> set known then Inl UnknownCapability
         else (case user of
           Anonymous \<Rightarrow> Inr (None, all_at NONE)
         | Account u \<Rightarrow>
             if u_superuser u then
               Inr (if include_superuser_role then role_of ctx db u tid else None, all_at FULL)
             else
               (let r = (case rows of [] \<Rightarrow> role_of ctx db u tid | row # _ \<Rightarrow> fst (snd row)) in
                case r of
                  None \<Rightarrow> Inr (None, all_at NONE)
                | Some r' \<Rightarrow>
                    (let resolved = map (\<lambda>(slug, _, level). (slug, level)) rows;
                         non_full = filter (\<lambda>slug. dict_get resolved slug NONE \<noteq> FULL) slugs;
                         user_levels = (if non_full = [] then []
                                        else user_grant_levels ctx db now u non_full r' tid)
                     in Inr (Some r',
                          map (\<lambda>slug. (slug, max_level (dict_get resolved slug NONE)
                                               (dict_get user_levels slug NONE))) slugs))))))"

definition granted_levels ::
  "authz_ctx \<Rightarrow> authz_db \<Rightarrow> int \<Rightarrow> actor \<Rightarrow> string list \<Rightarrow> int option \<Rightarrow>
   (string \<times> grant_level) list res" where
  "granted_levels ctx db now user actions tid =
     res_bind (resolve_levels_and_role ctx db now user actions tid False) (\<lambda>(_, levels). Inr levels)"

definition granted_levels_with_role ::
  "authz_ctx \<Rightarrow> authz_db \<Rightarrow> int \<Rightarrow> actor \<Rightarrow> string list \<Rightarrow> int option \<Rightarrow>
   (role option \<times> (string \<times> grant_level) list) res" where
  "granted_levels_with_role ctx db now user actions tid =
     resolve_levels_and_role ctx db now user actions tid True"

definition resolve_level ::
  "authz_ctx \<Rightarrow> authz_db \<Rightarrow> int \<Rightarrow> actor \<Rightarrow> string \<Rightarrow> int option \<Rightarrow> grant_level res" where
  "resolve_level ctx db now user action tid =
     res_bind (resolve_levels_and_role ctx db now user [action] tid False) (\<lambda>(_, levels).
       the_row (map_of levels action) KeyError)"

section \<open>Decisions\<close>

text \<open>
  What a gate can be asked about: a client company, the asking account itself, or a record with
  the attributes the refinement looks for (\<^verbatim>\<open>client_id\<close>, \<^verbatim>\<open>actor_id\<close>, \<^verbatim>\<open>user_id\<close>).
\<close>

datatype auth_object =
    Company int
  | Asking_Account
  | Record "int option" "int option" "int option"

primrec client_id_of :: "auth_object \<Rightarrow> int option" where
  "client_id_of (Company pk) = Some pk"
| "client_id_of Asking_Account = None"
| "client_id_of (Record client actor user) = client"

definition is_attached_to ::
  "authz_ctx \<Rightarrow> authz_db \<Rightarrow> account \<Rightarrow> auth_object option \<Rightarrow> bool" where
  "is_attached_to ctx db u obj =
     (case obj of
        None \<Rightarrow> False
      | Some ob \<Rightarrow>
          (case client_id_of ob of
             None \<Rightarrow> False
           | Some cid \<Rightarrow>
               (case ax_client ctx of
                  Some portal \<Rightarrow> cid = portal
                | None \<Rightarrow> list_ex (\<lambda>a. as_user a = u_id u \<and> as_client a = cid)
                            (scoped ctx as_tenant (ad_assignments db)))))"

definition is_own_record :: "account \<Rightarrow> auth_object option \<Rightarrow> bool" where
  "is_own_record u obj =
     (case obj of
        None \<Rightarrow> False
      | Some Asking_Account \<Rightarrow> True
      | Some (Company _) \<Rightarrow> False
      | Some (Record _ actor user) \<Rightarrow>
          (case actor of
             Some a \<Rightarrow> a = u_id u
           | None \<Rightarrow> (case user of Some w \<Rightarrow> w = u_id u | None \<Rightarrow> False)))"

definition can ::
  "authz_ctx \<Rightarrow> authz_db \<Rightarrow> int \<Rightarrow> actor \<Rightarrow> string \<Rightarrow> auth_object option \<Rightarrow> int option \<Rightarrow> bool res" where
  "can ctx db now user action obj tid =
     res_bind (resolve_level ctx db now user action tid) (\<lambda>level.
       if level = FULL then Inr True
       else (case user of
               Anonymous \<Rightarrow> Inr False
             | Account u \<Rightarrow>
                 if level = LIMITED then Inr (is_attached_to ctx db u obj)
                 else if level = OWN then Inr (is_own_record u obj)
                 else Inr False))"

text \<open>
  A gated view: the refusal is a platform event, written outside the view's transaction, so it
  survives the rollback the exception causes.  The event names who asked for what.
\<close>

definition require_can ::
  "authz_ctx \<Rightarrow> authz_db \<Rightarrow> int \<Rightarrow> actor \<Rightarrow> string \<Rightarrow> ('s, 'a) tx \<Rightarrow>
   's \<times> (actor \<times> string) list \<Rightarrow> 'a res \<times> 's \<times> (actor \<times> string) list" where
  "require_can ctx db now user action view st =
     (case st of (s, refusals) \<Rightarrow>
        (case can ctx db now user action None None of
           Inl e \<Rightarrow> (Inl e, s, refusals)
         | Inr False \<Rightarrow> (Inl PermissionDenied, s, refusals @ [(user, action)])
         | Inr True \<Rightarrow> (case atomic view s of (r, s') \<Rightarrow> (r, s', refusals))))"

section \<open>The portfolio\<close>

definition VIEW_ASSIGNED :: string where "VIEW_ASSIGNED = ''clients.view_assigned''"
definition VIEW_ALL :: string where "VIEW_ALL = ''clients.view_all''"

definition FIRM_WIDE_ROLES :: "role list" where
  "FIRM_WIDE_ROLES = [OWNER, OPERATIONS_ADMIN]"

datatype portfolio_scope = SCOPE_NONE | SCOPE_ASSIGNED | SCOPE_ALL

definition scope_for_levels ::
  "role option \<Rightarrow> (string \<times> grant_level) list \<Rightarrow> portfolio_scope res" where
  "scope_for_levels r levels =
     res_bind (the_row (map_of levels VIEW_ASSIGNED) KeyError) (\<lambda>assigned.
       if assigned \<noteq> FULL then Inr SCOPE_NONE
       else res_bind (the_row (map_of levels VIEW_ALL) KeyError) (\<lambda>all.
         if all \<noteq> FULL then Inr SCOPE_ASSIGNED
         else if r \<in> Some ` set FIRM_WIDE_ROLES then Inr SCOPE_ALL
         else Inr SCOPE_ASSIGNED))"

definition portfolio_scope ::
  "authz_ctx \<Rightarrow> authz_db \<Rightarrow> int \<Rightarrow> actor \<Rightarrow> int option \<Rightarrow> portfolio_scope res" where
  "portfolio_scope ctx db now user tid =
     res_bind (granted_levels_with_role ctx db now user [VIEW_ASSIGNED, VIEW_ALL] tid)
       (\<lambda>(r, levels). scope_for_levels r levels)"

text \<open>
  \<^verbatim>\<open>assigned_to\<close> joins the firm's clients with the assignments of the account; the composite
  foreign key makes an assignment and its client agree on the firm.
\<close>

definition assigned_to :: "authz_ctx \<Rightarrow> authz_db \<Rightarrow> account \<Rightarrow> client list" where
  "assigned_to ctx db u =
     filter (\<lambda>c. list_ex (\<lambda>a. as_client a = c_id c \<and> as_user a = u_id u) (ad_assignments db))
       (scoped ctx c_tenant (ad_clients db))"

definition clients_in_scope ::
  "authz_ctx \<Rightarrow> authz_db \<Rightarrow> actor \<Rightarrow> portfolio_scope \<Rightarrow> client list" where
  "clients_in_scope ctx db user scope =
     (case support_clients ctx db of
        Some granted \<Rightarrow> granted
      | None \<Rightarrow>
          (case scope of
             SCOPE_ALL \<Rightarrow> scoped ctx c_tenant (ad_clients db)
           | SCOPE_ASSIGNED \<Rightarrow>
               (case user of Anonymous \<Rightarrow> [] | Account u \<Rightarrow> assigned_to ctx db u)
           | SCOPE_NONE \<Rightarrow> []))"

definition visible_clients ::
  "authz_ctx \<Rightarrow> authz_db \<Rightarrow> int \<Rightarrow> actor \<Rightarrow> int option \<Rightarrow> client list res" where
  "visible_clients ctx db now user tid =
     res_bind (portfolio_scope ctx db now user tid) (\<lambda>scope.
       Inr (clients_in_scope ctx db user scope))"

definition load_visible_client ::
  "authz_ctx \<Rightarrow> authz_db \<Rightarrow> int \<Rightarrow> actor \<Rightarrow> int \<Rightarrow> int option \<Rightarrow> client res" where
  "load_visible_client ctx db now user cid tid =
     res_bind (visible_clients ctx db now user tid) (\<lambda>clients.
       the_row (find (\<lambda>c. c_id c = cid) clients) Http404)"

text \<open>
  The roster of accounts whose portfolio is the whole firm, computed in bulk: a member's user is
  joined in, and each ceiling is met by the role's grant or by a live raise.
\<close>

definition member_superuser :: "authz_db \<Rightarrow> membership \<Rightarrow> bool" where
  "member_superuser db m =
     (case find (\<lambda>u. u_id u = ms_user m) (ad_users db) of None \<Rightarrow> False | Some u \<Rightarrow> u_superuser u)"

definition portfolio_full :: "authz_ctx \<Rightarrow> authz_db \<Rightarrow> int \<Rightarrow> membership \<Rightarrow> string \<Rightarrow> bool" where
  "portfolio_full ctx db now m action =
     (list_ex (\<lambda>g. rg_role g = ms_role m \<and> rg_slug g = action \<and> rg_level g = FULL)
        (ad_role_grants db) \<or>
      list_ex (\<lambda>g. (case ug_expires_at g of None \<Rightarrow> True | Some e \<Rightarrow> now < e) \<and>
                   ug_tenant g = ms_tenant m \<and> ug_user g = ms_user m \<and> ug_slug g = action \<and>
                   ug_level g = FULL \<and> ug_revoked_at g = None)
        (scoped ctx ug_tenant (ad_user_grants db)))"

definition firm_wide_memberships ::
  "authz_ctx \<Rightarrow> authz_db \<Rightarrow> int \<Rightarrow> membership list \<Rightarrow> membership list" where
  "firm_wide_memberships ctx db now rows =
     (if in_support_mode ctx \<or> ax_stash ctx \<noteq> None \<or> ax_client ctx \<noteq> None then []
      else filter (\<lambda>m. ms_active m \<and> ms_client m = None \<and> ms_role m \<in> set FIRM_WIDE_ROLES \<and>
                       list_all (\<lambda>action. member_superuser db m \<or> portfolio_full ctx db now m action)
                         [VIEW_ASSIGNED, VIEW_ALL]) rows)"

definition assignable_members :: "authz_ctx \<Rightarrow> authz_db \<Rightarrow> int \<Rightarrow> int \<Rightarrow> int \<Rightarrow> membership list" where
  "assignable_members ctx db now cid tid =
     (let members = filter (\<lambda>m. ms_tenant m = tid \<and> ms_client m = None \<and> ms_active m)
                      (ad_memberships db);
          firm_wide = map ms_id (firm_wide_memberships ctx db now members)
      in filter (\<lambda>m. list_ex (\<lambda>a. as_tenant a = tid \<and> as_client a = cid \<and> as_user a = ms_user m)
                       (scoped ctx as_tenant (ad_assignments db)) \<or>
                     ms_id m \<in> set firm_wide) members)"

section \<open>The firm account\<close>

definition ACCOUNT_CAPABILITY :: string where "ACCOUNT_CAPABILITY = ''tenants.account''"

definition can_manage_account :: "authz_ctx \<Rightarrow> authz_db \<Rightarrow> int \<Rightarrow> actor \<Rightarrow> int \<Rightarrow> bool res" where
  "can_manage_account ctx db now user tid =
     (case user of
        Anonymous \<Rightarrow> Inr False
      | Account u \<Rightarrow>
          if \<not> u_active u then Inr False
          else res_bind (can ctx db now user ACCOUNT_CAPABILITY None (Some tid)) (\<lambda>ok.
            if \<not> ok then Inr False
            else Inr (list_ex (\<lambda>m. ms_tenant m = tid \<and> ms_user m = u_id u \<and> ms_client m = None \<and>
                                   ms_active m \<and> ms_role m = OWNER) (ad_memberships db))))"

definition require_account_owner :: "authz_ctx \<Rightarrow> authz_db \<Rightarrow> int \<Rightarrow> actor \<Rightarrow> int \<Rightarrow> unit res" where
  "require_account_owner ctx db now user tid =
     res_bind (can_manage_account ctx db now user tid) (\<lambda>ok. require ok PermissionDenied)"

end
