(* ===== verification/Authorization_Guarantees.thy ===== *)
theory Authorization_Guarantees
  imports Authorization
begin

text \<open>
  What the authorization code guarantees: one closed form for every way a level is resolved, and
  from it the agreement of the bulk and the single resolution, the reach of a support session and
  of a client seat, and the exact set of clients and colleagues an account sees.
\<close>

section \<open>The closed form of a level\<close>

definition firm_ctx :: "authz_ctx \<Rightarrow> bool" where
  "firm_ctx ctx \<longleftrightarrow> ax_stash ctx = None \<and> ax_support ctx = None"

definition user_level :: "authz_ctx \<Rightarrow> authz_db \<Rightarrow> int \<Rightarrow> account \<Rightarrow> role \<Rightarrow> int option \<Rightarrow> string \<Rightarrow> grant_level" where
  "user_level ctx db now u r tid slug =
     dict_get (user_grant_levels ctx db now u [slug] r tid) slug NONE"

definition plain_level :: "authz_ctx \<Rightarrow> authz_db \<Rightarrow> int \<Rightarrow> actor \<Rightarrow> int option \<Rightarrow> string \<Rightarrow> grant_level" where
  "plain_level ctx db now user tid slug =
     (case user of
        Anonymous \<Rightarrow> NONE
      | Account u \<Rightarrow>
          if u_superuser u then FULL
          else (case role_of ctx db u tid of
                  None \<Rightarrow> NONE
                | Some r \<Rightarrow> max_level (role_level db (Some r) slug) (user_level ctx db now u r tid slug)))"

definition plain_role :: "authz_ctx \<Rightarrow> authz_db \<Rightarrow> actor \<Rightarrow> int option \<Rightarrow> bool \<Rightarrow> role option" where
  "plain_role ctx db user tid include_su =
     (case user of
        Anonymous \<Rightarrow> None
      | Account u \<Rightarrow> if u_superuser u \<and> \<not> include_su then None else role_of ctx db u tid)"

lemma dict_get_snoc:
  "dict_get (items @ [(k', v)]) k d = (if k' = k then v else dict_get items k d)"
  by (simp add: dict_get_def)

lemma dict_get_map_filter_cong:
  assumes "\<And>x. x \<in> set xs \<Longrightarrow> fst (f x) = k \<Longrightarrow> P x = Q x"
  shows "dict_get (map f (filter P xs)) k d = dict_get (map f (filter Q xs)) k d"
  using assms
proof (induction xs rule: rev_induct)
  case Nil
  then show ?case by simp
next
  case (snoc x xs)
  obtain k' v where fx: "f x = (k', v)" by (cases "f x")
  have IH: "dict_get (map f (filter P xs)) k d = dict_get (map f (filter Q xs)) k d"
    using snoc by simp
  show ?case
    using snoc.prems[of x] IH by (cases "k' = k") (auto simp: fx dict_get_snoc)
qed

lemma user_level_local:
  assumes "slug \<in> set slugs"
  shows "dict_get (user_grant_levels ctx db now u slugs r tid) slug NONE = user_level ctx db now u r tid slug"
  using assms unfolding user_level_def user_grant_levels_def
  by (auto split: option.splits intro!: dict_get_map_filter_cong)

lemma fst_role_grant_rows:
  "map fst (role_grant_rows ctx db user slugs tid) =
     filter (\<lambda>slug. slug \<in> set slugs) (ad_capabilities db)"
  by (simp add: role_grant_rows_def Let_def comp_def split: actor.splits)

lemma resolve_firm:
  assumes "firm_ctx ctx"
  shows "resolve_levels_and_role ctx db now user actions tid su =
     (if \<exists>slug \<in> set actions. slug \<notin> set (ad_capabilities db) then Inl UnknownCapability
      else Inr (plain_role ctx db user tid su,
                map (\<lambda>slug. (slug, plain_level ctx db now user tid slug)) (dict_fromkeys actions)))"
proof (cases "\<exists>slug \<in> set actions. slug \<notin> set (ad_capabilities db)")
  case True
  then show ?thesis
    using assms
    by (auto simp: resolve_levels_and_role_def firm_ctx_def in_support_mode_def Let_def
        fst_role_grant_rows simp flip: set_map)
next
  case False
  let ?slugs = "dict_fromkeys actions"
  let ?rows = "role_grant_rows ctx db user ?slugs tid"
  have known: "\<not> (\<exists>slug \<in> set ?slugs. slug \<notin> set (map fst ?rows))"
    using False by (auto simp: fst_role_grant_rows simp del: set_map)
  show ?thesis
  proof (cases user)
    case Anonymous
    then show ?thesis
      using assms False known
      by (simp add: resolve_levels_and_role_def firm_ctx_def in_support_mode_def Let_def
          plain_role_def plain_level_def)
  next
    case (Account u)
    show ?thesis
    proof (cases "u_superuser u")
      case True
      then show ?thesis
        using assms False known Account
        by (simp add: resolve_levels_and_role_def firm_ctx_def in_support_mode_def Let_def
            plain_role_def plain_level_def)
    next
      case ordinary: False
      have rows: "?rows = map (\<lambda>slug. (slug, role_of ctx db u tid, role_level db (role_of ctx db u tid) slug))
          (filter (\<lambda>slug. slug \<in> set actions) (ad_capabilities db))"
        using Account ordinary by (simp add: role_grant_rows_def Let_def)
      then have first: "(case ?rows of [] \<Rightarrow> role_of ctx db u tid | row # _ \<Rightarrow> fst (snd row)) =
          role_of ctx db u tid"
        by (cases ?rows) auto
      show ?thesis
      proof (cases "role_of ctx db u tid")
        case None
        with assms False known Account ordinary first show ?thesis
          by (simp add: resolve_levels_and_role_def firm_ctx_def in_support_mode_def Let_def
              plain_role_def plain_level_def)
      next
        case (Some r)
        define resolved where "resolved = map (\<lambda>(slug, _, level). (slug, level)) ?rows"
        have res: "dict_get resolved slug NONE = role_level db (Some r) slug"
          if "slug \<in> set actions" for slug
          using that False
          by (auto simp: resolved_def rows comp_def Some intro!: dict_get_map_key)
        define non_full where "non_full = filter (\<lambda>slug. dict_get resolved slug NONE \<noteq> FULL) ?slugs"
        define users where "users = (if non_full = [] then [] else user_grant_levels ctx db now u non_full r tid)"
        have lev: "max_level (dict_get resolved slug NONE) (dict_get users slug NONE) =
            plain_level ctx db now user tid slug" if slug: "slug \<in> set actions" for slug
        proof (cases "role_level db (Some r) slug = FULL")
          case True
          then show ?thesis
            using res[OF slug] Account ordinary Some by (simp add: plain_level_def)
        next
          case False
          then have "slug \<in> set non_full" using slug res[OF slug] by (simp add: non_full_def)
          then have "dict_get users slug NONE = user_level ctx db now u r tid slug"
            using user_level_local by (auto simp: users_def)
          then show ?thesis
            using res[OF slug] Account ordinary Some by (simp add: plain_level_def)
        qed
        have "resolve_levels_and_role ctx db now user actions tid su =
            Inr (Some r, map (\<lambda>slug. (slug, max_level (dict_get resolved slug NONE)
                                        (dict_get users slug NONE))) ?slugs)"
          using assms known Account ordinary first Some
          by (simp add: resolve_levels_and_role_def firm_ctx_def in_support_mode_def Let_def
              resolved_def non_full_def users_def)
        also have "\<dots> = Inr (Some r, map (\<lambda>slug. (slug, plain_level ctx db now user tid slug)) ?slugs)"
          using lev by simp
        finally show ?thesis
          using False Account ordinary Some by (simp add: plain_role_def)
      qed
    qed
  qed
qed

lemma resolve_level_firm:
  assumes "firm_ctx ctx"
  shows "resolve_level ctx db now user action tid =
     (if action \<in> set (ad_capabilities db) then Inr (plain_level ctx db now user tid action)
      else Inl UnknownCapability)"
  by (simp add: resolve_level_def resolve_firm[OF assms])

text \<open>C35: Two ways of asking cannot drift: resolving several capabilities in bulk gives, for every
  caller, context and database, exactly the dictionary of the single resolutions of its distinct
  capabilities, and fails with the same exception when one of them fails.\<close>

theorem bulk_resolution_agrees:
  "granted_levels ctx db now user actions tid =
     res_map (\<lambda>action. res_bind (resolve_level ctx db now user action tid) (\<lambda>level. Inr (action, level)))
       (dict_fromkeys actions)"
proof (cases "ax_stash ctx")
  case (Some st)
  have "resolve_level ctx db now user a tid =
      res_bind (stashed_level ctx user a tid) (\<lambda>level. Inr (case level of None \<Rightarrow> NONE | Some l \<Rightarrow> l))" for a
    using Some
    by (cases "stashed_level ctx user a tid") (simp_all add: resolve_level_def resolve_levels_and_role_def)
  then show ?thesis
    using Some
    by (simp add: granted_levels_def resolve_levels_and_role_def res_bind_assoc Let_def)
       (cases "res_map (\<lambda>slug. res_bind (stashed_level ctx user slug tid)
                 (\<lambda>level. Inr (slug, case level of None \<Rightarrow> NONE | Some l \<Rightarrow> l))) (dict_fromkeys actions)"; simp)
next
  case stash: None
  show ?thesis
  proof (cases "ax_support ctx")
    case (Some sc)
    have "resolve_level ctx db now user a tid =
        Inr (case support_level ctx a of None \<Rightarrow> NONE | Some l \<Rightarrow> l)" for a
      using stash Some
      by (simp add: resolve_level_def resolve_levels_and_role_def in_support_mode_def)
    then show ?thesis
      using stash Some
      by (simp add: granted_levels_def resolve_levels_and_role_def in_support_mode_def
          res_map_total[where g = "\<lambda>a. (a, case support_level ctx a of None \<Rightarrow> NONE | Some l \<Rightarrow> l)"])
  next
    case None
    with stash have firm: "firm_ctx ctx" by (simp add: firm_ctx_def)
    show ?thesis
    proof (cases "\<exists>slug \<in> set actions. slug \<notin> set (ad_capabilities db)")
      case True
      then obtain slug where "slug \<in> set (dict_fromkeys actions)" "slug \<notin> set (ad_capabilities db)"
        by auto
      then have "res_map (\<lambda>action. res_bind (resolve_level ctx db now user action tid)
            (\<lambda>level. Inr (action, level))) (dict_fromkeys actions) = Inl UnknownCapability"
        by (intro res_map_fails[where x = slug])
           (auto simp: resolve_level_firm[OF firm] split: if_splits)
      with True show ?thesis by (simp add: granted_levels_def resolve_firm[OF firm])
    next
      case False
      then show ?thesis
        by (simp add: granted_levels_def resolve_firm[OF firm])
           (intro sym[OF res_map_total], auto simp: resolve_level_firm[OF firm])
    qed
  qed
qed

section \<open>Outright permission\<close>

lemma can_None_iff:
  "can ctx db now user action None tid = Inr True \<longleftrightarrow>
     resolve_level ctx db now user action tid = Inr FULL"
  by (cases "resolve_level ctx db now user action tid"; cases user)
     (auto simp: can_def is_attached_to_def is_own_record_def)

lemma can_firm_iff:
  assumes "firm_ctx ctx"
  shows "can ctx db now user action None tid = Inr True \<longleftrightarrow>
     action \<in> set (ad_capabilities db) \<and> plain_level ctx db now user tid action = FULL"
  by (simp add: can_None_iff resolve_level_firm[OF assms])

lemma can_needs_level:
  assumes "can ctx db now user action obj tid = Inr True"
  obtains level where "resolve_level ctx db now user action tid = Inr level" "level \<noteq> NONE"
proof -
  from assms obtain level where l: "resolve_level ctx db now user action tid = Inr level"
    by (auto simp: can_def res_bind_eq_Inr)
  then have "level \<noteq> NONE"
    using assms by (auto simp: can_def split: actor.splits)
  with l show ?thesis using that by blast
qed

lemma role_of_grants [simp]: "role_of ctx (db\<lparr>ad_user_grants := grants\<rparr>) u tid = role_of ctx db u tid"
  by (simp add: role_of_def membership_rows_def cong: option.case_cong)

lemma role_level_grants [simp]:
  "role_level (db\<lparr>ad_user_grants := grants\<rparr>) r slug = role_level db r slug"
  by (simp add: role_level_def cong: option.case_cong)

text \<open>A raise on a client seat is inert: whatever rows the user-grant table holds, an account
  whose live seat has a client role resolves every capability exactly as its role grant says.\<close>

theorem client_seat_ignores_raises:
  assumes "firm_ctx ctx" "role_of ctx db u tid = Some r" "r \<in> set CLIENT_ROLES"
    "\<not> u_superuser u" "action \<in> set (ad_capabilities db)"
  shows "resolve_level ctx (db\<lparr>ad_user_grants := grants\<rparr>) now (Account u) action tid =
     Inr (role_level db (Some r) action)"
  using assms
  by (simp add: resolve_level_firm plain_level_def user_level_def user_grant_levels_def)

section \<open>A support session\<close>

text \<open>A support session acts within the owner's decision: whatever the account's own role, or its
  superuser flag, it performs outright only the four read capabilities, or the settings write when
  the grant's scope allows it, and every client it is shown is of the firm in context and named by
  the grant.\<close>

theorem support_session_reach:
  assumes "ax_support ctx = Some sc" "ax_stash ctx = None"
    "can ctx db now user action obj tid = Inr True"
    "visible_clients ctx db now user tid = Inr clients" "c \<in> set clients"
  shows "(action \<in> set SUPPORT_READ_CAPABILITIES \<or>
            action = SETTINGS_WRITE_CAPABILITY \<and> sc_scope sc = READ_WRITE_SETTINGS) \<and>
         c_id c \<in> set (sc_clients sc) \<and> ax_tenant ctx = Some (c_tenant c)"
proof -
  obtain level where "resolve_level ctx db now user action tid = Inr level" "level \<noteq> NONE"
    by (rule can_needs_level[OF assms(3)])
  with assms(1,2) have "action \<in> set SUPPORT_READ_CAPABILITIES \<or>
      action = SETTINGS_WRITE_CAPABILITY \<and> sc_scope sc = READ_WRITE_SETTINGS"
    by (auto simp: resolve_level_def resolve_levels_and_role_def in_support_mode_def
        support_level_def split: if_splits)
  moreover have "c_id c \<in> set (sc_clients sc) \<and> ax_tenant ctx = Some (c_tenant c)"
    using assms(1,4,5)
    by (auto simp: visible_clients_def clients_in_scope_def support_clients_def scoped_def
        res_bind_eq_Inr split: if_splits option.splits)
  ultimately show ?thesis by blast
qed

section \<open>The portfolio\<close>

lemma portfolio_scope_firm:
  assumes "firm_ctx ctx" "VIEW_ASSIGNED \<in> set (ad_capabilities db)" "VIEW_ALL \<in> set (ad_capabilities db)"
  shows "portfolio_scope ctx db now user tid =
     Inr (if plain_level ctx db now user tid VIEW_ASSIGNED \<noteq> FULL then SCOPE_NONE
          else if plain_level ctx db now user tid VIEW_ALL \<noteq> FULL then SCOPE_ASSIGNED
          else if plain_role ctx db user tid True \<in> Some ` set FIRM_WIDE_ROLES then SCOPE_ALL
          else SCOPE_ASSIGNED)"
proof -
  have "VIEW_ASSIGNED \<noteq> VIEW_ALL" by (simp add: VIEW_ASSIGNED_def VIEW_ALL_def)
  then have "dict_fromkeys [VIEW_ASSIGNED, VIEW_ALL] = [VIEW_ASSIGNED, VIEW_ALL]"
    by (simp add: dict_fromkeys_def)
  with assms \<open>VIEW_ASSIGNED \<noteq> VIEW_ALL\<close> show ?thesis
    by (simp add: portfolio_scope_def granted_levels_with_role_def resolve_firm scope_for_levels_def)
qed

text \<open>C19: The portfolio never widens past the matrix: outside support and portal sessions a client is
  visible to an account exactly when it is a client of the firm in context, the account may view
  its assigned clients, and either the client is assigned to it or the account may view all
  clients and its live role is one whose job is the whole firm.\<close>

theorem visible_client_iff:
  assumes "firm_ctx ctx" "VIEW_ASSIGNED \<in> set (ad_capabilities db)" "VIEW_ALL \<in> set (ad_capabilities db)"
  shows "(\<exists>clients. visible_clients ctx db now (Account u) tid = Inr clients \<and> c \<in> set clients) \<longleftrightarrow>
     c \<in> set (scoped ctx c_tenant (ad_clients db)) \<and>
     can ctx db now (Account u) VIEW_ASSIGNED None tid = Inr True \<and>
     ((\<exists>a \<in> set (ad_assignments db). as_client a = c_id c \<and> as_user a = u_id u) \<or>
      can ctx db now (Account u) VIEW_ALL None tid = Inr True \<and>
      role_of ctx db u tid \<in> Some ` set FIRM_WIDE_ROLES)"
proof -
  have "support_clients ctx db = None"
    using assms(1) by (simp add: support_clients_def firm_ctx_def)
  moreover have "plain_role ctx db (Account u) tid True = role_of ctx db u tid"
    by (simp add: plain_role_def)
  ultimately show ?thesis
    using assms
    by (auto simp: visible_clients_def portfolio_scope_firm can_firm_iff clients_in_scope_def
        assigned_to_def list_ex_iff)
qed

section \<open>The firm-wide roster\<close>

text \<open>The uniqueness constraints of the tables.\<close>

definition authz_wf :: "authz_db \<Rightarrow> bool" where
  "authz_wf db \<longleftrightarrow>
     distinct (map u_id (ad_users db)) \<and>
     distinct (map (\<lambda>m. (ms_user m, ms_tenant m, ms_client m)) (ad_memberships db)) \<and>
     distinct (map (\<lambda>g. (rg_role g, rg_slug g)) (ad_role_grants db)) \<and>
     distinct (map (\<lambda>g. (ug_tenant g, ug_user g, ug_slug g))
       (filter (\<lambda>g. ug_revoked_at g = None) (ad_user_grants db)))"

lemma distinct_map_find:
  assumes "distinct (map key rows)" "r \<in> set rows" "\<And>x. P x \<longleftrightarrow> key x = key r"
  shows "find P rows = Some r"
  using assms
proof (induction rows)
  case Nil
  then show ?case by simp
next
  case (Cons x xs)
  then show ?case by (cases "x = r") auto
qed

lemma distinct_filter_single:
  assumes "distinct (map key rows)" "r \<in> set rows" "P r" "\<And>x. P x \<Longrightarrow> key x = key r"
  shows "filter P rows = [r]"
  using assms
proof (induction rows)
  case Nil
  then show ?case by simp
next
  case (Cons x xs)
  show ?case
  proof (cases "x = r")
    case True
    have "key r \<notin> key ` set xs" using Cons.prems(1) True by simp
    then have "\<not> P y" if "y \<in> set xs" for y
      using that Cons.prems(4)[of y] by (metis image_eqI)
    then show ?thesis using True Cons.prems(3) by (simp add: filter_empty_conv)
  next
    case False
    then have "r \<in> set xs" using Cons.prems(2) by simp
    then have "key x \<noteq> key r" using Cons.prems(1) by auto
    then have "\<not> P x" using Cons.prems(4) by blast
    moreover have "filter P xs = [r]"
      using Cons.IH[OF _ \<open>r \<in> set xs\<close> Cons.prems(3,4)] Cons.prems(1) by simp
    ultimately show ?thesis by simp
  qed
qed

lemma role_of_seat:
  assumes "authz_wf db" "m \<in> set (ad_memberships db)" "ms_user m = u_id u" "ms_active m"
    "ms_client m = ax_client ctx" "resolved_tenant ctx tid = Some (ms_tenant m)"
  shows "role_of ctx db u tid = Some (ms_role m)"
proof -
  have "filter (\<lambda>x. ms_user x = u_id u \<and> ms_tenant x = ms_tenant m \<and> ms_active x \<and>
          ms_client x = ax_client ctx) (ad_memberships db) = [m]"
    using assms
    by (intro distinct_filter_single[where key = "\<lambda>m. (ms_user m, ms_tenant m, ms_client m)"])
       (auto simp: authz_wf_def)
  then show ?thesis
    using assms(6) by (simp add: role_of_def membership_rows_def)
qed

lemma role_level_FULL:
  assumes "authz_wf db"
  shows "role_level db (Some r) slug = FULL \<longleftrightarrow>
     (\<exists>g \<in> set (ad_role_grants db). rg_role g = r \<and> rg_slug g = slug \<and> rg_level g = FULL)"
proof -
  have "find (\<lambda>x. rg_slug x = slug \<and> rg_role x = r) (ad_role_grants db) = Some g"
    if "g \<in> set (ad_role_grants db)" "rg_role g = r" "rg_slug g = slug" for g
    using that assms
    by (intro distinct_map_find[where key = "\<lambda>g. (rg_role g, rg_slug g)"]) (auto simp: authz_wf_def)
  note one = this
  show ?thesis
  proof
    assume lhs: "role_level db (Some r) slug = FULL"
    then obtain g where "find (\<lambda>x. rg_slug x = slug \<and> rg_role x = r) (ad_role_grants db) = Some g"
      by (auto simp: role_level_def split: option.splits)
    with lhs show "\<exists>g \<in> set (ad_role_grants db). rg_role g = r \<and> rg_slug g = slug \<and> rg_level g = FULL"
      by (auto simp: role_level_def dest!: find_Some_iff_first)
  next
    assume "\<exists>g \<in> set (ad_role_grants db). rg_role g = r \<and> rg_slug g = slug \<and> rg_level g = FULL"
    then obtain g where "g \<in> set (ad_role_grants db)" "rg_role g = r" "rg_slug g = slug" "rg_level g = FULL"
      by blast
    with one[of g] show "role_level db (Some r) slug = FULL"
      by (simp add: role_level_def)
  qed
qed

lemma user_level_FULL:
  assumes "authz_wf db" "r \<notin> set CLIENT_ROLES" "resolved_tenant ctx tid = Some t"
  shows "user_level ctx db now u r tid slug = FULL \<longleftrightarrow>
     (\<exists>g \<in> set (ad_user_grants db). grant_live now g \<and> ug_tenant g = t \<and> ug_user g = u_id u \<and>
        ug_slug g = slug \<and> ug_level g = FULL)"
proof -
  let ?live = "filter (\<lambda>g. ug_revoked_at g = None) (ad_user_grants db)"
  let ?P = "\<lambda>g. grant_live now g \<and> ug_tenant g = t \<and> ug_user g = u_id u \<and> ug_slug g \<in> set [slug]"
  have live: "filter ?P (ad_user_grants db) = filter ?P ?live"
    unfolding filter_filter by (rule filter_cong) (auto simp: grant_live_def)
  have lvl: "user_level ctx db now u r tid slug =
      dict_get (map (\<lambda>g. (ug_slug g, ug_level g)) (filter ?P ?live)) slug NONE"
    unfolding user_level_def user_grant_levels_def live[symmetric] using assms(2,3) by simp
  have one: "filter ?P ?live = [g]"
    if "g \<in> set ?live" "?P g" for g
    using that assms(1)
    by (intro distinct_filter_single[where key = "\<lambda>g. (ug_tenant g, ug_user g, ug_slug g)"])
       (auto simp: authz_wf_def)
  show ?thesis
  proof
    assume "user_level ctx db now u r tid slug = FULL"
    then have "(slug, FULL) \<in> set (map (\<lambda>g. (ug_slug g, ug_level g)) (filter ?P ?live))"
      unfolding lvl by (rule dict_get_mem) simp
    then show "\<exists>g \<in> set (ad_user_grants db). grant_live now g \<and> ug_tenant g = t \<and>
        ug_user g = u_id u \<and> ug_slug g = slug \<and> ug_level g = FULL"
      by auto
  next
    assume "\<exists>g \<in> set (ad_user_grants db). grant_live now g \<and> ug_tenant g = t \<and>
        ug_user g = u_id u \<and> ug_slug g = slug \<and> ug_level g = FULL"
    then obtain g where g: "g \<in> set ?live" "?P g" "ug_slug g = slug" "ug_level g = FULL"
      by (auto simp: grant_live_def)
    show "user_level ctx db now u r tid slug = FULL"
      unfolding lvl one[OF g(1,2)] using g(3,4) by (simp add: dict_get_def)
  qed
qed

lemma max_level_FULL_iff: "max_level a b = FULL \<longleftrightarrow> a = FULL \<or> b = FULL"
  by (cases a; cases b) (simp_all add: max_level_def)

lemma portfolio_full_iff:
  assumes "authz_wf db" "ax_tenant ctx = Some (ms_tenant m)" "ms_user m = u_id u"
    "ms_role m \<notin> set CLIENT_ROLES" "resolved_tenant ctx tid = Some (ms_tenant m)"
  shows "portfolio_full ctx db now m action \<longleftrightarrow>
     max_level (role_level db (Some (ms_role m)) action)
       (user_level ctx db now u (ms_role m) tid action) = FULL"
  unfolding max_level_FULL_iff role_level_FULL[OF assms(1)]
    user_level_FULL[OF assms(1,4,5)] portfolio_full_def list_ex_iff scoped_def assms(2)
  by (auto simp: grant_live_def assms(3))

text \<open>The bulk roster is the resolver's answer: for a firm seat of the firm in context, the seat is
  listed among the firm-wide members exactly when its account's own live portfolio would be the
  whole firm.\<close>

theorem firm_wide_roster_exact:
  assumes "authz_wf db" "firm_ctx ctx" "ax_client ctx = None" "ax_tenant ctx = Some (ms_tenant m)"
    "VIEW_ASSIGNED \<in> set (ad_capabilities db)" "VIEW_ALL \<in> set (ad_capabilities db)"
    "m \<in> set (ad_memberships db)" "ms_active m" "ms_client m = None"
    "u \<in> set (ad_users db)" "u_id u = ms_user m"
  shows "m \<in> set (firm_wide_memberships ctx db now (ad_memberships db)) \<longleftrightarrow>
     portfolio_scope ctx db now (Account u) None = Inr SCOPE_ALL"
proof -
  have tenant: "resolved_tenant ctx None = Some (ms_tenant m)"
    using assms(4) by (simp add: resolved_tenant_def)
  have seat: "role_of ctx db u None = Some (ms_role m)"
    using assms by (intro role_of_seat[OF assms(1,7)]) (simp_all add: tenant)
  have super: "member_superuser db m = u_superuser u"
  proof -
    have "find (\<lambda>x. u_id x = ms_user m) (ad_users db) = Some u"
      using assms(1,10,11) by (intro distinct_map_find[where key = u_id]) (auto simp: authz_wf_def)
    then show ?thesis by (simp add: member_superuser_def)
  qed
  have level: "plain_level ctx db now (Account u) None action = FULL \<longleftrightarrow>
      member_superuser db m \<or> portfolio_full ctx db now m action"
    if "ms_role m \<in> set FIRM_WIDE_ROLES" for action
  proof -
    have "ms_role m \<notin> set CLIENT_ROLES" using that by (auto simp: FIRM_WIDE_ROLES_def CLIENT_ROLES_def)
    from portfolio_full_iff[OF assms(1,4) assms(11)[symmetric] this tenant]
    show ?thesis by (simp add: plain_level_def seat super)
  qed
  have "plain_role ctx db (Account u) None True = Some (ms_role m)"
    by (simp add: plain_role_def seat)
  then show ?thesis
    using assms(2,3,7-9) level
    by (auto simp: firm_wide_memberships_def portfolio_scope_firm[OF assms(2,5,6)] in_support_mode_def
        firm_ctx_def)
qed

section \<open>A concrete firm\<close>

text \<open>
  Firm 1 keeps books for clients 11 and 12; its owner is account 1, its accountant, assigned to
  client 11, is account 2, the owner of client 11 has the portal seat of account 3 and account 9
  is the platform's.
\<close>

definition demo_client :: "int \<Rightarrow> client" where
  "demo_client cid =
     \<lparr>c_id = cid, c_tenant = 1, c_status = CL_ACTIVE, c_is_mei = True, c_mei_category = COMMON,
      c_opened_on = None, c_tax_profile_revision = 0\<rparr>"

definition demo_account :: "int \<Rightarrow> account" where
  "demo_account uid = \<lparr>u_id = uid, u_active = True, u_superuser = (uid = 9)\<rparr>"

definition demo_seat :: "int \<Rightarrow> int \<Rightarrow> int option \<Rightarrow> role \<Rightarrow> membership" where
  "demo_seat mid uid cid r =
     \<lparr>ms_id = mid, ms_user = uid, ms_tenant = 1, ms_client = cid, ms_role = r, ms_active = True,
      ms_review_version = 0, ms_version = 1\<rparr>"

definition demo_grant :: "role \<Rightarrow> string \<Rightarrow> grant_level \<Rightarrow> role_grant" where
  "demo_grant r slug level =
     \<lparr>rg_id = 0, rg_role = r, rg_slug = slug, rg_level = level, rg_version = 1\<rparr>"

definition demo_raise :: user_grant where
  "demo_raise =
     \<lparr>ug_id = 70, ug_tenant = 1, ug_user = 3, ug_slug = ''actions.approve'', ug_level = FULL,
      ug_granted_by = Some 1, ug_revoked_at = None, ug_expires_at = None, ug_version = 1\<rparr>"

definition demo_authz :: authz_db where
  "demo_authz =
     \<lparr>ad_capabilities = [VIEW_ASSIGNED, VIEW_ALL, ''actions.approve'', ''billing.manage''],
      ad_role_grants =
        [demo_grant OWNER VIEW_ASSIGNED FULL, demo_grant OWNER VIEW_ALL FULL,
         demo_grant STAFF_ACCOUNTANT VIEW_ASSIGNED FULL, demo_grant STAFF_ACCOUNTANT VIEW_ALL FULL,
         demo_grant CLIENT_OWNER VIEW_ASSIGNED FULL],
      ad_user_grants = [],
      ad_memberships =
        [demo_seat 21 1 None OWNER, demo_seat 22 2 None STAFF_ACCOUNTANT,
         demo_seat 23 3 (Some 11) CLIENT_OWNER],
      ad_assignments = [\<lparr>as_id = 31, as_tenant = 1, as_client = 11, as_user = 2, as_role = PRIMARY\<rparr>],
      ad_clients = [demo_client 11, demo_client 12],
      ad_users = [demo_account 1, demo_account 2, demo_account 3, demo_account 9]\<rparr>"

definition demo_ctx :: authz_ctx where
  "demo_ctx = \<lparr>ax_tenant = Some 1, ax_client = None, ax_stash = None, ax_support = None\<rparr>"

definition demo_support :: support_context where
  "demo_support = \<lparr>sc_grant = 40, sc_tenant = 1, sc_scope = READ_ONLY, sc_clients = [12]\<rparr>"

theorem client_seat_ignores_raises_witness:
  "resolve_level (demo_ctx\<lparr>ax_client := Some 11\<rparr>) (demo_authz\<lparr>ad_user_grants := [demo_raise]\<rparr>) 0
     (Account (demo_account 3)) ''actions.approve'' None = Inr NONE"
proof -
  have "resolve_level (demo_ctx\<lparr>ax_client := Some 11\<rparr>) (demo_authz\<lparr>ad_user_grants := [demo_raise]\<rparr>) 0
     (Account (demo_account 3)) ''actions.approve'' None =
     Inr (role_level demo_authz (Some CLIENT_OWNER) ''actions.approve'')"
    by (rule client_seat_ignores_raises) code_simp+
  also have "role_level demo_authz (Some CLIENT_OWNER) ''actions.approve'' = NONE" by code_simp
  finally show ?thesis .
qed

theorem support_session_reach_witness:
  "(VIEW_ALL \<in> set SUPPORT_READ_CAPABILITIES \<or>
      VIEW_ALL = SETTINGS_WRITE_CAPABILITY \<and> sc_scope demo_support = READ_WRITE_SETTINGS) \<and>
   c_id (demo_client 12) \<in> set (sc_clients demo_support) \<and>
   ax_tenant (demo_ctx\<lparr>ax_support := Some demo_support\<rparr>) = Some (c_tenant (demo_client 12))"
  by (rule support_session_reach[where ctx = "demo_ctx\<lparr>ax_support := Some demo_support\<rparr>"
        and db = demo_authz and now = 0 and user = "Account (demo_account 9)" and obj = None
        and tid = None and clients = "[demo_client 12]"])
     code_simp+

theorem visible_client_iff_witness:
  "\<not> (\<exists>clients. visible_clients demo_ctx demo_authz 0 (Account (demo_account 2)) None = Inr clients \<and>
        demo_client 12 \<in> set clients) \<and>
   (\<exists>clients. visible_clients demo_ctx demo_authz 0 (Account (demo_account 2)) None = Inr clients \<and>
        demo_client 11 \<in> set clients)"
proof -
  have hyps: "firm_ctx demo_ctx" "VIEW_ASSIGNED \<in> set (ad_capabilities demo_authz)"
    "VIEW_ALL \<in> set (ad_capabilities demo_authz)"
    by (simp_all add: firm_ctx_def demo_ctx_def demo_authz_def)
  have "\<not> list_ex (\<lambda>a. as_client a = c_id (demo_client 12) \<and> as_user a = u_id (demo_account 2))
      (ad_assignments demo_authz)"
    "role_of demo_ctx demo_authz (demo_account 2) None \<notin> Some ` set FIRM_WIDE_ROLES"
    "demo_client 11 \<in> set (scoped demo_ctx c_tenant (ad_clients demo_authz))"
    "can demo_ctx demo_authz 0 (Account (demo_account 2)) VIEW_ASSIGNED None None = Inr True"
    "list_ex (\<lambda>a. as_client a = c_id (demo_client 11) \<and> as_user a = u_id (demo_account 2))
      (ad_assignments demo_authz)"
    by code_simp+
  then show ?thesis
    unfolding visible_client_iff[OF hyps] list_ex_iff by blast
qed

theorem firm_wide_roster_exact_witness:
  "demo_seat 21 1 None OWNER \<in> set (firm_wide_memberships demo_ctx demo_authz 0 (ad_memberships demo_authz)) \<longleftrightarrow>
     portfolio_scope demo_ctx demo_authz 0 (Account (demo_account 1)) None = Inr SCOPE_ALL"
  by (rule firm_wide_roster_exact)
     (simp_all add: authz_wf_def firm_ctx_def demo_ctx_def demo_authz_def demo_seat_def demo_account_def
        demo_grant_def VIEW_ASSIGNED_def VIEW_ALL_def)

end
