(* ===== verification/Reviewer_Grants.thy ===== *)
theory Reviewer_Grants
  imports Authorization_Guarantees
begin

text \<open>
  The one path that writes capability grants, \<^verbatim>\<open>apps/authz/grants.py\<close>, and the fresh authority of
  \<^verbatim>\<open>apps/authz/approvals.py\<close> that approvals rest on.  A grant decision is a transaction over the
  authorization tables and the audit trail; the row locks make decisions on one seat sequential.
\<close>

section \<open>State\<close>

datatype grant_action = CAPABILITY_GRANTED | CAPABILITY_REVOKED

record grant_event =
  ge_action :: grant_action
  ge_tenant :: int
  ge_actor :: int
  ge_grant :: int
  ge_user :: int

record grant_state =
  gs_db :: authz_db
  gs_audit :: "grant_event list"
  gs_next :: int

definition REVIEWER_CAPABILITY :: string where "REVIEWER_CAPABILITY = ''actions.approve''"
definition ROSTER_CAPABILITY :: string where "ROSTER_CAPABILITY = ''users.create''"

text \<open>\<^verbatim>\<open>apps/tenants/authority.py\<close>: the locked rows by key; asking for a missing key is a KeyError.\<close>

definition lock_users :: "authz_db \<Rightarrow> int list \<Rightarrow> (int \<times> account) list" where
  "lock_users db ids = map (\<lambda>u. (u_id u, u)) (filter (\<lambda>u. u_id u \<in> set ids) (ad_users db))"

definition locked_user :: "(int \<times> account) list \<Rightarrow> int \<Rightarrow> account res" where
  "locked_user users uid = the_row (map_of users uid) KeyError"

definition reviewer_eligible :: "membership \<Rightarrow> bool" where
  "reviewer_eligible m = (ms_client m = None \<and> ms_role m = STAFF_ACCOUNTANT \<and> ms_active m)"

section \<open>The decision\<close>

definition record_grant :: "grant_action \<Rightarrow> int \<Rightarrow> user_grant \<Rightarrow> grant_state \<Rightarrow> grant_state" where
  "record_grant act who g s =
     s\<lparr>gs_audit := gs_audit s @
        [\<lparr>ge_action = act, ge_tenant = ug_tenant g, ge_actor = who, ge_grant = ug_id g,
          ge_user = ug_user g\<rparr>]\<rparr>"

definition save_grant :: "user_grant \<Rightarrow> grant_state \<Rightarrow> grant_state" where
  "save_grant g s =
     s\<lparr>gs_db := (gs_db s)\<lparr>ad_user_grants := row_put ug_id g (ad_user_grants (gs_db s))\<rparr>\<rparr>"

definition revoke_grant :: "int \<Rightarrow> int \<Rightarrow> user_grant \<Rightarrow> grant_state \<Rightarrow> user_grant \<times> grant_state" where
  "revoke_grant now who g s =
     (let g' = g\<lparr>ug_revoked_at := Some now\<rparr>
      in (g', record_grant CAPABILITY_REVOKED who g' (save_grant g' s)))"

text \<open>The insert, with the partial unique index over live rows.\<close>

definition insert_grant :: "user_grant \<Rightarrow> grant_state \<Rightarrow> grant_state res" where
  "insert_grant g s =
     (if list_ex (\<lambda>x. ug_revoked_at x = None \<and> ug_tenant x = ug_tenant g \<and> ug_user x = ug_user g \<and>
                      ug_slug x = ug_slug g) (ad_user_grants (gs_db s))
      then Inl IntegrityError
      else Inr (s\<lparr>gs_db := (gs_db s)\<lparr>ad_user_grants := ad_user_grants (gs_db s) @ [g]\<rparr>,
                  gs_next := gs_next s + 1\<rparr>))"

definition advance_seat :: "membership \<Rightarrow> grant_state \<Rightarrow> grant_state" where
  "advance_seat m s =
     s\<lparr>gs_db := (gs_db s)\<lparr>ad_memberships :=
         row_put ms_id (m\<lparr>ms_review_version := ms_review_version m + 1\<rparr>)
           (ad_memberships (gs_db s))\<rparr>\<rparr>"

definition reviewer_capability :: "authz_db \<Rightarrow> string res" where
  "reviewer_capability db =
     the_row (find (\<lambda>slug. slug = REVIEWER_CAPABILITY) (ad_capabilities db)) DoesNotExist"

definition issue_grant :: "int \<Rightarrow> membership \<Rightarrow> (grant_state, user_grant option) tx" where
  "issue_grant who m s =
     (let s1 = advance_seat m s in
      res_bind (reviewer_capability (gs_db s1)) (\<lambda>slug.
      (let g = \<lparr>ug_id = gs_next s1, ug_tenant = ms_tenant m, ug_user = ms_user m, ug_slug = slug,
                ug_level = FULL, ug_granted_by = Some who, ug_revoked_at = None,
                ug_expires_at = None, ug_version = 1\<rparr>
       in res_bind (insert_grant g s1) (\<lambda>s2.
            Inr (Some g, record_grant CAPABILITY_GRANTED who g s2)))))"

definition reviewer_grant_of :: "authz_ctx \<Rightarrow> authz_db \<Rightarrow> membership \<Rightarrow> user_grant option" where
  "reviewer_grant_of ctx db m =
     find (\<lambda>g. ug_user g = ms_user m \<and> ug_slug g = REVIEWER_CAPABILITY \<and> ug_revoked_at g = None)
       (scoped ctx ug_tenant (ad_user_grants db))"

definition apply_decision ::
  "int \<Rightarrow> int \<Rightarrow> membership \<Rightarrow> bool \<Rightarrow> user_grant option \<Rightarrow> (grant_state, user_grant option) tx" where
  "apply_decision now who m enabled existing s =
     (if enabled then
        (case existing of
           None \<Rightarrow> issue_grant who m s
         | Some g \<Rightarrow>
             if (case ug_expires_at g of None \<Rightarrow> True | Some e \<Rightarrow> now < e) then Inr (Some g, s)
             else issue_grant who m (snd (revoke_grant now who g s)))
      else
        (case existing of
           None \<Rightarrow> Inr (None, s)
         | Some g \<Rightarrow>
             (case revoke_grant now who g (advance_seat m s) of (g', s') \<Rightarrow> Inr (Some g', s'))))"

definition set_review_capability ::
  "authz_ctx \<Rightarrow> int \<Rightarrow> int \<Rightarrow> membership \<Rightarrow> bool \<Rightarrow> int \<Rightarrow> (grant_state, user_grant option) tx" where
  "set_review_capability ctx now actor_id seat enabled expected s =
     (let db = gs_db s; users = lock_users db [actor_id, ms_user seat] in
      res_bind (locked_user users actor_id) (\<lambda>act.
      res_bind (the_row (find (\<lambda>m. ms_id m = ms_id seat) (ad_memberships db)) DoesNotExist) (\<lambda>m.
      res_bind (if ms_user m \<noteq> ms_user seat then Inl GrantSeat
                else res_bind (locked_user users (ms_user m)) (\<lambda>u.
                  require (u_active u \<and> reviewer_eligible m) GrantSeat)) (\<lambda>_.
      (let inside = ctx\<lparr>ax_tenant := Some (ms_tenant m)\<rparr> in
      res_bind (if \<not> u_active act then Inl GrantNotPermitted
                else res_bind (can inside db now (Account act) ROSTER_CAPABILITY None (Some (ms_tenant m)))
                       (\<lambda>ok. require ok GrantNotPermitted)) (\<lambda>_.
      if ms_review_version m \<noteq> expected then Inl GrantConflict
      else apply_decision now actor_id m enabled (reviewer_grant_of inside db m) s))))))"

section \<open>Fresh authority\<close>

definition APPROVE :: string where "APPROVE = ''actions.approve''"

definition AUTHORITY_CAPABILITIES :: "string list" where
  "AUTHORITY_CAPABILITIES =
     [''cycles.operate'', ''cycles.complete'', ''cycles.review'', APPROVE, ''bulk.run'', VIEW_ALL,
      VIEW_ASSIGNED]"

record approval_controls =
  pc_approve :: bool
  pc_propose :: bool
  pc_cancel_others :: bool

definition proposal_controls ::
  "authz_ctx \<Rightarrow> authz_db \<Rightarrow> int \<Rightarrow> account \<Rightarrow> int \<Rightarrow> string \<Rightarrow> approval_controls res" where
  "proposal_controls ctx db now u tid initiation =
     res_bind (granted_levels_with_role ctx db now (Account u) [APPROVE, initiation] (Some tid))
       (\<lambda>(r, levels).
         (let ordinary = u_active u \<and> \<not> u_superuser u
          in Inr \<lparr>pc_approve = (ordinary \<and> map_of levels APPROVE = Some FULL),
                  pc_propose = (ordinary \<and> map_of levels initiation = Some FULL),
                  pc_cancel_others = (ordinary \<and> r = Some OWNER)\<rparr>))"

record authority =
  au_user :: account
  au_membership :: "membership option"
  au_role_grants :: "role_grant list"
  au_user_grants :: "user_grant list"

definition permits ::
  "authz_ctx \<Rightarrow> authz_db \<Rightarrow> int \<Rightarrow> authority \<Rightarrow> string \<Rightarrow> int \<Rightarrow> int \<Rightarrow> bool res" where
  "permits ctx db now auth capability cid tid =
     (case au_membership auth of
        None \<Rightarrow> Inr False
      | Some m \<Rightarrow>
          if \<not> ms_active m \<or> ms_role m \<notin> set FIRM_ROLES \<or> \<not> u_active (au_user auth) \<or>
             u_superuser (au_user auth) then Inr False
          else res_bind (can ctx db now (Account (au_user auth)) capability None (Some tid)) (\<lambda>ok.
            if \<not> ok then Inr False
            else res_bind (visible_clients ctx db now (Account (au_user auth)) (Some tid)) (\<lambda>clients.
              Inr (list_ex (\<lambda>c. c_id c = cid) clients))))"

text \<open>
  \<^verbatim>\<open>lock_authorities\<close>: for every existing account asked about, its firm seat and the policy rows
  that apply to it.  A dictionary built from the seats keeps the last one of a user.
\<close>

definition lock_authorities ::
  "authz_ctx \<Rightarrow> authz_db \<Rightarrow> int list \<Rightarrow> int \<Rightarrow> string list \<Rightarrow> (int \<times> authority) list" where
  "lock_authorities ctx db ids tid extra =
     (let capabilities = AUTHORITY_CAPABILITIES @ extra;
          seats = sort_key ms_id (filter (\<lambda>m. ms_tenant m = tid \<and> ms_client m = None \<and>
                                              ms_user m \<in> set ids) (ad_memberships db));
          members = map (\<lambda>m. (ms_user m, m)) (rev seats);
          role_rows = sort_key rg_id (filter (\<lambda>g. rg_role g \<in> (ms_role \<circ> snd) ` set members \<and>
                                                  rg_slug g \<in> set capabilities) (ad_role_grants db));
          user_rows = sort_key ug_id (filter (\<lambda>g. ug_user g \<in> set ids \<and> ug_slug g \<in> set capabilities)
                                        (scoped ctx ug_tenant (ad_user_grants db)))
      in map (\<lambda>(uid, u).
           (uid, \<lparr>au_user = u, au_membership = map_of members uid,
                  au_role_grants = filter (\<lambda>g. (case map_of members uid of None \<Rightarrow> False
                                                | Some m \<Rightarrow> rg_role g = ms_role m)) role_rows,
                  au_user_grants = filter (\<lambda>g. ug_user g = uid) user_rows\<rparr>))
           (lock_users db ids))"

definition active_staff_count :: "authz_db \<Rightarrow> int \<Rightarrow> nat" where
  "active_staff_count db tid =
     length (filter (\<lambda>m. ms_tenant m = tid \<and> ms_client m = None \<and> ms_role m \<in> set FIRM_ROLES \<and>
                         ms_active m \<and>
                         (case find (\<lambda>u. u_id u = ms_user m) (ad_users db) of
                            None \<Rightarrow> False | Some u \<Rightarrow> u_active u)) (ad_memberships db))"

definition is_policy_owner :: "authority \<Rightarrow> bool" where
  "is_policy_owner auth =
     (case au_membership auth of
        None \<Rightarrow> False
      | Some m \<Rightarrow> ms_active m \<and> ms_role m = OWNER \<and> u_active (au_user auth) \<and>
                  \<not> u_superuser (au_user auth))"

definition may_configure_policy :: "authz_ctx \<Rightarrow> authz_db \<Rightarrow> account \<Rightarrow> int \<Rightarrow> bool" where
  "may_configure_policy ctx db u tid =
     (u_active u \<and> \<not> u_superuser u \<and> role_of ctx db u (Some tid) = Some OWNER)"

section \<open>What a decision does\<close>

definition unrevoked :: "grant_state \<Rightarrow> user_grant list" where
  "unrevoked s = filter (\<lambda>g. ug_revoked_at g = None) (ad_user_grants (gs_db s))"

definition grant_wf :: "grant_state \<Rightarrow> bool" where
  "grant_wf s \<longleftrightarrow>
     authz_wf (gs_db s) \<and> distinct (map ms_id (ad_memberships (gs_db s))) \<and>
     distinct (map ug_id (ad_user_grants (gs_db s)))"

lemma unrevoked_advance [simp]: "unrevoked (advance_seat m s) = unrevoked s"
  by (simp add: unrevoked_def advance_seat_def)

lemma unrevoked_record [simp]: "unrevoked (record_grant act who g s) = unrevoked s"
  by (simp add: unrevoked_def record_grant_def)

lemma unrevoked_revoke:
  "unrevoked (snd (revoke_grant now who g s)) = filter (\<lambda>x. ug_id x \<noteq> ug_id g) (unrevoked s)"
proof -
  have "filter (\<lambda>x. ug_revoked_at x = None) (row_put ug_id (g\<lparr>ug_revoked_at := Some now\<rparr>) rows) =
      filter (\<lambda>x. ug_id x \<noteq> ug_id g) (filter (\<lambda>x. ug_revoked_at x = None) rows)" for rows
    by (induction rows) auto
  then show ?thesis
    by (simp add: revoke_grant_def Let_def) (simp add: save_grant_def unrevoked_def)
qed

lemma unrevoked_insert:
  "insert_grant g s = Inr s' \<Longrightarrow> ug_revoked_at g = None \<Longrightarrow> unrevoked s' = unrevoked s @ [g]"
  by (auto simp: insert_grant_def unrevoked_def split: if_splits)

text \<open>The rest of the tables, which a decision leaves alone apart from the seat's revision.\<close>

definition same_frame :: "grant_state \<Rightarrow> grant_state \<Rightarrow> bool" where
  "same_frame s t \<longleftrightarrow>
     ad_capabilities (gs_db t) = ad_capabilities (gs_db s) \<and>
     ad_role_grants (gs_db t) = ad_role_grants (gs_db s) \<and> ad_users (gs_db t) = ad_users (gs_db s) \<and>
     ad_clients (gs_db t) = ad_clients (gs_db s) \<and> ad_assignments (gs_db t) = ad_assignments (gs_db s)"

lemma same_frame_simps [simp]:
  "same_frame s s"
  "same_frame s (record_grant act who g t) = same_frame s t"
  "same_frame s (advance_seat m t) = same_frame s t"
  "same_frame s (snd (revoke_grant now who g t)) = same_frame s t"
  by (simp_all add: same_frame_def record_grant_def advance_seat_def revoke_grant_def Let_def save_grant_def)

lemma seats_simps [simp]:
  "ad_memberships (gs_db (record_grant act who g t)) = ad_memberships (gs_db t)"
  "ad_memberships (gs_db (snd (revoke_grant now who g t))) = ad_memberships (gs_db t)"
  "ad_memberships (gs_db (advance_seat m t)) =
     row_put ms_id (m\<lparr>ms_review_version := ms_review_version m + 1\<rparr>) (ad_memberships (gs_db t))"
  by (simp_all add: record_grant_def advance_seat_def revoke_grant_def Let_def save_grant_def)

lemma issue_grantE:
  assumes "issue_grant who m s = Inr (r, s')"
  obtains g where "unrevoked s' = unrevoked s @ [g]" "ug_tenant g = ms_tenant m" "ug_user g = ms_user m"
    "ug_slug g = REVIEWER_CAPABILITY" "ug_level g = FULL" "ug_expires_at g = None" "ug_revoked_at g = None"
    "\<forall>x \<in> set (unrevoked s). (ug_tenant x, ug_user x, ug_slug x) \<noteq> (ms_tenant m, ms_user m, REVIEWER_CAPABILITY)"
    "same_frame s s'" "ad_memberships (gs_db s') = ad_memberships (gs_db (advance_seat m s))"
proof -
  let ?s1 = "advance_seat m s"
  let ?g = "\<lparr>ug_id = gs_next ?s1, ug_tenant = ms_tenant m, ug_user = ms_user m, ug_slug = REVIEWER_CAPABILITY,
    ug_level = FULL, ug_granted_by = Some who, ug_revoked_at = None, ug_expires_at = None, ug_version = 1\<rparr>"
  obtain s2 where s2: "insert_grant ?g ?s1 = Inr s2" "s' = record_grant CAPABILITY_GRANTED who ?g s2"
    using assms
    by (auto simp: issue_grant_def Let_def res_bind_eq_Inr reviewer_capability_def dest!: find_Some_iff_first)
  have "unrevoked s' = unrevoked s @ [?g]"
    using unrevoked_insert[OF s2(1)] s2(2) by simp
  moreover have "\<forall>x \<in> set (unrevoked ?s1). (ug_tenant x, ug_user x, ug_slug x) \<noteq>
      (ms_tenant m, ms_user m, REVIEWER_CAPABILITY)"
    using s2(1) by (auto simp: insert_grant_def unrevoked_def list_ex_iff split: if_splits)
  moreover have "same_frame s s'" "ad_memberships (gs_db s') = ad_memberships (gs_db ?s1)"
    using s2 same_frame_simps(3)[of s m s]
    by (auto simp: insert_grant_def same_frame_def record_grant_def split: if_splits)
  ultimately show ?thesis
    by (intro that[of ?g]) simp_all
qed

lemma set_review_success:
  assumes "set_review_capability ctx now who seat enabled expected s = Inr (r, s')"
  obtains m where "find (\<lambda>x. ms_id x = ms_id seat) (ad_memberships (gs_db s)) = Some m"
    "ms_user m = ms_user seat" "reviewer_eligible m" "ms_review_version m = expected"
    "apply_decision now who m enabled
       (reviewer_grant_of (ctx\<lparr>ax_tenant := Some (ms_tenant m)\<rparr>) (gs_db s) m) s = Inr (r, s')"
  using assms unfolding set_review_capability_def Let_def
  by (elim res_bind_InrE) (auto split: if_splits elim!: res_bind_InrE)

text \<open>A decision either changes nothing or moves the seat's revision by one.\<close>

lemma decision_moves_seat:
  assumes "apply_decision now who m enabled existing s = Inr (r, s')" "s' \<noteq> s"
  shows "ad_memberships (gs_db s') = ad_memberships (gs_db (advance_seat m s))"
  using assms
  by (auto simp: apply_decision_def revoke_grant_def Let_def record_grant_def save_grant_def advance_seat_def
      split: option.splits if_splits elim!: issue_grantE)

text \<open>The live grants of a firm, and the seats, stay within their uniqueness constraints.\<close>

abbreviation live_key :: "user_grant \<Rightarrow> int \<times> int \<times> string" where
  "live_key g \<equiv> (ug_tenant g, ug_user g, ug_slug g)"

abbreviation seat_key :: "membership \<Rightarrow> int \<times> int \<times> int option" where
  "seat_key m \<equiv> (ms_user m, ms_tenant m, ms_client m)"

lemma authz_wf_iff:
  "authz_wf (gs_db s) \<longleftrightarrow>
     distinct (map u_id (ad_users (gs_db s))) \<and> distinct (map seat_key (ad_memberships (gs_db s))) \<and>
     distinct (map (\<lambda>g. (rg_role g, rg_slug g)) (ad_role_grants (gs_db s))) \<and>
     distinct (map live_key (unrevoked s))"
  by (simp add: authz_wf_def unrevoked_def)

lemma seat_keys_advance:
  assumes "m \<in> set rows" "distinct (map ms_id rows)"
  shows "map seat_key (row_put ms_id (m\<lparr>ms_review_version := v\<rparr>) rows) = map seat_key rows"
  using assms
proof (induction rows)
  case Nil
  then show ?case by simp
next
  case (Cons x xs)
  then show ?case by (cases "x = m") (auto simp: row_put_absent)
qed

definition unexpired :: "int \<Rightarrow> user_grant \<Rightarrow> bool" where
  "unexpired now g \<longleftrightarrow> (case ug_expires_at g of None \<Rightarrow> True | Some e \<Rightarrow> now < e)"

definition kept_live :: "int \<Rightarrow> bool \<Rightarrow> user_grant option \<Rightarrow> grant_state \<Rightarrow> user_grant list" where
  "kept_live now enabled existing s =
     (case existing of
        None \<Rightarrow> unrevoked s
      | Some g \<Rightarrow> if enabled \<and> unexpired now g then unrevoked s
                  else filter (\<lambda>x. ug_id x \<noteq> ug_id g) (unrevoked s))"

definition fresh_grant :: "membership \<Rightarrow> user_grant list \<Rightarrow> user_grant \<Rightarrow> bool" where
  "fresh_grant m kept g \<longleftrightarrow>
     live_key g = (ms_tenant m, ms_user m, REVIEWER_CAPABILITY) \<and> ug_level g = FULL \<and>
     ug_expires_at g = None \<and> ug_revoked_at g = None \<and> (\<forall>x \<in> set kept. live_key x \<noteq> live_key g)"

definition issues :: "int \<Rightarrow> bool \<Rightarrow> user_grant option \<Rightarrow> bool" where
  "issues now enabled existing \<longleftrightarrow>
     enabled \<and> (case existing of None \<Rightarrow> True | Some g \<Rightarrow> \<not> unexpired now g)"

lemma issue_fresh:
  assumes "issue_grant who m s = Inr (r, s')"
  shows "same_frame s s' \<and> (\<exists>g. unrevoked s' = unrevoked s @ [g] \<and> fresh_grant m (unrevoked s) g)"
  using assms by (elim issue_grantE) (auto simp: fresh_grant_def)

lemma decision_live:
  assumes "apply_decision now who m enabled existing s = Inr (r, s')"
  shows "same_frame s s' \<and>
     (if issues now enabled existing
      then \<exists>g. unrevoked s' = kept_live now enabled existing s @ [g] \<and>
               fresh_grant m (kept_live now enabled existing s) g
      else unrevoked s' = kept_live now enabled existing s)"
proof (cases existing)
  case None
  then show ?thesis
    using assms issue_fresh[of who m s r s']
    by (auto simp: apply_decision_def issues_def kept_live_def split: if_splits)
next
  case (Some g)
  consider "enabled" "unexpired now g" | "enabled" "\<not> unexpired now g" | "\<not> enabled"
    by blast
  then show ?thesis
  proof cases
    case 1
    then have "s' = s" using assms Some by (simp add: apply_decision_def flip: unexpired_def)
    then show ?thesis using 1 Some by (simp add: issues_def kept_live_def)
  next
    case 2
    let ?s1 = "snd (revoke_grant now who g s)"
    have "issue_grant who m ?s1 = Inr (r, s')"
      using assms Some 2 by (simp add: apply_decision_def flip: unexpired_def)
    note f = issue_fresh[OF this]
    have "same_frame s s'"
      using f same_frame_simps(4)[of s now who g s] by (simp add: same_frame_def)
    then show ?thesis
      using f Some 2 by (simp add: issues_def kept_live_def unrevoked_revoke)
  next
    case 3
    let ?p = "revoke_grant now who g (advance_seat m s)"
    have "s' = snd ?p"
      using assms Some 3 by (simp add: apply_decision_def split: prod.splits)
    then have "unrevoked s' = filter (\<lambda>x. ug_id x \<noteq> ug_id g) (unrevoked s)" "same_frame s s'"
      by (simp_all add: unrevoked_revoke)
    then show ?thesis using Some 3 by (simp add: issues_def kept_live_def)
  qed
qed

lemma distinct_kept:
  "distinct (map live_key (unrevoked s)) \<Longrightarrow> distinct (map live_key (kept_live now enabled existing s))"
  by (auto simp: kept_live_def distinct_map_filter split: option.splits)

lemma decision_wf:
  assumes "grant_wf s" "m \<in> set (ad_memberships (gs_db s))"
    "apply_decision now who m enabled existing s = Inr (r, s')"
  shows "authz_wf (gs_db s')"
proof -
  note l = decision_live[OF assms(3)]
  have "distinct (map live_key (unrevoked s))"
    using assms(1) by (simp add: grant_wf_def authz_wf_iff)
  note kept = distinct_kept[OF this, of now enabled existing]
  have live: "distinct (map live_key (unrevoked s'))"
  proof (cases "issues now enabled existing")
    case True
    then obtain g where "unrevoked s' = kept_live now enabled existing s @ [g]"
      "fresh_grant m (kept_live now enabled existing s) g" using l by auto
    with kept show ?thesis by (auto simp: fresh_grant_def)
  next
    case False
    with l kept show ?thesis by simp
  qed
  have "map seat_key (ad_memberships (gs_db s')) = map seat_key (ad_memberships (gs_db s))"
  proof (cases "s' = s")
    case False
    then show ?thesis
      using decision_moves_seat[OF assms(3)] seat_keys_advance[OF assms(2)] assms(1)
      by (simp add: grant_wf_def)
  qed simp
  then show ?thesis
    using live l assms(1) by (simp add: authz_wf_iff same_frame_def grant_wf_def)
qed

text \<open>Whether the seat ends with a live full grant is what was decided.\<close>

lemma decision_reaches:
  assumes "distinct (map live_key (unrevoked s))" "distinct (map ug_id (ad_user_grants (gs_db s)))"
    "existing = find (\<lambda>g. live_key g = (ms_tenant m, uid, REVIEWER_CAPABILITY)) (unrevoked s)"
    "\<And>g. g \<in> set (unrevoked s) \<Longrightarrow> live_key g = (ms_tenant m, uid, REVIEWER_CAPABILITY) \<Longrightarrow> ug_level g = FULL"
    "uid = ms_user m" "apply_decision now who m enabled existing s = Inr (r, s')"
  shows "(\<exists>g \<in> set (unrevoked s'). grant_live now g \<and>
            live_key g = (ms_tenant m, uid, REVIEWER_CAPABILITY) \<and> ug_level g = FULL) \<longleftrightarrow> enabled"
proof (cases existing)
  case None
  then have none: "\<forall>g \<in> set (unrevoked s). live_key g \<noteq> (ms_tenant m, uid, REVIEWER_CAPABILITY)"
    using assms(3) by (auto simp: find_None_iff)
  show ?thesis
    using decision_live[OF assms(6)] None none assms(5)
    by (cases enabled) (auto simp: issues_def kept_live_def fresh_grant_def grant_live_def)
next
  case (Some g)
  then have g: "g \<in> set (unrevoked s)" "live_key g = (ms_tenant m, uid, REVIEWER_CAPABILITY)"
    using assms(3) find_Some_iff_first[of _ "unrevoked s" g] by auto
  then have lv: "ug_level g = FULL" "grant_live now g = unexpired now g"
    using assms(4) by (auto simp: unrevoked_def grant_live_def unexpired_def)
  have only: "x = g" if "x \<in> set (unrevoked s)" "live_key x = (ms_tenant m, uid, REVIEWER_CAPABILITY)" for x
  proof -
    have "inj_on live_key (set (unrevoked s))" using assms(1) by (simp add: distinct_map)
    moreover have "live_key x = live_key g" using that(2) g(2) by simp
    ultimately show ?thesis using that(1) g(1) by (rule inj_onD)
  qed
  show ?thesis
  proof (cases "enabled \<and> unexpired now g")
    case True
    then have "unrevoked s' = unrevoked s"
      using decision_live[OF assms(6)] Some by (simp add: issues_def kept_live_def)
    with True g lv have "\<exists>g \<in> set (unrevoked s'). grant_live now g \<and>
        live_key g = (ms_tenant m, uid, REVIEWER_CAPABILITY) \<and> ug_level g = FULL"
      by (intro bexI[of _ g]) simp_all
    with True show ?thesis by simp
  next
    case False
    let ?kept = "kept_live now enabled existing s"
    have kept: "\<forall>x \<in> set ?kept. live_key x \<noteq> (ms_tenant m, uid, REVIEWER_CAPABILITY)"
      using False only Some by (auto simp: kept_live_def)
    show ?thesis
    proof (cases enabled)
      case True
      with False have "issues now enabled existing" using Some by (simp add: issues_def)
      with decision_live[OF assms(6)] obtain g' where
        "unrevoked s' = ?kept @ [g']" "fresh_grant m ?kept g'" by auto
      then have "g' \<in> set (unrevoked s')" "grant_live now g'"
        "live_key g' = (ms_tenant m, uid, REVIEWER_CAPABILITY)" "ug_level g' = FULL"
        using assms(5) by (simp_all add: fresh_grant_def grant_live_def)
      then have "\<exists>g \<in> set (unrevoked s'). grant_live now g \<and>
          live_key g = (ms_tenant m, uid, REVIEWER_CAPABILITY) \<and> ug_level g = FULL"
        by (intro bexI[of _ g']) simp_all
      with True show ?thesis by simp
    next
      case off: False
      then have "unrevoked s' = ?kept"
        using decision_live[OF assms(6)] by (simp add: issues_def)
      with kept off show ?thesis by auto
    qed
  qed
qed

section \<open>The guarantees\<close>

lemma can_firm:
  assumes "firm_ctx ctx" "action \<in> set (ad_capabilities db)"
  shows "can ctx db now user action None tid = Inr (plain_level ctx db now user tid action = FULL)"
  using assms
  by (auto simp: can_def resolve_level_firm is_attached_to_def is_own_record_def split: actor.splits)

text \<open>C36: A reviewer decision takes effect, and only as decided: after a decision on an accountant's
  seat commits, that account may approve client-facing effects in that firm exactly if the
  decision was to enable it, whether the seat had no grant, a live one or an expired one.\<close>

theorem reviewer_decision_takes_effect:
  assumes "grant_wf s" "seat \<in> set (ad_memberships (gs_db s))" "firm_ctx ctx" "ax_client ctx = None"
    "set_review_capability ctx now who seat enabled expected s = Inr (r, s')"
    "u_id u = ms_user seat" "\<not> u_superuser u"
    "REVIEWER_CAPABILITY \<in> set (ad_capabilities (gs_db s))"
    "role_level (gs_db s) (Some STAFF_ACCOUNTANT) REVIEWER_CAPABILITY \<noteq> FULL"
    "\<forall>g \<in> set (ad_user_grants (gs_db s)). ug_slug g = REVIEWER_CAPABILITY \<longrightarrow> ug_level g = FULL"
  shows "can ctx (gs_db s') now (Account u) REVIEWER_CAPABILITY None (Some (ms_tenant seat)) = Inr enabled"
proof -
  obtain m where m: "find (\<lambda>x. ms_id x = ms_id seat) (ad_memberships (gs_db s)) = Some m"
    "reviewer_eligible m"
    "apply_decision now who m enabled
       (reviewer_grant_of (ctx\<lparr>ax_tenant := Some (ms_tenant m)\<rparr>) (gs_db s) m) s = Inr (r, s')"
    by (rule set_review_success[OF assms(5)])
  have [simp]: "m = seat"
    using m(1) assms(1,2) distinct_map_find[of ms_id "ad_memberships (gs_db s)" seat "\<lambda>x. ms_id x = ms_id seat"]
    by (simp add: grant_wf_def)
  let ?existing = "reviewer_grant_of (ctx\<lparr>ax_tenant := Some (ms_tenant seat)\<rparr>) (gs_db s) seat"
  have dec: "apply_decision now who seat enabled ?existing s = Inr (r, s')" using m(3) by simp
  have staff: "ms_role seat = STAFF_ACCOUNTANT" "ms_client seat = None" "ms_active seat"
    using m(2) by (simp_all add: reviewer_eligible_def)
  have wf': "authz_wf (gs_db s')" by (rule decision_wf[OF assms(1,2) dec])
  text \<open>The seat is still the account's seat.\<close>
  obtain seat' where seat': "seat' \<in> set (ad_memberships (gs_db s'))" "ms_user seat' = u_id u"
    "ms_role seat' = STAFF_ACCOUNTANT" "ms_client seat' = None" "ms_active seat'" "ms_tenant seat' = ms_tenant seat"
  proof (cases "s' = s")
    case True
    then show ?thesis using that[of seat] assms(2,6) staff by simp
  next
    case False
    let ?m = "seat\<lparr>ms_review_version := ms_review_version seat + 1\<rparr>"
    have "?m \<in> set (ad_memberships (gs_db s'))"
      using decision_moves_seat[OF dec False] assms(2) by (auto simp: set_row_put_eq)
    then show ?thesis using that[of ?m] staff assms(6) by simp
  qed
  have role: "role_of ctx (gs_db s') u (Some (ms_tenant seat)) = Some STAFF_ACCOUNTANT"
    using role_of_seat[OF wf' seat'(1,2,5), of ctx "Some (ms_tenant seat)"] seat' assms(4)
    by (simp add: resolved_tenant_def)
  text \<open>The live grants of the seat.\<close>
  let ?mine = "\<lambda>g. live_key g = (ms_tenant seat, u_id u, REVIEWER_CAPABILITY)"
  have existing: "?existing = find ?mine (unrevoked s)"
  proof -
    have "find P (filter Q rows) = find (\<lambda>x. Q x \<and> P x) rows" for P Q and rows :: "user_grant list"
      by (induction rows) auto
    then show ?thesis
      by (simp add: reviewer_grant_of_def scoped_def unrevoked_def assms(6)) meson
  qed
  have uniq: "distinct (map live_key (unrevoked s))" "distinct (map ug_id (ad_user_grants (gs_db s)))"
    using assms(1) by (simp_all add: grant_wf_def authz_wf_iff)
  have full: "ug_level g = FULL" if "g \<in> set (unrevoked s)" "?mine g" for g
    using that assms(10) by (auto simp: unrevoked_def)
  have effect: "(\<exists>g \<in> set (unrevoked s'). grant_live now g \<and> ?mine g \<and> ug_level g = FULL) \<longleftrightarrow> enabled"
    by (rule decision_reaches[OF uniq existing full assms(6) dec])
  then have "user_level ctx (gs_db s') now u STAFF_ACCOUNTANT (Some (ms_tenant seat)) REVIEWER_CAPABILITY = FULL
      \<longleftrightarrow> enabled"
    by (subst user_level_FULL[OF wf']) (auto simp: CLIENT_ROLES_def resolved_tenant_def unrevoked_def grant_live_def)
  moreover have "role_level (gs_db s') (Some STAFF_ACCOUNTANT) REVIEWER_CAPABILITY \<noteq> FULL"
    using assms(9) decision_live[OF dec] by (auto simp: role_level_def same_frame_def)
  moreover have "REVIEWER_CAPABILITY \<in> set (ad_capabilities (gs_db s'))"
    using assms(8) decision_live[OF dec] by (simp add: same_frame_def)
  ultimately show ?thesis
    using assms(3,7) role by (simp add: can_firm plain_level_def max_level_FULL_iff)
qed

text \<open>A decision counts against the revision it was read at: once a decision at some revision of a
  seat has changed anything, no decision at that same revision on the same seat commits, from any
  actor, in either direction, at any later time before another revision is read.\<close>

theorem stale_decision_conflicts:
  assumes "set_review_capability ctx now who seat enabled expected s = Inr (r, s')" "s' \<noteq> s"
    "ms_id seat2 = ms_id seat"
  shows "\<exists>e. set_review_capability ctx2 now2 who2 seat2 enabled2 expected s' = Inl e"
proof (cases "set_review_capability ctx2 now2 who2 seat2 enabled2 expected s'")
  case (Inr p)
  obtain r2 s2 where p: "p = (r2, s2)" by (cases p)
  obtain m where m: "find (\<lambda>x. ms_id x = ms_id seat) (ad_memberships (gs_db s)) = Some m"
    "ms_review_version m = expected"
    "apply_decision now who m enabled
       (reviewer_grant_of (ctx\<lparr>ax_tenant := Some (ms_tenant m)\<rparr>) (gs_db s) m) s = Inr (r, s')"
    by (rule set_review_success[OF assms(1)])
  obtain m2 where m2: "find (\<lambda>x. ms_id x = ms_id seat) (ad_memberships (gs_db s')) = Some m2"
    "ms_review_version m2 = expected"
    using set_review_success[OF Inr[unfolded p]] assms(3) by metis
  let ?m = "m\<lparr>ms_review_version := expected + 1\<rparr>"
  have id: "ms_id m = ms_id seat" "ms_id seat \<in> ms_id ` set (ad_memberships (gs_db s))"
    using find_Some_iff_first[OF m(1)] by (auto intro!: image_eqI[where x = m])
  have "row_get ms_id (ms_id seat) (row_put ms_id ?m (ad_memberships (gs_db s))) = Some ?m"
    using id by (simp add: row_get_row_put)
  then have "m2 = ?m"
    using m2(1) decision_moves_seat[OF m(3) assms(2)] m(2) by (simp add: row_get_def)
  with m2(2) have False by simp
  then show ?thesis ..
qed simp

section \<open>A concrete decision\<close>

text \<open>The accountant's earlier grant expired at time 50; the owner renews it at time 60.\<close>

definition demo_expired :: user_grant where
  "demo_expired = demo_raise\<lparr>ug_id := 71, ug_user := 2, ug_expires_at := Some 50\<rparr>"

definition demo_grants :: grant_state where
  "demo_grants =
     \<lparr>gs_db = demo_authz\<lparr>
        ad_capabilities := ROSTER_CAPABILITY # ad_capabilities demo_authz,
        ad_role_grants := demo_grant OWNER ROSTER_CAPABILITY FULL # ad_role_grants demo_authz,
        ad_user_grants := [demo_expired]\<rparr>,
      gs_audit = [], gs_next = 90\<rparr>"

definition demo_seat_2 :: membership where
  "demo_seat_2 = demo_seat 22 2 None STAFF_ACCOUNTANT"

definition demo_renewed :: grant_state where
  "demo_renewed =
     (case set_review_capability demo_ctx 60 1 demo_seat_2 True 0 demo_grants of
        Inr (_, s') \<Rightarrow> s' | Inl _ \<Rightarrow> demo_grants)"

lemma demo_renewal:
  "\<exists>r. set_review_capability demo_ctx 60 1 demo_seat_2 True 0 demo_grants = Inr (r, demo_renewed)"
proof -
  have "case set_review_capability demo_ctx 60 1 demo_seat_2 True 0 demo_grants of
      Inl _ \<Rightarrow> False | Inr _ \<Rightarrow> True" by code_simp
  then show ?thesis by (auto simp: demo_renewed_def split: sum.splits)
qed

theorem reviewer_decision_takes_effect_witness:
  "can demo_ctx (gs_db demo_renewed) 60 (Account (demo_account 2)) REVIEWER_CAPABILITY None
     (Some (ms_tenant demo_seat_2)) = Inr True"
proof -
  obtain r where r: "set_review_capability demo_ctx 60 1 demo_seat_2 True 0 demo_grants = Inr (r, demo_renewed)"
    using demo_renewal by blast
  have wf: "grant_wf demo_grants"
    by (simp add: grant_wf_def authz_wf_def demo_grants_def demo_authz_def demo_seat_def demo_account_def
        demo_grant_def VIEW_ASSIGNED_def VIEW_ALL_def ROSTER_CAPABILITY_def)
  show ?thesis
    by (rule reviewer_decision_takes_effect[OF wf _ _ _ r]) code_simp+
qed

theorem stale_decision_conflicts_witness:
  "\<exists>e. set_review_capability demo_ctx 61 1 demo_seat_2 False 0 demo_renewed = Inl e"
proof -
  obtain r where r: "set_review_capability demo_ctx 60 1 demo_seat_2 True 0 demo_grants = Inr (r, demo_renewed)"
    using demo_renewal by blast
  have "gs_next demo_renewed \<noteq> gs_next demo_grants" by code_simp
  then have "demo_renewed \<noteq> demo_grants" by auto
  then show ?thesis by (rule stale_decision_conflicts[OF r]) simp
qed

end
