(* ===== verification/Step_Graph.thy ===== *)
theory Step_Graph
  imports Mei_Prelude
begin

text \<open>
  The dependency check of a playbook, \<^verbatim>\<open>_find_cycle\<close> of \<^verbatim>\<open>apps/cycles/rules.py\<close>: an iterative
  depth-first search with an explicit stack of (node, next neighbour) frames and a colour map.
  The search always ends; it answers the empty sequence exactly on acyclic graphs, and otherwise
  the keys of a real cycle.
\<close>

section \<open>The search\<close>

text \<open>
  The edges are a dictionary from a key to the keys it depends on.  The stack has its top first;
  the path is the Python list, in order.  A search ends with a cycle or with its colour map.
\<close>

type_synonym edges = "(string \<times> string list) list"

datatype colour = GREY | BLACK

definition neighbours :: "edges \<Rightarrow> string \<Rightarrow> string list" where
  "neighbours edges node = (case map_of edges node of None \<Rightarrow> [] | Some keys \<Rightarrow> keys)"

definition uncoloured :: "edges \<Rightarrow> (string \<rightharpoonup> colour) \<Rightarrow> string set" where
  "uncoloured edges colour = (\<Union>(_, keys) \<in> set edges. set keys) - dom colour"

lemma neighbours_mem: "y \<in> set (neighbours edges x) \<Longrightarrow> y \<in> (\<Union>(_, keys) \<in> set edges. set keys)"
proof (cases "map_of edges x")
  case (Some keys)
  assume "y \<in> set (neighbours edges x)"
  with Some have "y \<in> set keys" by (simp add: neighbours_def)
  moreover have "(x, keys) \<in> set edges" using Some by (rule map_of_SomeD)
  ultimately show ?thesis by blast
qed (simp add: neighbours_def)

lemma uncoloured_shrinks:
  assumes "y \<in> set (neighbours edges x)" "colour y = None"
  shows "card (uncoloured edges (colour(y \<mapsto> c))) < card (uncoloured edges colour)"
proof -
  have "uncoloured edges (colour(y \<mapsto> c)) \<subset> uncoloured edges colour"
    using neighbours_mem[OF assms(1)] assms(2) by (auto simp: uncoloured_def)
  moreover have "finite (uncoloured edges colour)" by (auto simp: uncoloured_def)
  ultimately show ?thesis by (simp add: psubset_card_mono)
qed

text \<open>
  Every step colours a new node, moves to the next neighbour of the top frame or drops the frame.
\<close>

definition frames_left :: "edges \<Rightarrow> (string \<times> nat) list \<Rightarrow> nat" where
  "frames_left edges stack = (\<Sum>(node, index) \<leftarrow> stack. Suc (length (neighbours edges node) - index))"

definition uncoloured_left :: "edges \<Rightarrow> (string \<rightharpoonup> colour) \<Rightarrow> nat" where
  "uncoloured_left edges colour = card (uncoloured edges colour)"

lemma uncoloured_left_black:
  "uncoloured_left edges (colour(node \<mapsto> BLACK)) \<le> uncoloured_left edges colour"
  unfolding uncoloured_left_def by (rule card_mono) (auto simp: uncoloured_def)

lemma frames_left_simps:
  "frames_left edges ((node, index) # stack) =
     Suc (length (neighbours edges node) - index) + frames_left edges stack"
  by (simp add: frames_left_def)

function (sequential) walk_from ::
  "edges \<Rightarrow> (string \<times> nat) list \<Rightarrow> string list \<Rightarrow> (string \<rightharpoonup> colour) \<Rightarrow>
   string list + (string \<rightharpoonup> colour)" where
  "walk_from edges [] path colour = Inr colour"
| "walk_from edges ((node, index) # stack) path colour =
     (if index < length (neighbours edges node) then
        (let neighbour = neighbours edges node ! index in
         if colour neighbour = Some GREY then
           Inl (dropWhile (\<lambda>k. k \<noteq> neighbour) path @ [neighbour])
         else if colour neighbour = None then
           walk_from edges ((neighbour, 0) # (node, Suc index) # stack) (path @ [neighbour])
             (colour(neighbour \<mapsto> GREY))
         else walk_from edges ((node, Suc index) # stack) path colour)
      else walk_from edges stack (butlast path) (colour(node \<mapsto> BLACK)))"
  by pat_completeness auto

termination
proof (relation "measures [\<lambda>(edges, stack, path, colour). uncoloured_left edges colour,
                           \<lambda>(edges, stack, path, colour). frames_left edges stack]", goal_cases)
  case 1
  show ?case by simp
next
  case (2 edges node index stack path colour neighbour)
  then have "uncoloured_left edges (colour(neighbour \<mapsto> GREY)) < uncoloured_left edges colour"
    unfolding uncoloured_left_def by (intro uncoloured_shrinks[of _ _ node]) auto
  then show ?case by simp
next
  case (3 edges node index stack path colour neighbour)
  then show ?case by (simp add: frames_left_simps)
next
  case (4 edges node index stack path colour)
  then show ?case
    using uncoloured_left_black[of edges colour node] by (auto simp: frames_left_simps)
qed

declare walk_from.simps [simp del]

lemma walk_from_done: "walk_from edges [] path colour = Inr colour"
  by (simp add: walk_from.simps)

lemma walk_from_push:
  "index < length (neighbours edges node) \<Longrightarrow> colour (neighbours edges node ! index) = None \<Longrightarrow>
     walk_from edges ((node, index) # stack) path colour =
     walk_from edges ((neighbours edges node ! index, 0) # (node, Suc index) # stack)
       (path @ [neighbours edges node ! index]) (colour(neighbours edges node ! index \<mapsto> GREY))"
  by (subst walk_from.simps) (simp add: Let_def)

lemma walk_from_skip:
  "index < length (neighbours edges node) \<Longrightarrow> colour (neighbours edges node ! index) = Some BLACK \<Longrightarrow>
     walk_from edges ((node, index) # stack) path colour =
     walk_from edges ((node, Suc index) # stack) path colour"
  by (subst walk_from.simps) (simp add: Let_def)

lemma walk_from_back:
  "index < length (neighbours edges node) \<Longrightarrow> colour (neighbours edges node ! index) = Some GREY \<Longrightarrow>
     walk_from edges ((node, index) # stack) path colour =
     Inl (dropWhile (\<lambda>k. k \<noteq> neighbours edges node ! index) path @ [neighbours edges node ! index])"
  by (subst walk_from.simps) (simp add: Let_def)

lemma walk_from_pop:
  "\<not> index < length (neighbours edges node) \<Longrightarrow>
     walk_from edges ((node, index) # stack) path colour =
     walk_from edges stack (butlast path) (colour(node \<mapsto> BLACK))"
  by (subst walk_from.simps) simp

text \<open>The roots are the keys of the dictionary, in order.\<close>

fun find_from :: "edges \<Rightarrow> string list \<Rightarrow> (string \<rightharpoonup> colour) \<Rightarrow> string list" where
  "find_from edges [] colour = []"
| "find_from edges (root # roots) colour =
     (if colour root = Some BLACK then find_from edges roots colour
      else (case walk_from edges [(root, 0)] [root] (colour(root \<mapsto> GREY)) of
              Inl cycle \<Rightarrow> cycle
            | Inr colour' \<Rightarrow> find_from edges roots colour'))"

definition find_cycle :: "edges \<Rightarrow> string list" where
  "find_cycle edges = find_from edges (map fst edges) Map.empty"

section \<open>What the search maintains\<close>

definition depends :: "edges \<Rightarrow> (string \<times> string) set" where
  "depends edges = {(x, y). y \<in> set (neighbours edges x)}"

abbreviation black :: "(string \<rightharpoonup> colour) \<Rightarrow> string set" where
  "black colour \<equiv> {x. colour x = Some BLACK}"

text \<open>The finished part is closed under dependency and free of cycles.\<close>

definition finished_ok :: "edges \<Rightarrow> (string \<rightharpoonup> colour) \<Rightarrow> bool" where
  "finished_ok edges colour \<longleftrightarrow>
     depends edges `` black colour \<subseteq> black colour \<and>
     acyclic (depends edges \<inter> black colour \<times> black colour)"

text \<open>The frames below the top: each is suspended just after the neighbour above it.\<close>

fun suspended :: "edges \<Rightarrow> (string \<rightharpoonup> colour) \<Rightarrow> string \<Rightarrow> (string \<times> nat) list \<Rightarrow> bool" where
  "suspended edges colour child [] = True"
| "suspended edges colour child ((node, index) # stack) =
     (0 < index \<and> index \<le> length (neighbours edges node) \<and> neighbours edges node ! (index - 1) = child \<and>
      (\<forall>j < index - 1. neighbours edges node ! j \<in> black colour) \<and> suspended edges colour node stack)"

fun stack_ok :: "edges \<Rightarrow> (string \<rightharpoonup> colour) \<Rightarrow> (string \<times> nat) list \<Rightarrow> bool" where
  "stack_ok edges colour [] = True"
| "stack_ok edges colour ((node, index) # stack) =
     (index \<le> length (neighbours edges node) \<and>
      (\<forall>j < index. neighbours edges node ! j \<in> black colour) \<and> suspended edges colour node stack)"

definition search_ok :: "edges \<Rightarrow> (string \<times> nat) list \<Rightarrow> string list \<Rightarrow> (string \<rightharpoonup> colour) \<Rightarrow> bool" where
  "search_ok edges stack path colour \<longleftrightarrow>
     path = rev (map fst stack) \<and> distinct (map fst stack) \<and>
     (\<forall>x. colour x = Some GREY \<longleftrightarrow> x \<in> fst ` set stack) \<and> stack_ok edges colour stack \<and>
     finished_ok edges colour"

lemma search_grey:
  "search_ok edges stack path colour \<Longrightarrow> colour x = Some GREY \<longleftrightarrow> x \<in> fst ` set stack"
  by (simp add: search_ok_def)

lemma search_top:
  "search_ok edges ((node, index) # stack) path colour \<Longrightarrow> colour node = Some GREY"
  by (simp add: search_grey)

lemma suspended_mono:
  "suspended edges colour child stack \<Longrightarrow> black colour \<subseteq> black colour' \<Longrightarrow>
     suspended edges colour' child stack"
  by (induction edges colour child stack rule: suspended.induct) auto

lemma acyclic_add_source:
  assumes "acyclic r" "\<And>x y. (x, y) \<in> s \<Longrightarrow> x = a \<and> y \<noteq> a" "\<And>x. (x, a) \<notin> r"
  shows "acyclic (r \<union> s)"
proof (rule acyclicI, rule allI, rule notI)
  fix x
  assume cyc: "(x, x) \<in> (r \<union> s)\<^sup>+"
  have into: "y \<noteq> a" if "(z, y) \<in> (r \<union> s)\<^sup>+" for z y
    using that by (induction rule: trancl_induct) (use assms(2,3) in auto)
  have "(y, z) \<in> r\<^sup>+" if "(y, z) \<in> (r \<union> s)\<^sup>+" "y \<noteq> a" for y z
    using that
  proof (induction rule: trancl_induct)
    case (base z)
    then show ?case using assms(2) by auto
  next
    case (step w z)
    have "w \<noteq> a" using into[OF step(1)] .
    then have "(w, z) \<in> r" using step(2) assms(2) by auto
    then show ?case using step(3)[OF step(4)] by (rule trancl_into_trancl[rotated])
  qed
  from this[OF cyc into[OF cyc]] assms(1) show False by (simp add: acyclic_def)
qed

lemma finish_node:
  assumes "finished_ok edges colour" "colour node \<noteq> Some BLACK"
    "set (neighbours edges node) \<subseteq> black colour"
  shows "finished_ok edges (colour(node \<mapsto> BLACK))"
proof -
  let ?b = "black colour"
  have closed: "depends edges `` ?b \<subseteq> ?b" and acyc: "acyclic (depends edges \<inter> ?b \<times> ?b)"
    using assms(1) by (auto simp: finished_ok_def)
  have b': "black (colour(node \<mapsto> BLACK)) = insert node ?b" by auto
  have out: "depends edges `` {node} \<subseteq> ?b" using assms(3) by (auto simp: depends_def)
  have node: "node \<notin> ?b" using assms(2) by simp
  have "acyclic ((depends edges \<inter> ?b \<times> ?b) \<union> (depends edges \<inter> {node} \<times> ?b))"
    using node by (intro acyclic_add_source[where a = node] acyc) auto
  moreover have "depends edges \<inter> insert node ?b \<times> insert node ?b =
      (depends edges \<inter> ?b \<times> ?b) \<union> (depends edges \<inter> {node} \<times> ?b)"
    using closed out node by auto
  ultimately have "acyclic (depends edges \<inter> insert node ?b \<times> insert node ?b)" by (simp only:)
  moreover have "depends edges `` insert node ?b \<subseteq> insert node ?b"
    using closed out by (simp add: Image_def) blast
  ultimately show ?thesis by (simp only: finished_ok_def b' simp_thms)
qed

text \<open>Each step of the search keeps the invariant.\<close>

lemma search_push:
  assumes "search_ok edges ((node, index) # stack) path colour"
    "index < length (neighbours edges node)" "neighbours edges node ! index = child" "colour child = None"
  shows "search_ok edges ((child, 0) # (node, Suc index) # stack) (path @ [child]) (colour(child \<mapsto> GREY))"
proof -
  have b: "black (colour(child \<mapsto> GREY)) = black colour" using assms(4) by auto
  have ne: "child \<noteq> node" using assms(4) search_top[OF assms(1)] by auto
  have "child \<notin> fst ` set ((node, index) # stack)"
    using assms(4) search_grey[OF assms(1), of child] by simp
  moreover have "suspended edges (colour(child \<mapsto> GREY)) node stack"
  proof (rule suspended_mono)
    show "suspended edges colour node stack" using assms(1) by (simp add: search_ok_def)
    show "black colour \<subseteq> black (colour(child \<mapsto> GREY))" by (simp only: b order_refl)
  qed
  moreover have "finished_ok edges (colour(child \<mapsto> GREY))"
    unfolding finished_ok_def b using assms(1) by (simp add: search_ok_def finished_ok_def)
  ultimately show ?thesis
    using assms b ne by (auto simp: search_ok_def)
qed

lemma search_skip:
  assumes "search_ok edges ((node, index) # stack) path colour"
    "index < length (neighbours edges node)" "colour (neighbours edges node ! index) = Some BLACK"
  shows "search_ok edges ((node, Suc index) # stack) path colour"
  using assms by (auto simp: search_ok_def less_Suc_eq)

lemma search_pop:
  assumes "search_ok edges ((node, index) # stack) path colour" "\<not> index < length (neighbours edges node)"
  shows "search_ok edges stack (butlast path) (colour(node \<mapsto> BLACK))"
proof -
  have grey: "colour node = Some GREY"
    using assms(1) by (rule search_top)
  have b: "black (colour(node \<mapsto> BLACK)) = insert node (black colour)" by auto
  have i: "index = length (neighbours edges node)"
    using assms by (auto simp: search_ok_def)
  have "set (neighbours edges node) \<subseteq> black colour"
    using assms(1) i by (auto simp: search_ok_def in_set_conv_nth)
  then have fin: "finished_ok edges (colour(node \<mapsto> BLACK))"
  proof (intro finish_node)
    show "finished_ok edges colour" using assms(1) by (simp add: search_ok_def)
    show "colour node \<noteq> Some BLACK" using grey by simp
  qed
  have "stack_ok edges (colour(node \<mapsto> BLACK)) stack"
  proof (cases stack)
    case (Cons fr rest)
    obtain parent k where fr: "fr = (parent, k)" by (cases fr)
    have p: "0 < k" "k \<le> length (neighbours edges parent)" "neighbours edges parent ! (k - 1) = node"
      "\<forall>j < k - 1. neighbours edges parent ! j \<in> black colour" "suspended edges colour parent rest"
      using assms(1) Cons fr by (auto simp: search_ok_def)
    have "suspended edges (colour(node \<mapsto> BLACK)) parent rest"
      by (rule suspended_mono[OF p(5)]) auto
    moreover have "neighbours edges parent ! j \<in> black (colour(node \<mapsto> BLACK))" if "j < k" for j
      using that p(1,3,4) by (cases "j = k - 1") auto
    ultimately show ?thesis using Cons fr p(2) by simp
  qed simp
  then show ?thesis
    using assms(1) fin by (auto simp: search_ok_def)
qed

lemma walk_from_ok:
  assumes "search_ok edges stack path colour" "walk_from edges stack path colour = Inr colour'"
  shows "finished_ok edges colour' \<and> (\<forall>x. colour' x \<noteq> Some GREY) \<and> black colour \<subseteq> black colour' \<and>
     fst ` set stack \<subseteq> black colour'"
  using assms
proof (induction edges stack path colour arbitrary: colour' rule: walk_from.induct)
  case (1 edges path colour)
  then show ?case by (simp add: walk_from_done search_ok_def)
next
  case (2 edges node index stack path colour)
  let ?ns = "neighbours edges node"
  note run = 2(5) and ok = 2(4)
  show ?case
  proof (cases "index < length ?ns")
    case less: True
    show ?thesis
    proof (cases "colour (?ns ! index)")
      case None
      have "search_ok edges ((?ns ! index, 0) # (node, Suc index) # stack) (path @ [?ns ! index])
          (colour(?ns ! index \<mapsto> GREY))"
        by (rule search_push[OF ok less refl None])
      moreover have "walk_from edges ((?ns ! index, 0) # (node, Suc index) # stack) (path @ [?ns ! index])
          (colour(?ns ! index \<mapsto> GREY)) = Inr colour'"
        using run by (simp only: walk_from_push[where colour = colour, OF less None])
      ultimately have "finished_ok edges colour' \<and> (\<forall>x. colour' x \<noteq> Some GREY) \<and>
          black (colour(?ns ! index \<mapsto> GREY)) \<subseteq> black colour' \<and>
          fst ` set ((?ns ! index, 0) # (node, Suc index) # stack) \<subseteq> black colour'"
        using 2(1)[OF less refl _ None] None by fastforce
      moreover have "black colour \<subseteq> black (colour(?ns ! index \<mapsto> GREY))" using None by auto
      ultimately show ?thesis by auto
    next
      case (Some c)
      then have blk: "colour (?ns ! index) = Some BLACK"
        using run by (cases c) (simp_all add: walk_from_back[where colour = colour, OF less])
      from 2(2)[OF less refl _ _ search_skip[OF ok less blk]] run
      show ?thesis by (simp add: walk_from_skip[where colour = colour, OF less blk] blk)
    qed
  next
    case False
    have "walk_from edges stack (butlast path) (colour(node \<mapsto> BLACK)) = Inr colour'"
      using run by (simp only: walk_from_pop[OF False])
    with 2(3)[OF False search_pop[OF ok False]] have "finished_ok edges colour' \<and> (\<forall>x. colour' x \<noteq> Some GREY) \<and>
        black (colour(node \<mapsto> BLACK)) \<subseteq> black colour' \<and> fst ` set stack \<subseteq> black colour'"
      by fastforce
    then show ?thesis by auto
  qed
qed

section \<open>The cycle it reports\<close>

fun dependency_path :: "edges \<Rightarrow> string list \<Rightarrow> bool" where
  "dependency_path edges (x # y # rest) = (y \<in> set (neighbours edges x) \<and> dependency_path edges (y # rest))"
| "dependency_path edges _ = True"

definition closed_walk :: "edges \<Rightarrow> string list \<Rightarrow> bool" where
  "closed_walk edges keys \<longleftrightarrow> 2 \<le> length keys \<and> hd keys = last keys \<and> dependency_path edges keys"

lemma dependency_path_snoc:
  "dependency_path edges (xs @ [x, y]) \<longleftrightarrow> dependency_path edges (xs @ [x]) \<and> y \<in> set (neighbours edges x)"
  by (induction edges xs rule: dependency_path.induct) auto

lemma dependency_path_suffix: "dependency_path edges (xs @ ys) \<Longrightarrow> dependency_path edges ys"
proof (induction xs)
  case (Cons x xs)
  then show ?case by (cases "xs @ ys") (auto simp: neighbours_def)
qed simp

lemma suspended_path:
  "suspended edges colour child stack \<Longrightarrow> dependency_path edges (rev (map fst stack) @ [child])"
proof (induction edges colour child stack rule: suspended.induct)
  case (2 edges colour child node index stack)
  then have "child \<in> set (neighbours edges node)"
    by (metis One_nat_def Suc_pred less_eq_Suc_le nth_mem suspended.simps(2))
  with 2 show ?case by (simp add: dependency_path_snoc)
qed simp

lemma walk_from_cycle:
  assumes "search_ok edges stack path colour" "walk_from edges stack path colour = Inl keys"
  shows "closed_walk edges keys"
  using assms
proof (induction edges stack path colour rule: walk_from.induct)
  case (1 edges path colour)
  then show ?case by (simp add: walk_from_done)
next
  case (2 edges node index stack path colour)
  let ?ns = "neighbours edges node"
  note run = 2(5) and ok = 2(4)
  show ?case
  proof (cases "index < length ?ns")
    case less: True
    consider "colour (?ns ! index) = None" | "colour (?ns ! index) = Some BLACK" | "colour (?ns ! index) = Some GREY"
      by (metis colour.exhaust option.exhaust)
    then show ?thesis
    proof cases
      case 1
      have "walk_from edges ((?ns ! index, 0) # (node, Suc index) # stack) (path @ [?ns ! index])
          (colour(?ns ! index \<mapsto> GREY)) = Inl keys"
        using run by (simp only: walk_from_push[where colour = colour, OF less 1])
      with 2(1)[OF less refl _ 1 search_push[OF ok less refl 1]] 1 show ?thesis by fastforce
    next
      case 2
      from "2.IH"(2)[OF less refl _ _ search_skip[OF ok less 2]] run
      show ?thesis by (simp add: walk_from_skip[where colour = colour, OF less 2] 2)
    next
      case 3
      let ?nb = "?ns ! index"
      have keys: "keys = dropWhile (\<lambda>k. k \<noteq> ?nb) path @ [?nb]"
        using run by (simp add: walk_from_back[where colour = colour, OF less 3])
      have path: "path = rev (map fst stack) @ [node]" "?nb \<in> set path"
        using ok 3 by (auto simp: search_ok_def)
      have "dependency_path edges path"
        using ok suspended_path[of edges colour node stack] path(1) by (simp add: search_ok_def)
      then have "dependency_path edges (path @ [?nb])"
        using path(1) less by (simp add: dependency_path_snoc)
      moreover have split: "path = takeWhile (\<lambda>k. k \<noteq> ?nb) path @ dropWhile (\<lambda>k. k \<noteq> ?nb) path" by simp
      ultimately have "dependency_path edges keys"
        unfolding keys by (metis append.assoc dependency_path_suffix)
      moreover have ne: "dropWhile (\<lambda>k. k \<noteq> ?nb) path \<noteq> []" using path(2) by (auto simp: dropWhile_eq_Nil_conv)
      moreover have "hd (dropWhile (\<lambda>k. k \<noteq> ?nb) path) = ?nb" using hd_dropWhile[OF ne] by simp
      ultimately show ?thesis
        by (cases "dropWhile (\<lambda>k. k \<noteq> ?nb) path") (auto simp: closed_walk_def keys)
    qed
  next
    case False
    have "walk_from edges stack (butlast path) (colour(node \<mapsto> BLACK)) = Inl keys"
      using run by (simp only: walk_from_pop[OF False])
    with 2(3)[OF False search_pop[OF ok False]] show ?thesis by fastforce
  qed
qed

section \<open>The verdict\<close>

lemma search_start:
  assumes "finished_ok edges colour" "\<forall>x. colour x \<noteq> Some GREY" "colour root \<noteq> Some BLACK"
  shows "search_ok edges [(root, 0)] [root] (colour(root \<mapsto> GREY))"
proof -
  have b: "black (colour(root \<mapsto> GREY)) = black colour" using assms(3) by auto
  have "finished_ok edges (colour(root \<mapsto> GREY))"
    unfolding finished_ok_def b using assms(1) by (simp add: finished_ok_def)
  then show ?thesis using assms(2) by (simp add: search_ok_def)
qed

lemma find_from_cases:
  assumes "finished_ok edges colour" "\<forall>x. colour x \<noteq> Some GREY"
  shows "closed_walk edges (find_from edges roots colour) \<or>
     find_from edges roots colour = [] \<and>
     (\<exists>done. finished_ok edges done \<and> black colour \<subseteq> black done \<and> set roots \<subseteq> black done)"
  using assms
proof (induction edges roots colour rule: find_from.induct)
  case (1 edges colour)
  then show ?case by auto
next
  case (2 edges root roots colour)
  show ?case
  proof (cases "colour root = Some BLACK")
    case True
    with 2(1)[OF True 2(3,4)] show ?thesis by auto
  next
    case False
    note start = search_start[OF 2(3,4) False]
    show ?thesis
    proof (cases "walk_from edges [(root, 0)] [root] (colour(root \<mapsto> GREY))")
      case (Inl keys)
      then show ?thesis using False walk_from_cycle[OF start Inl] by simp
    next
      case (Inr colour')
      note w = walk_from_ok[OF start Inr]
      have mono: "black colour \<subseteq> black colour'" using w False by auto
      have root: "root \<in> black colour'" using w by simp
      have eq: "find_from edges (root # roots) colour = find_from edges roots colour'"
        using False Inr by simp
      have "closed_walk edges (find_from edges roots colour') \<or>
          find_from edges roots colour' = [] \<and>
          (\<exists>done. finished_ok edges done \<and> black colour' \<subseteq> black done \<and> set roots \<subseteq> black done)"
        by (rule 2(2)[OF False Inr]) (use w in blast)+
      then show ?thesis
        unfolding eq
      proof (elim disjE conjE exE)
        fix finished
        assume nil: "find_from edges roots colour' = []"
          and f: "finished_ok edges finished" "black colour' \<subseteq> black finished" "set roots \<subseteq> black finished"
        have "black colour \<subseteq> black finished" using mono f(2) by (rule subset_trans)
        moreover have "set (root # roots) \<subseteq> black finished"
          using subsetD[OF f(2) root] f(3) by simp
        ultimately show "closed_walk edges (find_from edges roots colour') \<or>
            find_from edges roots colour' = [] \<and>
            (\<exists>done. finished_ok edges done \<and> black colour \<subseteq> black done \<and>
               set (root # roots) \<subseteq> black done)"
          using nil f(1) by (intro disjI2 conjI exI[of _ finished])
      qed simp
    qed
  qed
qed

lemma find_cycle_acyclic: "find_cycle edges = [] \<longleftrightarrow> acyclic (depends edges)"
proof -
  have start: "finished_ok edges Map.empty" by (simp add: finished_ok_def acyclic_def)
  show ?thesis
  proof
    assume "find_cycle edges = []"
    then obtain finished where d: "finished_ok edges finished" "set (map fst edges) \<subseteq> black finished"
      using find_from_cases[OF start, of "map fst edges"]
      by (auto simp: find_cycle_def closed_walk_def)
    have "depends edges \<subseteq> black finished \<times> black finished"
    proof (rule subrelI)
      fix x y
      assume xy: "(x, y) \<in> depends edges"
      then have "x \<in> set (map fst edges)"
        by (cases "map_of edges x = None") (auto simp: depends_def neighbours_def map_of_eq_None_iff)
      with d(2) have "x \<in> black finished" by blast
      then show "(x, y) \<in> black finished \<times> black finished"
        using d(1) xy by (auto simp: finished_ok_def)
    qed
    then have "depends edges \<inter> black finished \<times> black finished = depends edges" by auto
    with d(1) show "acyclic (depends edges)" by (simp add: finished_ok_def)
  next
    assume acyc: "acyclic (depends edges)"
    show "find_cycle edges = []"
    proof (rule ccontr)
      assume "find_cycle edges \<noteq> []"
      then have c: "closed_walk edges (find_cycle edges)"
        using find_from_cases[OF start, of "map fst edges"] by (auto simp: find_cycle_def)
      have chain: "(hd keys, last keys) \<in> (depends edges)\<^sup>+"
        if "dependency_path edges keys" "2 \<le> length keys" for keys
        using that
      proof (induction edges keys rule: dependency_path.induct)
        case (1 edges x y rest)
        then show ?case
          by (cases rest) (auto simp: depends_def intro: trancl_into_trancl2)
      qed auto
      have "(hd (find_cycle edges), hd (find_cycle edges)) \<in> (depends edges)\<^sup>+"
        using chain[of "find_cycle edges"] c by (auto simp: closed_walk_def)
      with acyc show False by (simp add: acyclic_def)
    qed
  qed
qed

text \<open>C17: The dependency check is exact and always ends: for every dictionary of dependencies it
  answers the empty sequence exactly when no step depends on itself through any chain of
  dependencies.\<close>

theorem find_cycle_iff_acyclic:
  "find_cycle edges = [] \<longleftrightarrow> acyclic (depends edges)"
  by (rule find_cycle_acyclic)

text \<open>What it reports is a cycle: a nonempty answer names at least two keys, begins and ends with
  the same one, and each key depends directly on the next.\<close>

theorem find_cycle_is_cycle:
  assumes "find_cycle edges \<noteq> []"
  shows "closed_walk edges (find_cycle edges)"
  using assms find_from_cases[of edges Map.empty "map fst edges"]
  by (auto simp: find_cycle_def finished_ok_def acyclic_def)

theorem find_cycle_is_cycle_witness:
  "closed_walk [(''a'', [''b'']), (''b'', [''c'', ''a'']), (''c'', [])]
     (find_cycle [(''a'', [''b'']), (''b'', [''c'', ''a'']), (''c'', [])])"
  by (rule find_cycle_is_cycle) (simp add: find_cycle_def walk_from.simps neighbours_def Let_def)

end
