(* ===== verification/Playbook_Rules.thy ===== *)
theory Playbook_Rules
  imports Step_Graph Due_Dates "HOL-Library.List_Lexorder" "HOL-Library.Char_ord"
begin

text \<open>
  \<^verbatim>\<open>apps/cycles/rules.py\<close>: what a playbook draft must satisfy to be saved or published, and
  \<^verbatim>\<open>AppliesTo\<close> of \<^verbatim>\<open>apps/cycles/targeting.py\<close>, the scope a stored version is read back with.
  A message is kept as the reason it states; the order of the list is the order the code
  collects them in.
\<close>

section \<open>Vocabulary\<close>

datatype step_kind =
    EVIDENCE_REQUEST | TASK | REVIEW_STEP | APPROVAL_GATE | CLIENT_PUBLICATION | EMAIL_NOTICE | CHECKPOINT

datatype owner_rule = ENGAGEMENT_RESPONSIBLE | PRIMARY_ASSIGNEE | TEAM

definition STEP_KINDS :: "(string \<times> step_kind) list" where
  "STEP_KINDS =
     [(''evidence_request'', EVIDENCE_REQUEST), (''task'', TASK), (''review'', REVIEW_STEP),
      (''approval_gate'', APPROVAL_GATE), (''client_publication'', CLIENT_PUBLICATION),
      (''email_notice'', EMAIL_NOTICE), (''checkpoint'', CHECKPOINT)]"

definition OWNER_RULES :: "(string \<times> owner_rule) list" where
  "OWNER_RULES =
     [(''engagement_responsible'', ENGAGEMENT_RESPONSIBLE), (''primary_assignee'', PRIMARY_ASSIGNEE),
      (''team'', TEAM)]"

definition REGIMES :: "string list" where
  "REGIMES = [''mei'', ''simples'', ''presumido'', ''real'', ''isento'', ''unknown'']"

definition SERVICE_KINDS :: "string list" where
  "SERVICE_KINDS = [''mei_mensal'', ''documentos_mensal'', ''outro'']"

text \<open>
  The step as the editor submits it.  A due rule is a decoded JSON object, \<open>None\<close> any other
  value; the dependencies are the tuple of keys the dataclass declares.
\<close>

record step_spec =
  ss_key :: string
  ss_kind :: string
  ss_label :: string
  ss_client_label :: string
  ss_depends_on :: "string list"
  ss_owner_rule :: string
  ss_due_rule :: "(string \<times> json) list option"
  ss_evidence_required :: bool
  ss_client_visible :: bool
  ss_is_enabled :: bool

text \<open>Why a draft is refused.\<close>

datatype draft_problem =
    Bad_Key string
  | Duplicate_Key string
  | Unknown_Kind string
  | Missing_Label string
  | Missing_Client_Label string
  | Unknown_Owner_Rule string
  | Self_Dependency string
  | Due_Rule_Shape
  | Due_Rule_Keys
  | Due_Rule_Kind
  | Due_Rule_Integer string
  | Due_Rule_Range string
  | Due_Rule_Obligation
  | Unknown_Dependency string string
  | Unknown_Obligation string
  | Scope_Shape
  | Scope_Keys
  | Scope_Axis string
  | Scope_Values string
  | No_Steps

datatype draft_error = Problems "draft_problem list" | Dependency_Cycle "string list"

type_synonym 'a drafted = "draft_error + 'a"

section \<open>Patterns\<close>

text \<open>
  A \<^verbatim>\<open>re.match\<close> against a pattern that ends in \<^verbatim>\<open>$\<close>: the end anchor also matches just before a
  newline that ends the text.
\<close>

definition lower_alnum :: "char \<Rightarrow> bool" where
  "lower_alnum c = (CHR ''a'' \<le> c \<and> c \<le> CHR ''z'' \<or> CHR ''0'' \<le> c \<and> c \<le> CHR ''9'')"

definition upper_alpha :: "char \<Rightarrow> bool" where
  "upper_alpha c = (CHR ''A'' \<le> c \<and> c \<le> CHR ''Z'')"

definition digit_char :: "char \<Rightarrow> bool" where
  "digit_char c = (CHR ''0'' \<le> c \<and> c \<le> CHR ''9'')"

definition without_final_newline :: "string \<Rightarrow> string" where
  "without_final_newline s = (if s \<noteq> [] \<and> last s = CHR 0x0A then butlast s else s)"

definition anchored :: "(char \<Rightarrow> bool) \<Rightarrow> (char \<Rightarrow> bool) \<Rightarrow> nat \<Rightarrow> string \<Rightarrow> bool" where
  "anchored first rest limit s =
     (case without_final_newline s of
        [] \<Rightarrow> False
      | c # cs \<Rightarrow> first c \<and> list_all rest cs \<and> length cs \<le> limit)"

definition key_matches :: "string \<Rightarrow> bool" where
  "key_matches = anchored lower_alnum (\<lambda>c. lower_alnum c \<or> c = CHR ''-'') 63"

definition obligation_matches :: "string \<Rightarrow> bool" where
  "obligation_matches = anchored upper_alpha (\<lambda>c. upper_alpha c \<or> digit_char c \<or> c = CHR ''-'') 15"

section \<open>Due rules\<close>

datatype step_due_rule =
    Period_End_Offset int
  | Fixed_Day int int
  | Obligation_Due string

definition DUE_RULE_KEYS :: "string list" where
  "DUE_RULE_KEYS = [''kind'', ''days'', ''day'', ''month_offset'', ''obligation'']"

text \<open>A JSON \<^verbatim>\<open>true\<close> is a shape error, not the integer 1.\<close>

definition int_field :: "(string \<times> json) list \<Rightarrow> string \<Rightarrow> int \<Rightarrow> int \<Rightarrow> int drafted" where
  "int_field raw name low high =
     (case json_get raw name of
        JInt i \<Rightarrow> if low \<le> i \<and> i \<le> high then Inr i else Inl (Problems [Due_Rule_Range name])
      | _ \<Rightarrow> Inl (Problems [Due_Rule_Integer name]))"

definition parse_step_due_rule :: "(string \<times> json) list option \<Rightarrow> step_due_rule drafted" where
  "parse_step_due_rule raw =
     (case raw of
        None \<Rightarrow> Inl (Problems [Due_Rule_Shape])
      | Some obj \<Rightarrow>
          if \<exists>k \<in> fst ` set obj. k \<notin> set DUE_RULE_KEYS then Inl (Problems [Due_Rule_Keys])
          else if json_get obj ''kind'' = JStr ''period_end_offset'' then
            (case int_field obj ''days'' 0 62 of
               Inl e \<Rightarrow> Inl e | Inr days \<Rightarrow> Inr (Period_End_Offset days))
          else if json_get obj ''kind'' = JStr ''fixed_day'' then
            (case int_field obj ''day'' 1 28 of
               Inl e \<Rightarrow> Inl e
             | Inr day \<Rightarrow>
                 (case int_field obj ''month_offset'' 0 3 of
                    Inl e \<Rightarrow> Inl e | Inr offset \<Rightarrow> Inr (Fixed_Day day offset)))
          else if json_get obj ''kind'' = JStr ''obligation_due'' then
            (case json_get obj ''obligation'' of
               JStr code \<Rightarrow> if obligation_matches code then Inr (Obligation_Due code)
                            else Inl (Problems [Due_Rule_Obligation])
             | _ \<Rightarrow> Inl (Problems [Due_Rule_Obligation]))
          else Inl (Problems [Due_Rule_Kind]))"

section \<open>Targets\<close>

text \<open>A raw scope: absent, not an object, or an object whose axes are absent, lists of texts, or
  anything else.\<close>

datatype raw_axis = Axis_Null | Axis_List "string list" | Axis_Other

datatype raw_scope = Scope_None | Scope_Other | Scope_Object "(string \<times> raw_axis) list"

definition APPLIES_TO_KEYS :: "string list" where
  "APPLIES_TO_KEYS = [''regimes'', ''service_kinds'']"

definition axis_get :: "(string \<times> raw_axis) list \<Rightarrow> string \<Rightarrow> raw_axis" where
  "axis_get obj k = (case map_of obj k of None \<Rightarrow> Axis_Null | Some v \<Rightarrow> v)"

definition validate_axis ::
  "(string \<times> raw_axis) list \<Rightarrow> string \<Rightarrow> string list \<Rightarrow> (string \<times> raw_axis) list drafted" where
  "validate_axis obj key permitted =
     (case axis_get obj key of
        Axis_Null \<Rightarrow> Inr []
      | Axis_Other \<Rightarrow> Inl (Problems [Scope_Axis key])
      | Axis_List values \<Rightarrow>
          if \<exists>v \<in> set values. v \<notin> set permitted then Inl (Problems [Scope_Values key])
          else Inr [(key, Axis_List (sort (remdups values)))])"

definition validate_applies_to :: "raw_scope \<Rightarrow> (string \<times> raw_axis) list drafted" where
  "validate_applies_to raw =
     (case raw of
        Scope_None \<Rightarrow> Inr []
      | Scope_Other \<Rightarrow> Inl (Problems [Scope_Shape])
      | Scope_Object obj \<Rightarrow>
          if \<exists>k \<in> fst ` set obj. k \<notin> set APPLIES_TO_KEYS then Inl (Problems [Scope_Keys])
          else (case validate_axis obj ''regimes'' REGIMES of
                  Inl e \<Rightarrow> Inl e
                | Inr regimes \<Rightarrow>
                    (case validate_axis obj ''service_kinds'' SERVICE_KINDS of
                       Inl e \<Rightarrow> Inl e
                     | Inr kinds \<Rightarrow> Inr (regimes @ kinds))))"

text \<open>
  \<^verbatim>\<open>AppliesTo.parse\<close>: a stored value that is malformed narrows to a literal no client carries,
  never to the unrestricted empty axis.
\<close>

record applies_to =
  at_regimes :: "string list"
  at_service_kinds :: "string list"

definition INVALID_LITERAL :: string where
  "INVALID_LITERAL = CHR 0x00 # ''invalid''"

definition parse_axis :: "(string \<times> raw_axis) list \<Rightarrow> string \<Rightarrow> string list \<Rightarrow> string list" where
  "parse_axis obj key permitted =
     (case axis_get obj key of
        Axis_Null \<Rightarrow> []
      | Axis_Other \<Rightarrow> [INVALID_LITERAL]
      | Axis_List values \<Rightarrow>
          if \<exists>v \<in> set values. v \<notin> set permitted then [INVALID_LITERAL] else values)"

definition parse_applies_to :: "raw_scope \<Rightarrow> applies_to" where
  "parse_applies_to raw =
     (case raw of
        Scope_Object obj \<Rightarrow>
          \<lparr>at_regimes = parse_axis obj ''regimes'' REGIMES,
           at_service_kinds = parse_axis obj ''service_kinds'' SERVICE_KINDS\<rparr>
      | _ \<Rightarrow> \<lparr>at_regimes = [], at_service_kinds = []\<rparr>)"

section \<open>Drafts\<close>

definition problems_of :: "'a drafted \<Rightarrow> draft_problem list" where
  "problems_of r = (case r of Inl (Problems ps) \<Rightarrow> ps | _ \<Rightarrow> [])"

definition validate_step :: "step_spec \<Rightarrow> string list \<Rightarrow> draft_problem list" where
  "validate_step spec seen =
     (let key = ss_key spec in
      (if key_matches key then [] else [Bad_Key key]) @
      (if key \<in> set seen then [Duplicate_Key key] else []) @
      (if ss_kind spec \<in> set (map fst STEP_KINDS) then [] else [Unknown_Kind key]) @
      (if strip (ss_label spec) = [] then [Missing_Label key] else []) @
      (if ss_client_visible spec \<and> strip (ss_client_label spec) = [] then [Missing_Client_Label key]
       else []) @
      (if ss_owner_rule spec \<in> set (map fst OWNER_RULES) then [] else [Unknown_Owner_Rule key]) @
      (if key \<in> set (ss_depends_on spec) then [Self_Dependency key] else []) @
      problems_of (parse_step_due_rule (ss_due_rule spec)))"

fun validate_steps :: "step_spec list \<Rightarrow> string list \<Rightarrow> draft_problem list" where
  "validate_steps [] seen = []"
| "validate_steps (spec # specs) seen =
     validate_step spec seen @ validate_steps specs (ss_key spec # seen)"

text \<open>\<^verbatim>\<open>specs.setdefault\<close>: the first step of a key stands for it.\<close>

fun specs_by_key :: "step_spec list \<Rightarrow> (string \<times> step_spec) list" where
  "specs_by_key [] = []"
| "specs_by_key (spec # specs) =
     (ss_key spec, spec) # filter (\<lambda>(k, _). k \<noteq> ss_key spec) (specs_by_key specs)"

definition dependency_errors :: "(string \<times> step_spec) list \<Rightarrow> draft_problem list" where
  "dependency_errors specs =
     concat (map (\<lambda>(key, spec).
       map (Unknown_Dependency key)
         (filter (\<lambda>d. d \<notin> set (map fst specs)) (ss_depends_on spec))) specs)"

text \<open>\<^verbatim>\<open>str(obligation)\<close> of a value that is not a text is never a known code.\<close>

definition obligation_errors :: "(string \<times> step_spec) list \<Rightarrow> string list \<Rightarrow> draft_problem list" where
  "obligation_errors specs known =
     concat (map (\<lambda>(key, spec).
       (case ss_due_rule spec of
          None \<Rightarrow> []
        | Some obj \<Rightarrow>
            if json_get obj ''kind'' = JStr ''obligation_due'' \<and> json_get obj ''obligation'' \<noteq> JNull \<and>
               (\<forall>code \<in> set known. json_get obj ''obligation'' \<noteq> JStr code)
            then [Unknown_Obligation key] else [])) specs)"

definition validate_draft ::
  "raw_scope \<Rightarrow> step_spec list \<Rightarrow> string list \<Rightarrow> bool \<Rightarrow> (string \<times> raw_axis) list drafted" where
  "validate_draft scope steps known for_publish =
     (case validate_applies_to scope of
        Inl e \<Rightarrow> Inl e
      | Inr normalized \<Rightarrow>
          (let specs = specs_by_key steps;
               errors = validate_steps steps [] @ dependency_errors specs;
               cycle = (if for_publish \<and> errors = []
                        then find_cycle (map (\<lambda>(key, spec). (key, ss_depends_on spec)) specs) else []);
               all_errors = errors @ obligation_errors specs known
           in if cycle \<noteq> [] then Inl (Dependency_Cycle cycle)
              else if all_errors \<noteq> [] then Inl (Problems all_errors)
              else if for_publish \<and> steps = [] then Inl (Problems [No_Steps])
              else Inr normalized))"

definition next_period_start :: "date \<Rightarrow> date res" where
  "next_period_start today =
     (let month = d_month today + 1; year = d_year today in
      if 12 < month then mk_date (year + 1) 1 1 else mk_date year month 1)"

section \<open>What an accepted draft satisfies\<close>

definition step_edges :: "step_spec list \<Rightarrow> edges" where
  "step_edges steps = map (\<lambda>spec. (ss_key spec, ss_depends_on spec)) steps"

definition step_ok :: "step_spec list \<Rightarrow> string list \<Rightarrow> step_spec \<Rightarrow> bool" where
  "step_ok steps known spec \<longleftrightarrow>
     key_matches (ss_key spec) \<and> ss_kind spec \<in> set (map fst STEP_KINDS) \<and>
     ss_owner_rule spec \<in> set (map fst OWNER_RULES) \<and> strip (ss_label spec) \<noteq> [] \<and>
     (ss_client_visible spec \<longrightarrow> strip (ss_client_label spec) \<noteq> []) \<and>
     set (ss_depends_on spec) \<subseteq> ss_key ` set steps \<and>
     (case parse_step_due_rule (ss_due_rule spec) of
        Inl _ \<Rightarrow> False
      | Inr (Obligation_Due code) \<Rightarrow> code \<in> set known
      | Inr _ \<Rightarrow> True)"

lemma parse_step_due_rule_problems:
  "parse_step_due_rule raw = Inl e \<Longrightarrow> problems_of (parse_step_due_rule raw) \<noteq> []"
  by (auto simp: parse_step_due_rule_def int_field_def problems_of_def split: option.splits if_splits json.splits)

lemma parse_obligation:
  "parse_step_due_rule raw = Inr (Obligation_Due code) \<Longrightarrow>
     \<exists>obj. raw = Some obj \<and> json_get obj ''kind'' = JStr ''obligation_due'' \<and>
           json_get obj ''obligation'' = JStr code"
  by (auto simp: parse_step_due_rule_def int_field_def split: option.splits if_splits json.splits)

lemma validate_step_Nil:
  "validate_step spec seen = [] \<longleftrightarrow>
     key_matches (ss_key spec) \<and> ss_key spec \<notin> set seen \<and> ss_kind spec \<in> set (map fst STEP_KINDS) \<and>
     strip (ss_label spec) \<noteq> [] \<and> (ss_client_visible spec \<longrightarrow> strip (ss_client_label spec) \<noteq> []) \<and>
     ss_owner_rule spec \<in> set (map fst OWNER_RULES) \<and> ss_key spec \<notin> set (ss_depends_on spec) \<and>
     problems_of (parse_step_due_rule (ss_due_rule spec)) = []"
  unfolding validate_step_def Let_def by (simp only: append_is_Nil_conv) (simp split: if_splits)

lemma validate_steps_Nil:
  "validate_steps steps seen = [] \<longleftrightarrow>
     distinct (map ss_key steps) \<and> ss_key ` set steps \<inter> set seen = {} \<and>
     (\<forall>spec \<in> set steps. validate_step spec [] = [])"
proof (induction steps arbitrary: seen)
  case (Cons spec specs)
  have "validate_step spec seen = [] \<longleftrightarrow> validate_step spec [] = [] \<and> ss_key spec \<notin> set seen"
    by (auto simp: validate_step_Nil)
  with Cons.IH[of "ss_key spec # seen"] show ?case by auto
qed simp

lemma specs_by_key_distinct:
  "distinct (map ss_key steps) \<Longrightarrow> specs_by_key steps = map (\<lambda>spec. (ss_key spec, spec)) steps"
proof (induction steps)
  case (Cons spec specs)
  then have "filter (\<lambda>(k, _). k \<noteq> ss_key spec) (map (\<lambda>s. (ss_key s, s)) specs) = map (\<lambda>s. (ss_key s, s)) specs"
    by (auto simp: filter_id_conv image_iff)
  with Cons show ?case by simp
qed simp

lemma validate_draft_Inr:
  assumes "validate_draft scope steps known for_publish = Inr normalized"
  shows "validate_applies_to scope = Inr normalized \<and> validate_steps steps [] = [] \<and>
     dependency_errors (specs_by_key steps) = [] \<and> obligation_errors (specs_by_key steps) known = [] \<and>
     (for_publish \<longrightarrow> steps \<noteq> [] \<and>
        find_cycle (map (\<lambda>(key, spec). (key, ss_depends_on spec)) (specs_by_key steps)) = [])"
  using assms by (auto simp: validate_draft_def Let_def split: sum.splits if_splits)

lemma due_rule_accepted:
  assumes "problems_of (parse_step_due_rule (ss_due_rule spec)) = []"
    "(ss_key spec, spec) \<in> set specs" "obligation_errors specs known = []"
  shows "case parse_step_due_rule (ss_due_rule spec) of
        Inl _ \<Rightarrow> False
      | Inr (Obligation_Due code) \<Rightarrow> code \<in> set known
      | Inr _ \<Rightarrow> True"
proof (cases "parse_step_due_rule (ss_due_rule spec)")
  case (Inl e)
  with parse_step_due_rule_problems[OF Inl] assms(1) show ?thesis by simp
next
  case (Inr rule)
  show ?thesis
  proof (cases rule)
    case (Obligation_Due code)
    with Inr obtain obj where obj: "ss_due_rule spec = Some obj"
      "json_get obj ''kind'' = JStr ''obligation_due''" "json_get obj ''obligation'' = JStr code"
      using parse_obligation by blast
    have "(case ss_due_rule spec of
          None \<Rightarrow> []
        | Some obj \<Rightarrow>
            if json_get obj ''kind'' = JStr ''obligation_due'' \<and> json_get obj ''obligation'' \<noteq> JNull \<and>
               (\<forall>code \<in> set known. json_get obj ''obligation'' \<noteq> JStr code)
            then [Unknown_Obligation (ss_key spec)] else []) = []"
      using assms(2,3) unfolding obligation_errors_def concat_eq_Nil_conv by fastforce
    then have "code \<in> set known" using obj by (simp split: if_splits)
    with Inr Obligation_Due show ?thesis by simp
  qed (use Inr in simp_all)
qed

text \<open>C21: A playbook that may be published is well formed: it has steps, their keys are distinct, each
  has a known kind, owner rule, label and readable due rule citing a known obligation, every
  dependency names a step of the same version, and no step depends on itself through any chain.\<close>

theorem publishable_draft_well_formed:
  assumes "validate_draft scope steps known True = Inr normalized"
  shows "steps \<noteq> [] \<and> distinct (map ss_key steps) \<and> list_all (step_ok steps known) steps \<and>
     acyclic (depends (step_edges steps))"
proof -
  note v = validate_draft_Inr[OF assms]
  have dist: "distinct (map ss_key steps)" and each: "\<forall>spec \<in> set steps. validate_step spec [] = []"
    using v by (auto simp: validate_steps_Nil)
  note specs = specs_by_key_distinct[OF dist]
  have "find_cycle (step_edges steps) = []"
    using v by (simp add: specs step_edges_def comp_def)
  then have acyc: "acyclic (depends (step_edges steps))"
    by (simp add: find_cycle_acyclic)
  have "step_ok steps known spec" if spec: "spec \<in> set steps" for spec
  proof -
    have e: "validate_step spec [] = []" using each spec by blast
    have "set (ss_depends_on spec) \<subseteq> ss_key ` set steps"
      using v spec by (auto simp: dependency_errors_def specs comp_def filter_empty_conv)
    moreover have "case parse_step_due_rule (ss_due_rule spec) of
        Inl _ \<Rightarrow> False | Inr (Obligation_Due code) \<Rightarrow> code \<in> set known | Inr _ \<Rightarrow> True"
    proof (rule due_rule_accepted)
      show "problems_of (parse_step_due_rule (ss_due_rule spec)) = []"
        using e by (simp add: validate_step_Nil)
      show "(ss_key spec, spec) \<in> set (specs_by_key steps)" using spec by (simp add: specs)
      show "obligation_errors (specs_by_key steps) known = []" using v by simp
    qed
    ultimately show ?thesis
      using e unfolding step_ok_def validate_step_Nil by blast
  qed
  with v dist acyc show ?thesis by (simp add: list_all_iff)
qed

text \<open>Targets survive the round trip: the normalized scope a draft is stored with reads back as
  the same set of regimes and of service kinds the author wrote, an absent axis staying
  unrestricted.\<close>

theorem scope_round_trip:
  assumes "validate_applies_to raw = Inr stored"
  shows "set (at_regimes (parse_applies_to (Scope_Object stored))) = set (at_regimes (parse_applies_to raw)) \<and>
     set (at_service_kinds (parse_applies_to (Scope_Object stored))) =
       set (at_service_kinds (parse_applies_to raw))"
proof (cases raw)
  case (Scope_Object obj)
  then obtain regimes kinds where r: "validate_axis obj ''regimes'' REGIMES = Inr regimes"
    "validate_axis obj ''service_kinds'' SERVICE_KINDS = Inr kinds" "stored = regimes @ kinds"
    using assms by (auto simp: validate_applies_to_def split: if_splits sum.splits)
  have shape: "(xs = [] \<and> axis_get obj k = Axis_Null) \<or>
      (\<exists>values. axis_get obj k = Axis_List values \<and> set values \<subseteq> set permitted \<and>
         xs = [(k, Axis_List (sort (remdups values)))])"
    if "validate_axis obj k permitted = Inr xs" for k permitted xs
    using that by (auto simp: validate_axis_def split: raw_axis.splits if_splits)
  from shape[OF r(1)] shape[OF r(2)] show ?thesis
    by (auto simp: r(3) Scope_Object parse_applies_to_def parse_axis_def axis_get_def)
qed (use assms in \<open>auto simp: validate_applies_to_def parse_applies_to_def parse_axis_def axis_get_def\<close>)

section \<open>A concrete draft\<close>

definition demo_step :: "string \<Rightarrow> string \<Rightarrow> string list \<Rightarrow> (string \<times> json) list \<Rightarrow> step_spec" where
  "demo_step key kind deps rule =
     \<lparr>ss_key = key, ss_kind = kind, ss_label = ''Etapa'', ss_client_label = '''', ss_depends_on = deps,
      ss_owner_rule = ''team'', ss_due_rule = Some rule, ss_evidence_required = False,
      ss_client_visible = False, ss_is_enabled = True\<rparr>"

definition demo_steps :: "step_spec list" where
  "demo_steps =
     [demo_step ''das'' ''task'' [''coleta''] [(''kind'', JStr ''obligation_due''), (''obligation'', JStr ''DAS'')],
      demo_step ''coleta'' ''evidence_request'' []
        [(''kind'', JStr ''fixed_day''), (''day'', JInt 5), (''month_offset'', JInt 1)]]"

definition demo_scope :: raw_scope where
  "demo_scope = Scope_Object [(''regimes'', Axis_List [''simples'', ''mei'', ''mei''])]"

theorem publishable_draft_well_formed_witness:
  "demo_steps \<noteq> [] \<and> distinct (map ss_key demo_steps) \<and>
     list_all (step_ok demo_steps [''DAS'']) demo_steps \<and>
     acyclic (depends (step_edges demo_steps))"
proof (rule publishable_draft_well_formed)
  show "validate_draft demo_scope demo_steps [''DAS''] True =
      Inr [(''regimes'', Axis_List [''mei'', ''simples''])]"
    by code_simp
qed

theorem scope_round_trip_witness:
  "set (at_regimes (parse_applies_to (Scope_Object [(''regimes'', Axis_List [''mei'', ''simples''])]))) =
     set (at_regimes (parse_applies_to demo_scope)) \<and>
   set (at_service_kinds (parse_applies_to (Scope_Object [(''regimes'', Axis_List [''mei'', ''simples''])]))) =
     set (at_service_kinds (parse_applies_to demo_scope))"
proof (rule scope_round_trip)
  show "validate_applies_to demo_scope = Inr [(''regimes'', Axis_List [''mei'', ''simples''])]"
    by code_simp
qed

text \<open>
  The key pattern is read with a trailing end anchor, so a key that ends in a newline is taken for a
  well-formed one although the rule it states allows lower-case letters, digits and hyphens only.
\<close>

theorem key_pattern_admits_newline: "key_matches (''das'' @ [CHR 0x0A])"
  by code_simp

end
