(* ===== verification/Practice.thy ===== *)
theory Practice
  imports Provider_Model Reviewer_Grants Playbook_Rules
begin

text \<open>
  The tables of a firm's practice that cycles, playbooks and the obligation calendar share
  (\<^verbatim>\<open>apps/cycles/models.py\<close>, \<^verbatim>\<open>records.py\<close>, \<^verbatim>\<open>apps/clients/models/engagement.py\<close>,
  \<^verbatim>\<open>apps/obligations/models/operations.py\<close>) and the guards every service repeats inside its
  transaction: the tenant in context, the feature flag, the capability, the portfolio and the
  revision the caller read.
\<close>

section \<open>Rows\<close>

record engagement =
  en_id :: int
  en_tenant :: int
  en_client :: int
  en_service_kind :: string
  en_starts_on :: date
  en_ends_on :: "date option"
  en_responsible :: "int option"

record playbook =
  pb_id :: int
  pb_tenant :: int
  pb_key :: string
  pb_name :: string
  pb_is_system :: bool

datatype version_state = DRAFT | PUBLISHED | RETIRED

record playbook_version =
  pv_id :: int
  pv_tenant :: int
  pv_playbook :: int
  pv_number :: int
  pv_state :: version_state
  pv_published_at :: "int option"
  pv_published_by :: "int option"
  pv_applies_to :: raw_scope
  pv_version :: int

text \<open>A step row keeps every field of the spec it was written from, and its place.\<close>

record playbook_step =
  ps_tenant :: int
  ps_version :: int
  ps_position :: nat
  ps_spec :: step_spec

record obligation =
  ob_id :: int
  ob_tenant :: int
  ob_client :: int
  ob_type :: string
  ob_competence :: date
  ob_nominal :: date
  ob_resolved :: date
  ob_created_at :: int

record service_cycle =
  cy_id :: int
  cy_tenant :: int
  cy_client :: int
  cy_engagement :: int
  cy_playbook :: int
  cy_playbook_version :: int
  cy_tax_profile :: "int option"
  cy_period_start :: date
  cy_period_end :: date
  cy_state :: cycle_state
  cy_owner :: "int option"
  cy_version :: int

datatype task_state =
    TK_BLOCKED | TK_READY | TK_IN_PROGRESS | TK_SUBMITTED | TK_ACCEPTED | TK_WAIVED | TK_CANCELLED

record cycle_task =
  ct_id :: int
  ct_tenant :: int
  ct_client :: int
  ct_cycle :: int
  ct_step_key :: string
  ct_state :: task_state
  ct_owner :: "int option"
  ct_due_on :: "date option"
  ct_statutory_due_on :: "date option"
  ct_version :: int

record internal_note =
  nt_id :: int
  nt_cycle :: int
  nt_author :: int
  nt_body :: string

datatype aggregate = Cycle_Aggregate | Task_Aggregate | Note_Aggregate | Problem_Aggregate | Message_Aggregate | Proposal_Aggregate

record cycle_event =
  ce_cycle :: int
  ce_actor :: "int option"
  ce_type :: string
  ce_aggregate :: aggregate
  ce_aggregate_id :: int
  ce_aggregate_version :: int
  ce_payload :: "(string \<times> string) list"

text \<open>What the effect guards read: applied effects and sends that have started.\<close>

record action_execution =
  ax_cycle :: int
  ax_kind :: string

record outbound_message =
  om_cycle :: int
  om_proposal :: "int option"
  om_send_started :: "int option"

record practice =
  pr_authz :: authz_db
  pr_flags :: flag_scope
  pr_profiles :: "tax_profile list"
  pr_engagements :: "engagement list"
  pr_playbooks :: "playbook list"
  pr_versions :: "playbook_version list"
  pr_steps :: "playbook_step list"
  pr_obligation_types :: "string list"
  pr_obligations :: "obligation list"
  pr_cycles :: "service_cycle list"
  pr_tasks :: "cycle_task list"
  pr_notes :: "internal_note list"
  pr_cycle_events :: "cycle_event list"
  pr_executions :: "action_execution list"
  pr_messages :: "outbound_message list"
  pr_audit :: "(string \<times> int option \<times> int) list"
  pr_next :: int

section \<open>The guards of a service\<close>

definition current_tenant :: "authz_ctx \<Rightarrow> int res" where
  "current_tenant ctx = the_row (ax_tenant ctx) MissingTenantContext"

definition require_actor :: "authz_ctx \<Rightarrow> int \<Rightarrow> practice \<Rightarrow> account \<Rightarrow> string \<Rightarrow> unit res" where
  "require_actor ctx now s actor capability =
     res_bind (current_tenant ctx) (\<lambda>tid.
     res_bind (can ctx (pr_authz s) now (Account actor) capability None (Some tid)) (\<lambda>ok.
       require ok PermissionDenied))"

text \<open>
  The flag cache a question may fill is invisible (\<open>flag_cache_transparent\<close>), so the answer is
  taken and the cache is not threaded on.
\<close>

definition feature_on :: "authz_ctx \<Rightarrow> practice \<Rightarrow> string \<Rightarrow> bool res" where
  "feature_on ctx s flag =
     res_bind (current_tenant ctx) (\<lambda>tid.
     res_bind (tenant_has tid flag (pr_flags s)) (\<lambda>(on, _). Inr on))"

definition require_enabled :: "authz_ctx \<Rightarrow> practice \<Rightarrow> unit res" where
  "require_enabled ctx s =
     res_bind (feature_on ctx s ''cycles_r1'') (\<lambda>on. require on Http404)"

definition check_version :: "int \<Rightarrow> int \<Rightarrow> unit res" where
  "check_version actual expected = require (actual = expected) VersionConflict"

definition load_client :: "authz_ctx \<Rightarrow> int \<Rightarrow> practice \<Rightarrow> account \<Rightarrow> int \<Rightarrow> int \<Rightarrow> client res" where
  "load_client ctx now s actor tid cid =
     load_visible_client ctx (pr_authz s) now (Account actor) cid (Some tid)"

definition load_cycle :: "authz_ctx \<Rightarrow> int \<Rightarrow> practice \<Rightarrow> account \<Rightarrow> int \<Rightarrow> service_cycle res" where
  "load_cycle ctx now s actor cid =
     res_bind (require_enabled ctx s) (\<lambda>_.
     res_bind (the_row (find (\<lambda>c. cy_id c = cid) (scoped ctx cy_tenant (pr_cycles s))) Http404) (\<lambda>cycle.
     res_bind (current_tenant ctx) (\<lambda>tid.
     res_bind (load_client ctx now s actor tid (cy_client cycle)) (\<lambda>_. Inr cycle))))"

definition emit ::
  "service_cycle \<Rightarrow> int option \<Rightarrow> string \<Rightarrow> aggregate \<Rightarrow> int \<Rightarrow> int \<Rightarrow> (string \<times> string) list \<Rightarrow>
   practice \<Rightarrow> practice" where
  "emit cycle actor event_type agg agg_id agg_version payload s =
     s\<lparr>pr_cycle_events := pr_cycle_events s @
        [\<lparr>ce_cycle = cy_id cycle, ce_actor = actor, ce_type = event_type, ce_aggregate = agg,
          ce_aggregate_id = agg_id, ce_aggregate_version = agg_version, ce_payload = payload\<rparr>]\<rparr>"

text \<open>A private note, numbered from the state's counter.\<close>

definition write_note :: "service_cycle \<Rightarrow> int \<Rightarrow> string \<Rightarrow> practice \<Rightarrow> practice" where
  "write_note cycle author body s =
     s\<lparr>pr_notes := pr_notes s @
        [\<lparr>nt_id = pr_next s, nt_cycle = cy_id cycle, nt_author = author, nt_body = strip body\<rparr>],
       pr_next := pr_next s + 1\<rparr>"

definition save_cycle :: "service_cycle \<Rightarrow> practice \<Rightarrow> practice" where
  "save_cycle cycle s = s\<lparr>pr_cycles := row_put cy_id cycle (pr_cycles s)\<rparr>"

definition save_task :: "cycle_task \<Rightarrow> practice \<Rightarrow> practice" where
  "save_task task s = s\<lparr>pr_tasks := row_put ct_id task (pr_tasks s)\<rparr>"

section \<open>The pinned graph\<close>

text \<open>The enabled steps of a version, in the order of their position.\<close>

definition version_steps :: "practice \<Rightarrow> int \<Rightarrow> step_spec list" where
  "version_steps s vid =
     map ps_spec (sort_key ps_position (filter (\<lambda>st. ps_version st = vid) (pr_steps s)))"

definition enabled_steps :: "practice \<Rightarrow> int \<Rightarrow> step_spec list" where
  "enabled_steps s vid = filter ss_is_enabled (version_steps s vid)"

definition tasks_of :: "practice \<Rightarrow> int \<Rightarrow> cycle_task list" where
  "tasks_of s cid = filter (\<lambda>t. ct_cycle t = cid) (pr_tasks s)"

definition task_of :: "practice \<Rightarrow> int \<Rightarrow> string \<Rightarrow> cycle_task option" where
  "task_of s cid key = find (\<lambda>t. ct_step_key t = key) (tasks_of s cid)"

end
