(* ===== verification/Service_Cycles.thy ===== *)
theory Service_Cycles
  imports Practice
begin

text \<open>
  The client-period cycle, \<^verbatim>\<open>apps/cycles/services/cycle.py\<close>: opening a cycle from a published
  playbook, moving the cycle and its tasks, notes, and the migration of an open pin.  Every
  command is one transaction over the practice; its row locks make the commands on one cycle
  sequential.
\<close>

section \<open>States and transitions\<close>

definition CYCLE_STATES :: "cycle_state list" where
  "CYCLE_STATES =
     [CY_PLANNED, CY_ACTIVE, CY_WAITING, CY_REVIEW, CY_APPROVAL, CY_EXECUTION, CY_COMPLETED,
      CY_BLOCKED, CY_WITH_PENDING, CY_CANCELLED]"

definition OPEN_STATES :: "cycle_state list" where
  "OPEN_STATES = filter (\<lambda>c. c \<notin> {CY_COMPLETED, CY_WITH_PENDING, CY_CANCELLED}) CYCLE_STATES"

fun NORMAL_TRANSITIONS :: "cycle_state \<Rightarrow> cycle_state list" where
  "NORMAL_TRANSITIONS CY_PLANNED = [CY_ACTIVE]"
| "NORMAL_TRANSITIONS CY_ACTIVE = [CY_WAITING, CY_REVIEW]"
| "NORMAL_TRANSITIONS CY_WAITING = [CY_ACTIVE]"
| "NORMAL_TRANSITIONS CY_REVIEW = [CY_ACTIVE, CY_APPROVAL]"
| "NORMAL_TRANSITIONS CY_APPROVAL = [CY_REVIEW, CY_EXECUTION]"
| "NORMAL_TRANSITIONS CY_EXECUTION = [CY_COMPLETED]"
| "NORMAL_TRANSITIONS CY_BLOCKED = [CY_ACTIVE]"
| "NORMAL_TRANSITIONS _ = []"

definition TRANSITIONS :: "cycle_state \<Rightarrow> cycle_state list" where
  "TRANSITIONS st =
     NORMAL_TRANSITIONS st @
     (if st \<in> set OPEN_STATES
      then filter (\<lambda>x. x \<noteq> st) [CY_BLOCKED, CY_WITH_PENDING, CY_CANCELLED] else [])"

fun TASK_TRANSITIONS :: "task_state \<Rightarrow> task_state list" where
  "TASK_TRANSITIONS TK_READY = [TK_IN_PROGRESS, TK_WAIVED, TK_CANCELLED]"
| "TASK_TRANSITIONS TK_BLOCKED = [TK_WAIVED, TK_CANCELLED]"
| "TASK_TRANSITIONS TK_IN_PROGRESS = [TK_SUBMITTED, TK_WAIVED, TK_CANCELLED]"
| "TASK_TRANSITIONS TK_SUBMITTED = [TK_ACCEPTED, TK_IN_PROGRESS]"
| "TASK_TRANSITIONS _ = []"

definition CYCLES_OPERATE :: string where "CYCLES_OPERATE = ''cycles.operate''"
definition CYCLES_REVIEW :: string where "CYCLES_REVIEW = ''cycles.review''"
definition CYCLES_COMPLETE :: string where "CYCLES_COMPLETE = ''cycles.complete''"

definition NOTE_MAX_LENGTH :: nat where "NOTE_MAX_LENGTH = 10000"

fun state_slug :: "cycle_state \<Rightarrow> string" where
  "state_slug CY_PLANNED = ''planejado''"
| "state_slug CY_ACTIVE = ''em_andamento''"
| "state_slug CY_WAITING = ''aguardando_cliente''"
| "state_slug CY_REVIEW = ''em_revisao''"
| "state_slug CY_APPROVAL = ''aguardando_aprovacao''"
| "state_slug CY_EXECUTION = ''em_execucao''"
| "state_slug CY_COMPLETED = ''concluido''"
| "state_slug CY_BLOCKED = ''bloqueado''"
| "state_slug CY_WITH_PENDING = ''encerrado_com_pendencias''"
| "state_slug CY_CANCELLED = ''cancelado''"

fun task_slug :: "task_state \<Rightarrow> string" where
  "task_slug TK_BLOCKED = ''blocked''"
| "task_slug TK_READY = ''ready''"
| "task_slug TK_IN_PROGRESS = ''in_progress''"
| "task_slug TK_SUBMITTED = ''submitted''"
| "task_slug TK_ACCEPTED = ''accepted''"
| "task_slug TK_WAIVED = ''waived''"
| "task_slug TK_CANCELLED = ''cancelled''"

fun regime_slug :: "tax_regime \<Rightarrow> string" where
  "regime_slug MEI = ''mei''"
| "regime_slug SIMPLES = ''simples''"
| "regime_slug PRESUMIDO = ''presumido''"
| "regime_slug REAL = ''real''"
| "regime_slug ISENTO = ''isento''"
| "regime_slug UNKNOWN = ''unknown''"

record cycle_ref =
  cf_id :: int
  cf_version :: int
  cf_state :: cycle_state
  cf_created :: bool

definition ref_of :: "service_cycle \<Rightarrow> bool \<Rightarrow> cycle_ref" where
  "ref_of c created =
     \<lparr>cf_id = cy_id c, cf_version = cy_version c, cf_state = cy_state c, cf_created = created\<rparr>"

section \<open>Opening a cycle\<close>

definition period_end :: "date \<Rightarrow> date res" where
  "period_end period =
     (if d_day period \<noteq> 1 then Inl (ValidationError ''competencia'')
      else res_bind (monthrange_days (d_year period) (d_month period)) (\<lambda>n.
             mk_date (d_year period) (d_month period) n))"

text \<open>A member the stored rule lacks is a KeyError, one of another type a TypeError.\<close>

definition rule_int :: "(string \<times> json) list \<Rightarrow> string \<Rightarrow> int res" where
  "rule_int rule k =
     res_bind (the_row (map_of rule k) KeyError) (\<lambda>v. the_row (json_int v) TypeError)"

definition due_of :: "authz_ctx \<Rightarrow> practice \<Rightarrow> step_spec \<Rightarrow> service_cycle \<Rightarrow> (date option \<times> date option) res" where
  "due_of ctx s step cycle =
     res_bind (the_row (ss_due_rule step) TypeError) (\<lambda>rule.
     res_bind (the_row (map_of rule ''kind'') KeyError) (\<lambda>kind.
       if kind = JStr ''period_end_offset'' then
         res_bind (rule_int rule ''days'') (\<lambda>days.
         res_bind (add_days (cy_period_end cycle) days) (\<lambda>d. Inr (Some d, None)))
       else if kind = JStr ''fixed_day'' then
         res_bind (rule_int rule ''month_offset'') (\<lambda>offset.
         (let month = d_month (cy_period_start cycle) - 1 + offset in
          res_bind (rule_int rule ''day'') (\<lambda>day.
          res_bind (mk_date (d_year (cy_period_start cycle) + month div 12) (month mod 12 + 1) day)
            (\<lambda>d. Inr (Some d, None)))))
       else
         res_bind (the_row (map_of rule ''obligation'') KeyError) (\<lambda>code.
         (let statutory =
            (case find (\<lambda>ob. ob_client ob = cy_client cycle \<and> ob_competence ob = cy_period_start cycle \<and>
                            JStr (ob_type ob) = code) (scoped ctx ob_tenant (pr_obligations s)) of
               None \<Rightarrow> None | Some ob \<Rightarrow> Some (ob_resolved ob))
          in Inr (statutory, statutory)))))"

definition primary_assignee :: "authz_ctx \<Rightarrow> practice \<Rightarrow> int \<Rightarrow> int option" where
  "primary_assignee ctx s cid =
     (case find (\<lambda>a. as_client a = cid \<and> as_role a = PRIMARY)
             (scoped ctx as_tenant (ad_assignments (pr_authz s))) of
        None \<Rightarrow> None | Some a \<Rightarrow> Some (as_user a))"

definition step_owner :: "step_spec \<Rightarrow> service_cycle \<Rightarrow> int option \<Rightarrow> int option" where
  "step_owner step cycle primary =
     (if ss_owner_rule step = ''engagement_responsible'' then cy_owner cycle
      else if ss_owner_rule step = ''primary_assignee'' then primary else None)"

definition insert_task :: "cycle_task \<Rightarrow> practice \<Rightarrow> practice res" where
  "insert_task t s =
     (if list_ex (\<lambda>x. ct_cycle x = ct_cycle t \<and> ct_step_key x = ct_step_key t) (pr_tasks s)
      then Inl IntegrityError
      else Inr (s\<lparr>pr_tasks := pr_tasks s @ [t], pr_next := pr_next s + 1\<rparr>))"

definition new_task_state :: "string list \<Rightarrow> string list \<Rightarrow> step_spec \<Rightarrow> task_state" where
  "new_task_state enabled resolved step =
     (if \<exists>k \<in> set (ss_depends_on step). k \<in> set enabled \<and> k \<notin> set resolved then TK_BLOCKED else TK_READY)"

fun create_tasks ::
  "authz_ctx \<Rightarrow> service_cycle \<Rightarrow> int option \<Rightarrow> string list \<Rightarrow> string list \<Rightarrow> step_spec list \<Rightarrow>
   practice \<Rightarrow> practice res" where
  "create_tasks ctx cycle primary enabled resolved [] s = Inr s"
| "create_tasks ctx cycle primary enabled resolved (step # steps) s =
     res_bind (due_of ctx s step cycle) (\<lambda>(due, statutory).
     res_bind (insert_task
         \<lparr>ct_id = pr_next s, ct_tenant = cy_tenant cycle, ct_client = cy_client cycle,
          ct_cycle = cy_id cycle, ct_step_key = ss_key step,
          ct_state = new_task_state enabled resolved step, ct_owner = step_owner step cycle primary,
          ct_due_on = due, ct_statutory_due_on = statutory, ct_version = 1\<rparr> s) (\<lambda>s1.
       create_tasks ctx cycle primary enabled resolved steps s1))"

definition instantiate ::
  "authz_ctx \<Rightarrow> service_cycle \<Rightarrow> string list option \<Rightarrow> string list \<Rightarrow> practice \<Rightarrow> practice res" where
  "instantiate ctx cycle only resolved s =
     (let steps = enabled_steps s (cy_playbook_version cycle);
          primary = primary_assignee ctx s (cy_client cycle);
          chosen = filter (\<lambda>st. case only of None \<Rightarrow> True | Some keys \<Rightarrow> ss_key st \<in> set keys) steps
      in create_tasks ctx cycle primary (map ss_key steps) resolved chosen s)"

text \<open>The trusted scheduler has no account; a person is resolved through the portfolio.\<close>

definition lock_engagement :: "authz_ctx \<Rightarrow> int \<Rightarrow> practice \<Rightarrow> account option \<Rightarrow> int \<Rightarrow> (engagement \<times> client) res" where
  "lock_engagement ctx now s actor eid =
     res_bind (the_row (find (\<lambda>e. en_id e = eid) (scoped ctx en_tenant (pr_engagements s))) Http404) (\<lambda>e.
     res_bind (case actor of
         None \<Rightarrow> the_row (find (\<lambda>c. c_id c = en_client e)
                          (scoped ctx c_tenant (ad_clients (pr_authz s)))) DoesNotExist
       | Some u \<Rightarrow>
           res_bind (current_tenant ctx) (\<lambda>tid.
           res_bind (load_client ctx now s u tid (en_client e)) (\<lambda>c.
           res_bind (require_actor ctx now s u CYCLES_OPERATE) (\<lambda>_. Inr c)))) (\<lambda>c.
       Inr (e, c)))"

definition cycle_for ::
  "authz_ctx \<Rightarrow> practice \<Rightarrow> engagement \<Rightarrow> playbook_version \<Rightarrow> date \<Rightarrow> service_cycle option" where
  "cycle_for ctx s e v period =
     find (\<lambda>c. cy_client c = en_client e \<and> cy_engagement c = en_id e \<and>
               cy_playbook c = pv_playbook v \<and> cy_period_start c = period)
       (scoped ctx cy_tenant (pr_cycles s))"

definition eligible ::
  "client \<Rightarrow> engagement \<Rightarrow> playbook_version \<Rightarrow> tax_profile option \<Rightarrow> date \<Rightarrow> bool" where
  "eligible c e v profile period =
     (let scope = parse_applies_to (pv_applies_to v);
          regime = (case profile of None \<Rightarrow> UNKNOWN | Some p \<Rightarrow> tp_regime p)
      in c_status c = CL_ACTIVE \<and> en_starts_on e \<le> period \<and>
         (case en_ends_on e of None \<Rightarrow> True | Some d \<Rightarrow> period < d) \<and>
         (at_service_kinds scope = [] \<or> en_service_kind e \<in> set (at_service_kinds scope)) \<and>
         (at_regimes scope = [] \<or> regime_slug regime \<in> set (at_regimes scope)))"

text \<open>
  \<open>digest\<close> is the SHA-256 of the caller's key, kept in the event for correlation only.  The row is
  read under the lock of its engagement, so the insert cannot lose the natural-key race the code
  also handles.
\<close>

definition open_cycle ::
  "(string \<Rightarrow> string) \<Rightarrow> authz_ctx \<Rightarrow> int \<Rightarrow> account option \<Rightarrow> int \<Rightarrow> date \<Rightarrow> int \<Rightarrow> string \<Rightarrow>
   (practice, cycle_ref) tx" where
  "open_cycle digest ctx now actor eid period vid key s =
     res_bind (require_enabled ctx s) (\<lambda>_.
     res_bind (lock_engagement ctx now s actor eid) (\<lambda>(e, c).
     res_bind (the_row (find (\<lambda>v. pv_id v = vid) (scoped ctx pv_tenant (pr_versions s))) Http404) (\<lambda>v.
       case cycle_for ctx s e v period of
         Some existing \<Rightarrow> Inr (ref_of existing False, s)
       | None \<Rightarrow>
           res_bind (period_end period) (\<lambda>last_day.
           if pv_state v \<noteq> PUBLISHED then Inl Http404
           else (let profile = claim_at (filter (\<lambda>p. tp_client p = c_id c)
                                 (scoped ctx tp_tenant (pr_profiles s))) period in
             if \<not> eligible c e v profile period then Inl (ValidationError ''elegibilidade'')
             else res_bind (current_tenant ctx) (\<lambda>tid.
               (let cycle = \<lparr>cy_id = pr_next s, cy_tenant = tid, cy_client = en_client e,
                      cy_engagement = en_id e, cy_playbook = pv_playbook v,
                      cy_playbook_version = pv_id v,
                      cy_tax_profile = (case profile of None \<Rightarrow> None | Some p \<Rightarrow> Some (tp_id p)),
                      cy_period_start = period, cy_period_end = last_day, cy_state = CY_PLANNED,
                      cy_owner = en_responsible e, cy_version = 1\<rparr>;
                    s1 = s\<lparr>pr_cycles := pr_cycles s @ [cycle], pr_next := pr_next s + 1\<rparr>
                in res_bind (instantiate ctx cycle None [] s1) (\<lambda>s2.
                     Inr (ref_of cycle True,
                          emit cycle (case actor of None \<Rightarrow> None | Some u \<Rightarrow> Some (u_id u)) ''cycle.opened''
                            Cycle_Aggregate (cy_id cycle) (cy_version cycle)
                            [(''playbook_version_id'', str_int (pv_id v)),
                             (''idempotency_hash'', digest key)] s2)))))))))"

section \<open>Moving a cycle\<close>

text \<open>\<^verbatim>\<open>effects_started\<close> of \<^verbatim>\<open>apps/cycles/effects/guards.py\<close>, the registered effect guard.\<close>

definition effects_started :: "practice \<Rightarrow> service_cycle \<Rightarrow> bool" where
  "effects_started s cycle =
     (list_ex (\<lambda>x. ax_cycle x = cy_id cycle \<and> ax_kind x \<noteq> ''email_notice'') (pr_executions s) \<or>
      list_ex (\<lambda>m. om_cycle m = cy_id cycle \<and> om_proposal m \<noteq> None \<and> om_send_started m \<noteq> None)
        (pr_messages s))"

definition transition_capability :: "cycle_state \<Rightarrow> string" where
  "transition_capability to_state =
     (if to_state = CY_COMPLETED \<or> to_state = CY_WITH_PENDING then CYCLES_COMPLETE
      else if to_state = CY_REVIEW \<or> to_state = CY_APPROVAL then CYCLES_REVIEW
      else CYCLES_OPERATE)"

text \<open>
  \<open>None\<close> and a blank text are both no reason.  The completion checklist the code consults for
  \<^verbatim>\<open>COMPLETED\<close> lies behind the refusal of every terminal state, so it is never reached here.
\<close>

definition given_reason :: "string option \<Rightarrow> string option" where
  "given_reason r = (case r of None \<Rightarrow> None | Some t \<Rightarrow> if strip t = [] then None else Some t)"

definition transition_cycle ::
  "authz_ctx \<Rightarrow> int \<Rightarrow> account \<Rightarrow> int \<Rightarrow> cycle_state \<Rightarrow> int \<Rightarrow> string option \<Rightarrow> (practice, cycle_ref) tx" where
  "transition_cycle ctx now actor cid to_state expected reason s =
     res_bind (load_cycle ctx now s actor cid) (\<lambda>cycle.
     res_bind (check_version (cy_version cycle) expected) (\<lambda>_.
     res_bind (require_actor ctx now s actor (transition_capability to_state)) (\<lambda>_.
     if to_state = CY_COMPLETED \<or> to_state = CY_WITH_PENDING then Inl IllegalTransition
     else if to_state \<notin> set (TRANSITIONS (cy_state cycle)) then Inl IllegalTransition
     else if to_state = CY_BLOCKED \<and> given_reason reason = None then Inl IllegalTransition
     else if to_state = CY_CANCELLED \<and> effects_started s cycle then Inl IllegalTransition
     else
       (let moved = cycle\<lparr>cy_state := to_state, cy_version := cy_version cycle + 1\<rparr>;
            s1 = save_cycle moved s;
            s2 = (case given_reason reason of
                    None \<Rightarrow> s1 | Some r \<Rightarrow> write_note moved (u_id actor) r s1)
        in Inr (ref_of moved False,
                emit moved (Some (u_id actor)) ''cycle.transitioned'' Cycle_Aggregate (cy_id moved)
                  (cy_version moved)
                  [(''from'', state_slug (cy_state cycle)), (''to'', state_slug to_state)] s2)))))"

section \<open>Moving a task\<close>

definition resolved_state :: "task_state \<Rightarrow> bool" where
  "resolved_state st = (st = TK_ACCEPTED \<or> st = TK_WAIVED)"

text \<open>
  The release pass: the tasks are read once after the move, and each enabled step whose task is
  blocked and whose dependencies are all resolved becomes ready.  A step without a task is a
  KeyError.
\<close>

definition released :: "cycle_task list \<Rightarrow> step_spec \<Rightarrow> cycle_task \<Rightarrow> bool" where
  "released tasks step node =
     (ct_state node = TK_BLOCKED \<and>
      list_all (\<lambda>k. case find (\<lambda>t. ct_step_key t = k) tasks of
                     None \<Rightarrow> True | Some d \<Rightarrow> resolved_state (ct_state d)) (ss_depends_on step))"

fun release_pass ::
  "service_cycle \<Rightarrow> int \<Rightarrow> cycle_task list \<Rightarrow> step_spec list \<Rightarrow> practice \<Rightarrow> practice res" where
  "release_pass cycle who tasks [] s = Inr s"
| "release_pass cycle who tasks (step # steps) s =
     res_bind (the_row (find (\<lambda>t. ct_step_key t = ss_key step) tasks) KeyError) (\<lambda>node.
       if released tasks step node then
         (let node' = node\<lparr>ct_state := TK_READY, ct_version := ct_version node + 1\<rparr>
          in release_pass cycle who (row_put ct_id node' tasks) steps
               (emit cycle (Some who) ''task.ready'' Task_Aggregate (ct_id node') (ct_version node') []
                 (save_task node' s)))
       else release_pass cycle who tasks steps s)"

definition task_capability :: "task_state \<Rightarrow> string" where
  "task_capability to_state =
     (if to_state = TK_ACCEPTED \<or> to_state = TK_WAIVED then CYCLES_REVIEW else CYCLES_OPERATE)"

definition transition_task ::
  "authz_ctx \<Rightarrow> int \<Rightarrow> account \<Rightarrow> int \<Rightarrow> task_state \<Rightarrow> int \<Rightarrow> string \<Rightarrow> (practice, cycle_task) tx" where
  "transition_task ctx now actor tid to_state expected reason s =
     res_bind (the_row (find (\<lambda>t. ct_id t = tid) (scoped ctx ct_tenant (pr_tasks s))) Http404) (\<lambda>task.
     res_bind (load_cycle ctx now s actor (ct_cycle task)) (\<lambda>cycle.
     res_bind (check_version (ct_version task) expected) (\<lambda>_.
     res_bind (require_actor ctx now s actor (task_capability to_state)) (\<lambda>_.
     if cy_state cycle \<notin> set OPEN_STATES \<or> to_state \<notin> set (TASK_TRANSITIONS (ct_state task))
     then Inl IllegalTransition
     else if to_state = TK_WAIVED \<and> strip reason = [] then Inl IllegalTransition
     else
       (let moved = task\<lparr>ct_state := to_state, ct_version := ct_version task + 1\<rparr>;
            s1 = save_task moved s;
            s2 = (if strip reason = [] then s1 else write_note cycle (u_id actor) reason s1);
            s3 = emit cycle (Some (u_id actor)) ''task.transitioned'' Task_Aggregate (ct_id moved)
                   (ct_version moved) [(''to'', task_slug to_state)] s2
        in res_bind (release_pass cycle (u_id actor) (tasks_of s3 (cy_id cycle))
                       (enabled_steps s3 (cy_playbook_version cycle)) s3) (\<lambda>s4.
             Inr (moved, s4)))))))"

section \<open>Migrating an open pin\<close>

definition same_meaning :: "step_spec \<Rightarrow> step_spec \<Rightarrow> bool" where
  "same_meaning a b =
     (ss_kind a = ss_kind b \<and> ss_label a = ss_label b \<and> ss_client_label a = ss_client_label b \<and>
      ss_depends_on a = ss_depends_on b \<and> ss_owner_rule a = ss_owner_rule b \<and>
      ss_due_rule a = ss_due_rule b \<and> ss_evidence_required a = ss_evidence_required b \<and>
      ss_client_visible a = ss_client_visible b)"

definition step_by_key :: "step_spec list \<Rightarrow> string \<Rightarrow> step_spec option" where
  "step_by_key steps key = find (\<lambda>st. ss_key st = key) steps"

definition not_started :: "task_state \<Rightarrow> bool" where
  "not_started st = (st = TK_READY \<or> st = TK_BLOCKED)"

definition migrates :: "step_spec list \<Rightarrow> step_spec list \<Rightarrow> cycle_task \<Rightarrow> bool" where
  "migrates previous future t =
     (case (step_by_key previous (ct_step_key t), step_by_key future (ct_step_key t)) of
        (Some before, Some after) \<Rightarrow> not_started (ct_state t) \<or> same_meaning before after
      | _ \<Rightarrow> False)"

text \<open>The unstarted tasks take their due dates, owner and readiness from the target version.\<close>

fun refresh_tasks ::
  "authz_ctx \<Rightarrow> service_cycle \<Rightarrow> int option \<Rightarrow> step_spec list \<Rightarrow> string list \<Rightarrow> cycle_task list \<Rightarrow>
   practice \<Rightarrow> practice res" where
  "refresh_tasks ctx cycle primary future completed [] s = Inr s"
| "refresh_tasks ctx cycle primary future completed (t # ts) s =
     (if \<not> not_started (ct_state t) then refresh_tasks ctx cycle primary future completed ts s
      else
        res_bind (the_row (step_by_key future (ct_step_key t)) KeyError) (\<lambda>step.
        res_bind (due_of ctx s step cycle) (\<lambda>(due, statutory).
          refresh_tasks ctx cycle primary future completed ts
            (save_task (t\<lparr>ct_due_on := due, ct_statutory_due_on := statutory,
               ct_state := new_task_state (map ss_key future) completed step,
               ct_owner := step_owner step cycle primary,
               ct_version := ct_version t + 1\<rparr>) s))))"

definition migration_target :: "practice \<Rightarrow> service_cycle \<Rightarrow> playbook_version option \<Rightarrow> playbook_version res" where
  "migration_target s cycle target =
     (if cy_state cycle \<notin> set OPEN_STATES then Inl IllegalTransition
      else res_bind (the_row target IllegalTransition) (\<lambda>v.
        if pv_state v \<noteq> PUBLISHED \<or> pv_playbook v \<noteq> cy_playbook cycle then Inl IllegalTransition
        else res_bind (the_row (find (\<lambda>p. pv_id p = cy_playbook_version cycle) (pr_versions s)) DoesNotExist)
          (\<lambda>pinned. if pv_number v \<le> pv_number pinned then Inl IllegalTransition else Inr v)))"

definition migrate_open_cycle ::
  "authz_ctx \<Rightarrow> int \<Rightarrow> account \<Rightarrow> int \<Rightarrow> int \<Rightarrow> int \<Rightarrow> (practice, cycle_ref) tx" where
  "migrate_open_cycle ctx now actor cid target_id expected s =
     res_bind (feature_on ctx s ''bulk_r1'') (\<lambda>on.
     res_bind (require on Http404) (\<lambda>_.
     res_bind (load_cycle ctx now s actor cid) (\<lambda>cycle.
     res_bind (check_version (cy_version cycle) expected) (\<lambda>_.
     res_bind (require_actor ctx now s actor ''bulk.run'') (\<lambda>_.
     res_bind (require_actor ctx now s actor CYCLES_OPERATE) (\<lambda>_.
     res_bind (migration_target s cycle
         (find (\<lambda>v. pv_id v = target_id) (scoped ctx pv_tenant (pr_versions s)))) (\<lambda>target.
       (let tasks = sort_key ct_id (tasks_of s (cy_id cycle));
            previous = enabled_steps s (cy_playbook_version cycle);
            future = enabled_steps s (pv_id target);
            completed = map ct_step_key (filter (\<lambda>t. resolved_state (ct_state t)) tasks);
            moved = cycle\<lparr>cy_playbook_version := pv_id target, cy_version := cy_version cycle + 1\<rparr>;
            fresh = filter (\<lambda>k. k \<notin> ct_step_key ` set tasks) (map ss_key future);
            primary = primary_assignee ctx s (cy_client cycle)
        in if \<not> list_all (migrates previous future) tasks then Inl IllegalTransition
           else
             res_bind (instantiate ctx moved (Some fresh) completed (save_cycle moved s)) (\<lambda>s2.
             res_bind (refresh_tasks ctx moved primary future completed tasks s2) (\<lambda>s3.
               Inr (ref_of moved False,
                    emit moved (Some (u_id actor)) ''cycle.playbook_migrated'' Cycle_Aggregate
                      (cy_id moved) (cy_version moved)
                      [(''from'', str_int (cy_playbook_version cycle)),
                       (''to'', str_int (pv_id target))] s3)))))))))))"

section \<open>Notes\<close>

definition add_note :: "authz_ctx \<Rightarrow> int \<Rightarrow> account \<Rightarrow> int \<Rightarrow> string \<Rightarrow> int \<Rightarrow> (practice, unit) tx" where
  "add_note ctx now actor cid body expected s =
     (if strip body = [] \<or> NOTE_MAX_LENGTH < length body then Inl (ValidationError ''nota'')
      else
        res_bind (load_cycle ctx now s actor cid) (\<lambda>cycle.
        res_bind (check_version (cy_version cycle) expected) (\<lambda>_.
        res_bind (require_actor ctx now s actor CYCLES_OPERATE) (\<lambda>_.
          (let s1 = write_note cycle (u_id actor) body s;
               bumped = cycle\<lparr>cy_version := cy_version cycle + 1\<rparr>
           in Inr ((), emit bumped (Some (u_id actor)) ''note.added'' Note_Aggregate (pr_next s) 1 []
                     (save_cycle bumped s1)))))))"

end
