(* ===== verification/Cycle_Guarantees.thy ===== *)
theory Cycle_Guarantees
  imports Service_Cycles
begin

text \<open>
  What the cycle commands keep: every cycle has exactly one task per enabled step of its pinned
  version, a ready task has no unresolved dependency and a blocked one has.  The invariant
  survives opening, moving, noting and migrating in any order, so work starts only behind
  finished work, and an acyclic graph never deadlocks.
\<close>

section \<open>The invariant\<close>

definition resolved_at :: "cycle_task list \<Rightarrow> string \<Rightarrow> bool" where
  "resolved_at tasks k =
     (case find (\<lambda>t. ct_step_key t = k) tasks of None \<Rightarrow> True | Some d \<Rightarrow> resolved_state (ct_state d))"

definition deps_resolved :: "cycle_task list \<Rightarrow> step_spec \<Rightarrow> bool" where
  "deps_resolved tasks step = list_all (resolved_at tasks) (ss_depends_on step)"

definition graph_ok :: "step_spec list \<Rightarrow> cycle_task list \<Rightarrow> bool" where
  "graph_ok steps tasks =
     (distinct (map ct_step_key tasks) \<and> set (map ct_step_key tasks) = set (map ss_key steps) \<and>
      (\<forall>st \<in> set steps. \<forall>t \<in> set tasks. ct_step_key t = ss_key st \<longrightarrow>
         (ct_state t = TK_READY \<longrightarrow> deps_resolved tasks st) \<and>
         (ct_state t = TK_BLOCKED \<longrightarrow> \<not> deps_resolved tasks st)))"

definition rows_ok :: "practice \<Rightarrow> bool" where
  "rows_ok s =
     (distinct (map ct_id (pr_tasks s)) \<and> distinct (map cy_id (pr_cycles s)) \<and>
      distinct (map (\<lambda>st. (ps_version st, ss_key (ps_spec st))) (pr_steps s)) \<and>
      (\<forall>t \<in> set (pr_tasks s). ct_id t < pr_next s \<and> ct_cycle t < pr_next s) \<and>
      (\<forall>c \<in> set (pr_cycles s). cy_id c < pr_next s))"

definition cycles_sound :: "practice \<Rightarrow> bool" where
  "cycles_sound s =
     (rows_ok s \<and>
      (\<forall>c \<in> set (pr_cycles s). graph_ok (enabled_steps s (cy_playbook_version c)) (tasks_of s (cy_id c))))"

section \<open>Resolution of keys\<close>

lemma find_key: "distinct (map f xs) \<Longrightarrow> x \<in> set xs \<Longrightarrow> find (\<lambda>y. f y = f x) xs = Some x"
  using row_get_unique[of f xs x] by (simp add: row_get_def)

lemma resolved_at_iff:
  assumes "distinct (map ct_step_key tasks)"
  shows "resolved_at tasks k \<longleftrightarrow>
    (\<forall>t \<in> set tasks. ct_step_key t = k \<longrightarrow> resolved_state (ct_state t))"
proof (cases "find (\<lambda>t. ct_step_key t = k) tasks")
  case None
  with find_None_iff[of "\<lambda>t. ct_step_key t = k" tasks] show ?thesis by (auto simp: resolved_at_def)
next
  case (Some d)
  then have d: "d \<in> set tasks" "ct_step_key d = k" by (auto dest: find_Some_iff_first)
  have "t = d" if "t \<in> set tasks" "ct_step_key t = k" for t
    using find_key[OF assms that(1)] that(2) Some by simp
  moreover have "resolved_at tasks k \<longleftrightarrow> resolved_state (ct_state d)" by (simp add: resolved_at_def Some)
  ultimately show ?thesis using d by metis
qed

lemma released_iff: "released tasks step t \<longleftrightarrow> ct_state t = TK_BLOCKED \<and> deps_resolved tasks step"
  by (simp add: released_def deps_resolved_def resolved_at_def[abs_def])

lemma enabled_keys_distinct:
  assumes "rows_ok s"
  shows "distinct (map ss_key (enabled_steps s v))"
proof -
  have "distinct (map (\<lambda>st. (ps_version st, ss_key (ps_spec st))) (pr_steps s))"
    using assms by (simp add: rows_ok_def)
  then have "inj_on (\<lambda>st. (ps_version st, ss_key (ps_spec st))) (set (pr_steps s))" "distinct (pr_steps s)"
    by (simp_all add: distinct_map)
  then have "distinct (map (ss_key \<circ> ps_spec) (sort_key ps_position (filter (\<lambda>st. ps_version st = v) (pr_steps s))))"
    by (auto simp: distinct_map inj_on_def)
  then have "distinct (map ss_key (version_steps s v))" by (simp add: version_steps_def)
  then show ?thesis by (simp add: enabled_steps_def distinct_map_filter)
qed

text \<open>Tasks whose unstarted members were computed from the resolved keys.\<close>

lemma graph_ok_computed:
  assumes "distinct (map ct_step_key tasks)" "set (map ct_step_key tasks) = set (map ss_key steps)"
    and "distinct (map ss_key steps)"
    and fin: "\<And>t. t \<in> set tasks \<Longrightarrow> resolved_state (ct_state t) \<longleftrightarrow> ct_step_key t \<in> set completed"
    and fresh: "\<And>t st. t \<in> set tasks \<Longrightarrow> st \<in> set steps \<Longrightarrow> ct_step_key t = ss_key st \<Longrightarrow>
      not_started (ct_state t) \<Longrightarrow> ct_state t = new_task_state (map ss_key steps) completed st"
  shows "graph_ok steps tasks"
proof -
  have res: "resolved_at tasks k \<longleftrightarrow> (k \<in> set (map ss_key steps) \<longrightarrow> k \<in> set completed)" for k
  proof -
    have "k \<in> set (map ss_key steps) \<longleftrightarrow> (\<exists>t \<in> set tasks. ct_step_key t = k)"
      using assms(2) by (metis imageE image_eqI set_map)
    moreover have "resolved_at tasks k \<longleftrightarrow> (\<forall>t \<in> set tasks. ct_step_key t = k \<longrightarrow> k \<in> set completed)"
      using fin by (auto simp: resolved_at_iff[OF assms(1)])
    ultimately show ?thesis by metis
  qed
  have deps: "deps_resolved tasks st \<longleftrightarrow> new_task_state (map ss_key steps) completed st = TK_READY" for st
    by (auto simp: deps_resolved_def res new_task_state_def list_all_iff)
  have "ct_state t = TK_READY \<longrightarrow> deps_resolved tasks st"
       "ct_state t = TK_BLOCKED \<longrightarrow> \<not> deps_resolved tasks st"
    if "t \<in> set tasks" "st \<in> set steps" "ct_step_key t = ss_key st" for t st
    using fresh[OF that] by (auto simp: deps not_started_def)
  then show ?thesis using assms(1,2) by (simp add: graph_ok_def)
qed

section \<open>The release pass\<close>

definition release_step :: "cycle_task list \<Rightarrow> step_spec list \<Rightarrow> cycle_task \<Rightarrow> cycle_task" where
  "release_step tasks steps t =
     (if \<exists>st \<in> set steps. ss_key st = ct_step_key t \<and> released tasks st t
      then t\<lparr>ct_state := TK_READY, ct_version := ct_version t + 1\<rparr> else t)"

lemma release_step_simps [simp]:
  "ct_id (release_step tasks steps t) = ct_id t"
  "ct_cycle (release_step tasks steps t) = ct_cycle t"
  "ct_step_key (release_step tasks steps t) = ct_step_key t"
  "resolved_state (ct_state (release_step tasks steps t)) \<longleftrightarrow> resolved_state (ct_state t)"
  by (auto simp: release_step_def released_def resolved_state_def)

lemma deps_resolved_map:
  assumes "\<And>t. t \<in> set tasks \<Longrightarrow> ct_step_key (f t) = ct_step_key t"
    and "\<And>t. t \<in> set tasks \<Longrightarrow> resolved_state (ct_state (f t)) = resolved_state (ct_state t)"
  shows "deps_resolved (map f tasks) st = deps_resolved tasks st"
proof -
  have "resolved_at (map f tasks) k = resolved_at tasks k" for k
    using assms by (induction tasks) (auto simp: resolved_at_def)
  then have "resolved_at (map f tasks) = resolved_at tasks" by (rule ext)
  then show ?thesis by (simp add: deps_resolved_def)
qed

lemma row_put_map:
  "distinct (map key rows) \<Longrightarrow> x \<in> set rows \<Longrightarrow> key y = key x \<Longrightarrow>
     row_put key y rows = map (\<lambda>r. if r = x then y else r) rows"
  by (auto simp: row_put_def distinct_map inj_on_def)

text \<open>Writing a task changes its own cycle's list and no other.\<close>

lemma tasks_of_save_task:
  assumes "distinct (map ct_id (pr_tasks s))" "t \<in> set (pr_tasks s)" "ct_id t' = ct_id t" "ct_cycle t' = ct_cycle t"
  shows "tasks_of (save_task t' s) cid =
     (if ct_cycle t = cid then row_put ct_id t' (tasks_of s cid) else tasks_of s cid)"
proof -
  have "filter (\<lambda>x. ct_cycle x = cid) (row_put ct_id t' rows) =
          (if ct_cycle t = cid then row_put ct_id t' (filter (\<lambda>x. ct_cycle x = cid) rows)
           else filter (\<lambda>x. ct_cycle x = cid) rows)"
    if "\<forall>x \<in> set rows. ct_id x = ct_id t' \<longrightarrow> ct_cycle x = ct_cycle t" for rows
    using that assms(3,4) by (induction rows) auto
  moreover have "\<forall>x \<in> set (pr_tasks s). ct_id x = ct_id t' \<longrightarrow> ct_cycle x = ct_cycle t"
    using assms(1-3) by (auto simp: distinct_map dest: inj_onD)
  ultimately show ?thesis by (simp add: tasks_of_def save_task_def)
qed

lemma tasks_of_simps [simp]:
  "tasks_of (emit c a e g i v p s) cid = tasks_of s cid"
  "tasks_of (write_note c w b s) cid = tasks_of s cid"
  "tasks_of (save_cycle c s) cid = tasks_of s cid"
  by (simp_all add: tasks_of_def emit_def write_note_def save_cycle_def)

text \<open>The tables a pass over tasks leaves alone, and the ids it keeps.\<close>

definition same_rows :: "practice \<Rightarrow> practice \<Rightarrow> bool" where
  "same_rows s s' =
     (pr_authz s' = pr_authz s \<and> pr_flags s' = pr_flags s \<and> pr_engagements s' = pr_engagements s \<and>
      pr_versions s' = pr_versions s \<and> pr_steps s' = pr_steps s \<and> pr_cycles s' = pr_cycles s \<and>
      pr_playbooks s' = pr_playbooks s \<and>
      pr_next s' = pr_next s \<and> map ct_id (pr_tasks s') = map ct_id (pr_tasks s) \<and>
      map ct_cycle (pr_tasks s') = map ct_cycle (pr_tasks s))"

lemma same_rows_refl [simp]: "same_rows s s"
  by (simp add: same_rows_def)

lemma same_rows_trans: "same_rows a b \<Longrightarrow> same_rows b c \<Longrightarrow> same_rows a c"
  by (simp add: same_rows_def)

lemma same_rows_emit [simp]: "same_rows s (emit c a e g i v p s') \<longleftrightarrow> same_rows s s'"
  by (simp add: same_rows_def emit_def)

lemma same_rows_save_task:
  assumes "distinct (map ct_id (pr_tasks s))" "t \<in> set (pr_tasks s)" "ct_id t' = ct_id t" "ct_cycle t' = ct_cycle t"
  shows "same_rows s (save_task t' s)"
proof -
  have "\<forall>x \<in> set (pr_tasks s). ct_id x = ct_id t' \<longrightarrow> ct_cycle x = ct_cycle t'"
    using assms by (auto simp: distinct_map dest: inj_onD)
  then have "map ct_cycle (row_put ct_id t' (pr_tasks s)) = map ct_cycle (pr_tasks s)"
    by (simp add: row_put_def)
  then show ?thesis by (simp add: same_rows_def save_task_def)
qed

lemma release_step_Cons:
  "release_step (map (release_step tasks [st]) tasks) sts (release_step tasks [st] t) =
         release_step tasks (st # sts) t"
proof -
  have deps: "deps_resolved (map (release_step tasks [st]) tasks) x = deps_resolved tasks x" for x
    by (rule deps_resolved_map) simp_all
  show ?thesis
  proof (cases "ss_key st = ct_step_key t \<and> released tasks st t")
    case True
    then have "release_step tasks [st] t = t\<lparr>ct_state := TK_READY, ct_version := ct_version t + 1\<rparr>"
      by (simp add: release_step_def)
    with True show ?thesis by (simp add: release_step_def released_iff)
  next
    case False
    then have "release_step tasks [st] t = t" by (auto simp: release_step_def)
    moreover have "(\<exists>x \<in> set (st # sts). ss_key x = ct_step_key t \<and> released tasks x t) \<longleftrightarrow>
        (\<exists>x \<in> set sts. ss_key x = ct_step_key t \<and> released tasks x t)"
      unfolding list.set bex_simps using False by blast
    ultimately show ?thesis by (simp only: release_step_def released_iff deps)
  qed
qed

lemma release_step_one:
  assumes "distinct (map ct_step_key tasks)" "distinct (map ct_id tasks)"
    and node: "find (\<lambda>x. ct_step_key x = ss_key st) tasks = Some node"
  shows "map (release_step tasks [st]) tasks =
    (if released tasks st node
     then row_put ct_id (node\<lparr>ct_state := TK_READY, ct_version := ct_version node + 1\<rparr>) tasks
     else tasks)"
proof -
  have n: "node \<in> set tasks" "ct_step_key node = ss_key st" using node by (auto dest: find_Some_iff_first)
  have "t = node" if "t \<in> set tasks" "ct_step_key t = ss_key st" for t
    using find_key[OF assms(1) that(1)] that(2) node by simp
  then have here: "ss_key st = ct_step_key t \<longleftrightarrow> t = node" if "t \<in> set tasks" for t
    using that n(2) by metis
  have each: "release_step tasks [st] t =
      (if released tasks st node \<and> t = node
       then node\<lparr>ct_state := TK_READY, ct_version := ct_version node + 1\<rparr> else t)"
    if "t \<in> set tasks" for t
    by (auto simp: release_step_def here[OF that])
  show ?thesis
  proof (cases "released tasks st node")
    case True
    have "row_put ct_id (node\<lparr>ct_state := TK_READY, ct_version := ct_version node + 1\<rparr>) tasks =
        map (\<lambda>r. if r = node then node\<lparr>ct_state := TK_READY, ct_version := ct_version node + 1\<rparr> else r) tasks"
      by (rule row_put_map[OF assms(2) n(1)]) simp
    with True each show ?thesis by simp
  next
    case False
    with each show ?thesis by (simp add: map_idI)
  qed
qed

lemma release_effect:
  assumes "release_pass cycle who (tasks_of s cid) steps s = Inr s'"
    and "distinct (map ct_id (pr_tasks s))" "distinct (map ct_step_key (tasks_of s cid))"
  shows "tasks_of s' cid = map (release_step (tasks_of s cid) steps) (tasks_of s cid) \<and>
    (\<forall>other. other \<noteq> cid \<longrightarrow> tasks_of s' other = tasks_of s other) \<and> same_rows s s' \<and>
    (\<forall>st \<in> set steps. ss_key st \<in> ct_step_key ` set (tasks_of s cid))"
  using assms
proof (induction steps arbitrary: s)
  case Nil
  then show ?case by (auto simp: release_step_def intro!: map_idI[symmetric])
next
  case (Cons st sts)
  let ?T = "tasks_of s cid"
  from Cons.prems(1) obtain node where node: "find (\<lambda>t. ct_step_key t = ss_key st) ?T = Some node"
    by (auto simp: res_iff)
  then have mem: "node \<in> set ?T" "ct_step_key node = ss_key st" by (auto dest: find_Some_iff_first)
  then have row: "node \<in> set (pr_tasks s)" "ct_cycle node = cid" by (auto simp: tasks_of_def)
  have ids: "distinct (map ct_id ?T)" using Cons.prems(2) by (simp add: tasks_of_def distinct_map_filter)
  note one = release_step_one[OF Cons.prems(3) ids node]
  define node' where "node' = node\<lparr>ct_state := TK_READY, ct_version := ct_version node + 1\<rparr>"
  define s1 where "s1 = (if released ?T st node
      then emit cycle (Some who) ''task.ready'' Task_Aggregate (ct_id node') (ct_version node') [] (save_task node' s)
      else s)"
  have saved: "same_rows s (save_task node' s)"
    "tasks_of (save_task node' s) c = (if c = cid then row_put ct_id node' ?T else tasks_of s c)" for c
    using same_rows_save_task[OF Cons.prems(2) row(1), of node']
      tasks_of_save_task[OF Cons.prems(2) row(1), of node' c] row(2)
    by (auto simp: node'_def)
  have T1: "tasks_of s1 cid = map (release_step ?T [st]) ?T" and sr: "same_rows s s1"
    and oth: "other \<noteq> cid \<Longrightarrow> tasks_of s1 other = tasks_of s other" for other
    using saved one by (simp_all add: s1_def node'_def split: if_splits)
  have run: "release_pass cycle who (tasks_of s1 cid) sts s1 = Inr s'"
    using Cons.prems(1) node one saved(2) by (auto simp: s1_def node'_def Let_def split: if_splits)
  have "distinct (map ct_id (pr_tasks s1))" using sr Cons.prems(2) by (simp add: same_rows_def)
  moreover have "distinct (map ct_step_key (tasks_of s1 cid))" using Cons.prems(3) by (simp add: T1 comp_def)
  ultimately have IH: "tasks_of s' cid = map (release_step (tasks_of s1 cid) sts) (tasks_of s1 cid)"
    "\<forall>other. other \<noteq> cid \<longrightarrow> tasks_of s' other = tasks_of s1 other" "same_rows s1 s'"
    "\<forall>x \<in> set sts. ss_key x \<in> ct_step_key ` set (tasks_of s1 cid)"
    using Cons.IH[OF run] by blast+
  have "tasks_of s' cid = map (release_step ?T (st # sts)) ?T"
    unfolding IH(1) T1 map_map comp_def
    by (rule map_cong[OF refl]) (rule release_step_Cons)
  moreover
  have "ct_step_key ` set (tasks_of s1 cid) = ct_step_key ` set ?T" by (simp add: T1 image_image)
  then have "\<forall>x \<in> set (st # sts). ss_key x \<in> ct_step_key ` set ?T"
    using IH(4) mem by (metis image_eqI set_ConsD)
  ultimately show ?case using IH(2) oth same_rows_trans[OF sr IH(3)] by simp
qed

section \<open>Creating and refreshing tasks\<close>

lemma create_tasks_effect:
  assumes "create_tasks ctx cycle primary enabled resolved steps s = Inr s'"
  obtains ts where "s' = s\<lparr>pr_tasks := pr_tasks s @ ts, pr_next := pr_next s + int (length ts)\<rparr>"
    "map ct_step_key ts = map ss_key steps" "distinct (map ct_id ts)"
    "\<And>t. t \<in> set ts \<Longrightarrow> pr_next s \<le> ct_id t \<and> ct_id t < pr_next s + int (length ts) \<and> ct_cycle t = cy_id cycle"
    "\<And>t. t \<in> set ts \<Longrightarrow>
       \<exists>st \<in> set steps. ct_step_key t = ss_key st \<and> ct_state t = new_task_state enabled resolved st"
proof -
  have "\<exists>ts. s' = s\<lparr>pr_tasks := pr_tasks s @ ts, pr_next := pr_next s + int (length ts)\<rparr> \<and>
     map ct_step_key ts = map ss_key steps \<and> distinct (map ct_id ts) \<and>
     (\<forall>t \<in> set ts. pr_next s \<le> ct_id t \<and> ct_id t < pr_next s + int (length ts) \<and> ct_cycle t = cy_id cycle) \<and>
     (\<forall>t \<in> set ts. \<exists>st \<in> set steps. ct_step_key t = ss_key st \<and> ct_state t = new_task_state enabled resolved st)"
    using assms
  proof (induction steps arbitrary: s)
    case Nil
    then show ?case by simp
  next
    case (Cons step steps)
    from Cons.prems obtain due statutory where
      "res_bind (insert_task
         \<lparr>ct_id = pr_next s, ct_tenant = cy_tenant cycle, ct_client = cy_client cycle,
          ct_cycle = cy_id cycle, ct_step_key = ss_key step,
          ct_state = new_task_state enabled resolved step, ct_owner = step_owner step cycle primary,
          ct_due_on = due, ct_statutory_due_on = statutory, ct_version = 1\<rparr> s)
         (create_tasks ctx cycle primary enabled resolved steps) = Inr s'" (is "res_bind (insert_task ?t s) _ = _")
      by (auto simp: res_bind_eq_Inr)
    then obtain t s1 where t: "ct_id t = pr_next s" "ct_cycle t = cy_id cycle"
        "ct_step_key t = ss_key step" "ct_state t = new_task_state enabled resolved step"
      and s1: "s1 = s\<lparr>pr_tasks := pr_tasks s @ [t], pr_next := pr_next s + 1\<rparr>"
      and rest: "create_tasks ctx cycle primary enabled resolved steps s1 = Inr s'"
      using that[of ?t] by (auto simp: res_iff insert_task_def split: if_splits)
    from Cons.IH[OF rest] obtain ts where
        ts: "s' = s1\<lparr>pr_tasks := pr_tasks s1 @ ts, pr_next := pr_next s1 + int (length ts)\<rparr>"
          "map ct_step_key ts = map ss_key steps" "distinct (map ct_id ts)"
        "\<forall>x \<in> set ts. pr_next s1 \<le> ct_id x \<and> ct_id x < pr_next s1 + int (length ts) \<and> ct_cycle x = cy_id cycle"
        "\<forall>x \<in> set ts. \<exists>st \<in> set steps. ct_step_key x = ss_key st \<and> ct_state x = new_task_state enabled resolved st"
      by blast
    have "ct_id t \<notin> ct_id ` set ts" using ts(4) t(1) s1 by auto
    then show ?case using ts t s1 by (intro exI[of _ "t # ts"]) auto
  qed
  then show ?thesis using that by blast
qed

text \<open>What a refresh writes: the tasks of the list that had not started, recomputed.\<close>

lemma refresh_tasks_effect:
  assumes "refresh_tasks ctx cycle primary future completed ts s = Inr s'"
    and "distinct (map ct_id (pr_tasks s))" "distinct (map ct_id ts)" "set ts \<subseteq> set (pr_tasks s)"
  obtains g where "pr_tasks s' = map g (pr_tasks s)" "same_rows s s'"
    "\<And>t. t \<in> set (pr_tasks s) \<Longrightarrow>
       ct_id (g t) = ct_id t \<and> ct_cycle (g t) = ct_cycle t \<and> ct_step_key (g t) = ct_step_key t"
    "\<And>t. t \<in> set (pr_tasks s) \<Longrightarrow> t \<notin> set ts \<or> \<not> not_started (ct_state t) \<Longrightarrow> g t = t"
    "\<And>t. t \<in> set ts \<Longrightarrow> not_started (ct_state t) \<Longrightarrow>
       \<exists>st. step_by_key future (ct_step_key t) = Some st \<and>
         ct_state (g t) = new_task_state (map ss_key future) completed st"
proof -
  have "\<exists>g. pr_tasks s' = map g (pr_tasks s) \<and> same_rows s s' \<and>
     (\<forall>t \<in> set (pr_tasks s).
        ct_id (g t) = ct_id t \<and> ct_cycle (g t) = ct_cycle t \<and> ct_step_key (g t) = ct_step_key t) \<and>
     (\<forall>t \<in> set (pr_tasks s). t \<notin> set ts \<or> \<not> not_started (ct_state t) \<longrightarrow> g t = t) \<and>
     (\<forall>t \<in> set ts. not_started (ct_state t) \<longrightarrow>
        (\<exists>st. step_by_key future (ct_step_key t) = Some st \<and>
           ct_state (g t) = new_task_state (map ss_key future) completed st))"
    using assms
  proof (induction ts arbitrary: s)
    case Nil
    then show ?case by (intro exI[of _ id]) simp
  next
    case (Cons t ts)
    have tin: "t \<in> set (pr_tasks s)" and tout: "ct_id t \<notin> ct_id ` set ts" "distinct (map ct_id ts)"
      using Cons.prems by auto
    show ?case
    proof (cases "not_started (ct_state t)")
      case False
      then have "refresh_tasks ctx cycle primary future completed ts s = Inr s'" using Cons.prems(1) by simp
      from Cons.IH[OF this Cons.prems(2) tout(2)] Cons.prems(4) obtain g where
        g: "pr_tasks s' = map g (pr_tasks s)" "same_rows s s'"
          "\<forall>t \<in> set (pr_tasks s). ct_id (g t) = ct_id t \<and> ct_cycle (g t) = ct_cycle t \<and> ct_step_key (g t) = ct_step_key t"
          "\<forall>t \<in> set (pr_tasks s). t \<notin> set ts \<or> \<not> not_started (ct_state t) \<longrightarrow> g t = t"
          "\<forall>t \<in> set ts. not_started (ct_state t) \<longrightarrow> (\<exists>st. step_by_key future (ct_step_key t) = Some st \<and>
             ct_state (g t) = new_task_state (map ss_key future) completed st)"
        by auto
      show ?thesis by (rule exI[of _ g]) (use g False in auto)
    next
      case True
      with Cons.prems(1) obtain st due statutory where st: "step_by_key future (ct_step_key t) = Some st"
        and "refresh_tasks ctx cycle primary future completed ts
            (save_task (t\<lparr>ct_due_on := due, ct_statutory_due_on := statutory,
               ct_state := new_task_state (map ss_key future) completed st,
               ct_owner := step_owner st cycle primary, ct_version := ct_version t + 1\<rparr>) s) = Inr s'"
          (is "refresh_tasks _ _ _ _ _ _ (save_task ?t s) = _")
        by (auto simp: res_iff)
      then obtain t' where t': "ct_id t' = ct_id t" "ct_cycle t' = ct_cycle t" "ct_step_key t' = ct_step_key t"
          "ct_state t' = new_task_state (map ss_key future) completed st"
        and run: "refresh_tasks ctx cycle primary future completed ts (save_task t' s) = Inr s'"
        using that[of ?t] by simp
      have T: "pr_tasks (save_task t' s) = map (\<lambda>r. if r = t then t' else r) (pr_tasks s)"
        using row_put_map[OF Cons.prems(2) tin t'(1)] by (simp add: save_task_def)
      have sr: "same_rows s (save_task t' s)" by (rule same_rows_save_task[OF Cons.prems(2) tin t'(1,2)])
      have "distinct (map ct_id (pr_tasks (save_task t' s)))" using sr Cons.prems(2) by (simp add: same_rows_def)
      moreover have tne: "t \<notin> set ts" "t' \<notin> set ts" using tout(1) t'(1) by (metis image_eqI)+
      then have "set ts \<subseteq> set (pr_tasks (save_task t' s))" using Cons.prems(4) by (auto simp: T)
      ultimately obtain g where
        g: "pr_tasks s' = map g (pr_tasks (save_task t' s))" "same_rows (save_task t' s) s'"
          "\<forall>t \<in> set (pr_tasks (save_task t' s)).
             ct_id (g t) = ct_id t \<and> ct_cycle (g t) = ct_cycle t \<and> ct_step_key (g t) = ct_step_key t"
          "\<forall>t \<in> set (pr_tasks (save_task t' s)). t \<notin> set ts \<or> \<not> not_started (ct_state t) \<longrightarrow> g t = t"
          "\<forall>t \<in> set ts. not_started (ct_state t) \<longrightarrow> (\<exists>st. step_by_key future (ct_step_key t) = Some st \<and>
             ct_state (g t) = new_task_state (map ss_key future) completed st)"
        using Cons.IH[OF run] tout(2) by auto
      have t'in: "t' \<in> set (pr_tasks (save_task t' s))" using tin by (auto simp: T)
      have gt': "g t' = t'" using g(4) t'in tne by blast
      let ?h = "\<lambda>r. g (if r = t then t' else r)"
      have "pr_tasks s' = map ?h (pr_tasks s)" by (simp add: g(1) T)
      moreover have "\<forall>x \<in> set (pr_tasks s).
          ct_id (?h x) = ct_id x \<and> ct_cycle (?h x) = ct_cycle x \<and> ct_step_key (?h x) = ct_step_key x"
        using g(3) gt' t' by (auto simp: T)
      moreover have "\<forall>x \<in> set (pr_tasks s). x \<notin> set (t # ts) \<or> \<not> not_started (ct_state x) \<longrightarrow> ?h x = x"
        using g(4) True by (auto simp: T)
      moreover have "\<forall>x \<in> set (t # ts). not_started (ct_state x) \<longrightarrow>
          (\<exists>st. step_by_key future (ct_step_key x) = Some st \<and>
             ct_state (?h x) = new_task_state (map ss_key future) completed st)"
        using g(5) st t'(4) gt' tne by auto
      ultimately show ?thesis using same_rows_trans[OF sr g(2)] by (intro exI[of _ ?h]) blast
    qed
  qed
  then show ?thesis using that by blast
qed

end
