(* ===== verification/Cycle_Properties.thy ===== *)
theory Cycle_Properties
  imports Cycle_Guarantees
begin

text \<open>
  The cycle commands as one step function over the practice, the invariant of its histories, and
  what follows: work starts behind finished work, an acyclic graph never deadlocks, opening is
  idempotent, a stale writer changes nothing, and ended cycles stay ended.
\<close>

section \<open>What the loads return\<close>

lemma scoped_in: "x \<in> set (scoped ctx f rows) \<Longrightarrow> x \<in> set rows \<and> ax_tenant ctx = Some (f x)"
  by (auto simp: scoped_def split: option.splits)

lemma find_scoped:
  "find P (scoped ctx f rows) = Some x \<Longrightarrow> x \<in> set rows \<and> P x \<and> ax_tenant ctx = Some (f x)"
  by (drule find_Some_iff_first) (auto dest: scoped_in)

lemma load_cycle_Inr:
  "load_cycle ctx now s actor cid = Inr c \<Longrightarrow> c \<in> set (pr_cycles s) \<and> cy_id c = cid \<and> ax_tenant ctx = Some (cy_tenant c)"
  by (auto simp: load_cycle_def res_iff dest!: find_scoped)

lemma write_note_fields [simp]:
  "pr_tasks (write_note c w b s) = pr_tasks s" "pr_cycles (write_note c w b s) = pr_cycles s"
  "pr_steps (write_note c w b s) = pr_steps s" "pr_next (write_note c w b s) = pr_next s + 1"
  "pr_authz (write_note c w b s) = pr_authz s" "pr_flags (write_note c w b s) = pr_flags s"
  "pr_playbooks (write_note c w b s) = pr_playbooks s" "pr_versions (write_note c w b s) = pr_versions s" "pr_engagements (write_note c w b s) = pr_engagements s"
  by (simp_all add: write_note_def)

lemma emit_fields [simp]:
  "pr_tasks (emit c a e g i v p s) = pr_tasks s" "pr_cycles (emit c a e g i v p s) = pr_cycles s"
  "pr_steps (emit c a e g i v p s) = pr_steps s" "pr_next (emit c a e g i v p s) = pr_next s"
  "pr_authz (emit c a e g i v p s) = pr_authz s" "pr_flags (emit c a e g i v p s) = pr_flags s"
  "pr_playbooks (emit c a e g i v p s) = pr_playbooks s" "pr_versions (emit c a e g i v p s) = pr_versions s" "pr_engagements (emit c a e g i v p s) = pr_engagements s"
  by (simp_all add: emit_def)

lemma save_cycle_fields [simp]:
  "pr_tasks (save_cycle c s) = pr_tasks s" "pr_cycles (save_cycle c s) = row_put cy_id c (pr_cycles s)"
  "pr_steps (save_cycle c s) = pr_steps s" "pr_next (save_cycle c s) = pr_next s"
  "pr_authz (save_cycle c s) = pr_authz s" "pr_flags (save_cycle c s) = pr_flags s"
  "pr_playbooks (save_cycle c s) = pr_playbooks s" "pr_versions (save_cycle c s) = pr_versions s" "pr_engagements (save_cycle c s) = pr_engagements s"
  by (simp_all add: save_cycle_def)

lemma save_task_fields [simp]:
  "pr_tasks (save_task t s) = row_put ct_id t (pr_tasks s)" "pr_cycles (save_task t s) = pr_cycles s"
  "pr_steps (save_task t s) = pr_steps s" "pr_next (save_task t s) = pr_next s"
  "pr_playbooks (save_task t s) = pr_playbooks s" "pr_versions (save_task t s) = pr_versions s"
  by (simp_all add: save_task_def)

lemma rows_ok_emit [simp]: "rows_ok (emit c a e g i v p s) \<longleftrightarrow> rows_ok s"
  by (simp add: rows_ok_def)

lemma enabled_steps_cong: "pr_steps s' = pr_steps s \<Longrightarrow> enabled_steps s' v = enabled_steps s v"
  by (simp add: enabled_steps_def version_steps_def)

lemma enabled_steps_save_cycle [simp]: "enabled_steps (save_cycle c s) = enabled_steps s"
  by (rule ext) (rule enabled_steps_cong, simp)

section \<open>Every command keeps the graph sound\<close>

text \<open>A command touches one cycle: the other cycles and their tasks stay as they are.\<close>

definition only_touches :: "int \<Rightarrow> practice \<Rightarrow> practice \<Rightarrow> bool" where
  "only_touches cid s s' =
     ((\<forall>i. i \<noteq> cid \<longrightarrow> tasks_of s' i = tasks_of s i) \<and>
      (\<forall>x \<in> set (pr_cycles s). cy_id x \<noteq> cid \<longrightarrow> x \<in> set (pr_cycles s')))"

lemma only_touches_row_put:
  "pr_cycles s' = row_put cy_id c (pr_cycles s) \<Longrightarrow> (\<And>i. i \<noteq> cy_id c \<Longrightarrow> tasks_of s' i = tasks_of s i) \<Longrightarrow>
     only_touches (cy_id c) s s'"
  by (simp add: only_touches_def set_row_put_eq)

text \<open>A command that only rewrites the cycle's own state and revision.\<close>

lemma cycles_sound_rewrite:
  assumes "cycles_sound s" "c \<in> set (pr_cycles s)" "cy_id c' = cy_id c"
    and "cy_playbook_version c' = cy_playbook_version c"
    and s': "pr_cycles s' = row_put cy_id c' (pr_cycles s)" "pr_tasks s' = pr_tasks s" "pr_steps s' = pr_steps s"
      "pr_next s \<le> pr_next s'"
  shows "cycles_sound s'"
proof -
  have r: "rows_ok s" and g: "\<And>x. x \<in> set (pr_cycles s) \<Longrightarrow>
      graph_ok (enabled_steps s (cy_playbook_version x)) (tasks_of s (cy_id x))"
    using assms(1) by (auto simp: cycles_sound_def)
  have T: "tasks_of s' = tasks_of s" by (rule ext) (simp add: tasks_of_def s')
  have E: "enabled_steps s' = enabled_steps s" by (rule ext) (rule enabled_steps_cong[OF s'(3)])
  have "rows_ok s'"
    using r s' assms(2,3) set_row_put[of cy_id c' "pr_cycles s"] unfolding rows_ok_def by fastforce
  moreover have "graph_ok (enabled_steps s' (cy_playbook_version x)) (tasks_of s' (cy_id x))"
    if "x \<in> set (pr_cycles s')" for x
  proof -
    have "x = c' \<or> x \<in> set (pr_cycles s)" using that s'(1) set_row_put by fastforce
    then show ?thesis using g assms(2,3,4) T E by auto
  qed
  ultimately show ?thesis by (simp add: cycles_sound_def)
qed

lemma transition_cycle_effect:
  assumes "cycles_sound s" "transition_cycle ctx now actor cid to_state expected reason s = Inr (r, s')"
  shows "cycles_sound s' \<and> (\<exists>c \<in> set (pr_cycles s). to_state \<in> set (TRANSITIONS (cy_state c)) \<and> only_touches (cy_id c) s s')"
proof -
  from assms(2) obtain c where c: "load_cycle ctx now s actor cid = Inr c"
    by (auto simp: transition_cycle_def res_iff)
  define c' where "c' = c\<lparr>cy_state := to_state, cy_version := cy_version c + 1\<rparr>"
  have eff: "pr_cycles s' = row_put cy_id c' (pr_cycles s) \<and> pr_tasks s' = pr_tasks s \<and> pr_steps s' = pr_steps s \<and>
      pr_next s \<le> pr_next s' \<and> to_state \<in> set (TRANSITIONS (cy_state c))"
    using assms(2) c by (auto simp: transition_cycle_def res_iff Let_def c'_def split: if_splits option.splits)
  then have "cycles_sound s'"
    using load_cycle_Inr[OF c] by (intro cycles_sound_rewrite[OF assms(1), of c c']) (auto simp: c'_def)
  moreover have "only_touches (cy_id c') s s'"
    by (rule only_touches_row_put) (use eff in \<open>auto simp: tasks_of_def\<close>)
  ultimately show ?thesis using load_cycle_Inr[OF c] eff by (auto simp: c'_def)
qed

lemmas transition_cycle_sound = transition_cycle_effect[THEN conjunct1]

lemma add_note_effect:
  assumes "cycles_sound s" "add_note ctx now actor cid body expected s = Inr (r, s')"
  shows "cycles_sound s' \<and> tasks_of s' = tasks_of s \<and>
    (\<exists>c \<in> set (pr_cycles s). pr_cycles s' = row_put cy_id (c\<lparr>cy_version := cy_version c + 1\<rparr>) (pr_cycles s))"
proof -
  from assms(2) obtain c where c: "load_cycle ctx now s actor cid = Inr c"
    by (auto simp: add_note_def res_iff split: if_splits)
  define c' where "c' = c\<lparr>cy_version := cy_version c + 1\<rparr>"
  have "pr_cycles s' = row_put cy_id c' (pr_cycles s) \<and> pr_tasks s' = pr_tasks s \<and> pr_steps s' = pr_steps s \<and>
      pr_next s \<le> pr_next s'"
    using assms(2) c by (auto simp: add_note_def res_iff Let_def c'_def split: if_splits)
  moreover from this have "cycles_sound s'"
    using load_cycle_Inr[OF c] by (intro cycles_sound_rewrite[OF assms(1), of c c']) (auto simp: c'_def)
  ultimately show ?thesis using load_cycle_Inr[OF c] by (auto simp: c'_def tasks_of_def)
qed

lemmas add_note_sound = add_note_effect[THEN conjunct1]

lemma rows_ok_next:
  assumes "rows_ok s" "map ct_id (pr_tasks s') = map ct_id (pr_tasks s)" "map ct_cycle (pr_tasks s') = map ct_cycle (pr_tasks s)"
    and "map cy_id (pr_cycles s') = map cy_id (pr_cycles s)" "pr_steps s' = pr_steps s" "pr_next s \<le> pr_next s'"
  shows "rows_ok s'"
proof -
  have bounds: "(\<forall>t \<in> set (pr_tasks x). ct_id t < pr_next x \<and> ct_cycle t < pr_next x) \<longleftrightarrow>
      (\<forall>i \<in> set (map ct_id (pr_tasks x)) \<union> set (map ct_cycle (pr_tasks x)). i < pr_next x)"
    "(\<forall>c \<in> set (pr_cycles x). cy_id c < pr_next x) \<longleftrightarrow> (\<forall>i \<in> set (map cy_id (pr_cycles x)). i < pr_next x)" for x
    by auto
  have "\<forall>i \<in> set (map ct_id (pr_tasks s)) \<union> set (map ct_cycle (pr_tasks s)) \<union> set (map cy_id (pr_cycles s)).
      i < pr_next s'"
    using assms(1,6) unfolding rows_ok_def bounds by (meson Un_iff order_less_le_trans)
  then show ?thesis using assms(1) unfolding rows_ok_def bounds assms(2-5) by blast
qed

text \<open>Only one cycle's graph changes: its own tasks, its own pin.\<close>

lemma cycles_sound_one:
  assumes "cycles_sound s" "rows_ok s'" "pr_steps s' = pr_steps s"
    and "\<And>x. x \<in> set (pr_cycles s') \<Longrightarrow> x = c \<or> x \<in> set (pr_cycles s)"
    and "\<And>x. x \<in> set (pr_cycles s') \<Longrightarrow> cy_id x = cy_id c \<Longrightarrow> x = c"
    and "\<And>other. other \<noteq> cy_id c \<Longrightarrow> tasks_of s' other = tasks_of s other"
    and "graph_ok (enabled_steps s (cy_playbook_version c)) (tasks_of s' (cy_id c))"
  shows "cycles_sound s'"
proof -
  have "graph_ok (enabled_steps s' (cy_playbook_version x)) (tasks_of s' (cy_id x))" if x: "x \<in> set (pr_cycles s')" for x
  proof (cases "x = c")
    case True
    then show ?thesis using assms(7) enabled_steps_cong[OF assms(3)] by simp
  next
    case False
    then have "x \<in> set (pr_cycles s)" "cy_id x \<noteq> cy_id c" using assms(4,5)[OF x] by auto
    then show ?thesis
      using assms(1,6) enabled_steps_cong[OF assms(3)] by (simp add: cycles_sound_def)
  qed
  then show ?thesis using assms(2) by (simp add: cycles_sound_def)
qed

text \<open>Moving a task and releasing what it unblocks.\<close>

lemma task_transition_shape:
  "to_state \<in> set (TASK_TRANSITIONS from_state) \<Longrightarrow>
     \<not> resolved_state from_state \<and> to_state \<noteq> TK_READY \<and> to_state \<noteq> TK_BLOCKED"
  by (cases from_state) (auto simp: resolved_state_def)

lemma graph_ok_moved:
  assumes ok: "graph_ok steps T" and st: "distinct (map ss_key steps)" and ids: "distinct (map ct_id T)"
    and t: "t \<in> set T" "ct_id t' = ct_id t" "ct_step_key t' = ct_step_key t"
    and move: "ct_state t' \<in> set (TASK_TRANSITIONS (ct_state t))"
    and T1: "T1 = row_put ct_id t' T"
  shows "graph_ok steps (map (release_step T1 steps) T1)"
proof -
  let ?R = "map (release_step T1 steps) T1"
  have m: "T1 = map (\<lambda>r. if r = t then t' else r) T" unfolding T1 by (rule row_put_map[OF ids t(1,2)])
  have keys: "map ct_step_key T1 = map ct_step_key T" by (simp add: m t(3))
  have dT: "distinct (map ct_step_key T)" and kT: "set (map ct_step_key T) = set (map ss_key steps)"
    using ok by (simp_all add: graph_ok_def)
  have keysR: "map ct_step_key ?R = map ct_step_key T" using keys by (simp add: comp_def)
  have dR: "deps_resolved ?R x = deps_resolved T1 x" for x by (rule deps_resolved_map) simp_all
  note shape = task_transition_shape[OF move]
  have "resolved_at T k \<Longrightarrow> resolved_at T1 k" for k
  proof -
    assume "resolved_at T k"
    then have "\<forall>x \<in> set T. ct_step_key x = k \<longrightarrow> resolved_state (ct_state x)" by (simp add: resolved_at_iff[OF dT])
    moreover from this have "ct_step_key t \<noteq> k" using shape t(1) by blast
    ultimately have "\<forall>x \<in> set T1. ct_step_key x = k \<longrightarrow> resolved_state (ct_state x)" by (auto simp: m t(3))
    then show ?thesis using dT keys by (simp add: resolved_at_iff)
  qed
  then have mono: "deps_resolved T x \<Longrightarrow> deps_resolved T1 x" for x by (auto simp: deps_resolved_def list_all_iff)
  have "(ct_state r = TK_READY \<longrightarrow> deps_resolved ?R x) \<and> (ct_state r = TK_BLOCKED \<longrightarrow> \<not> deps_resolved ?R x)"
    if x: "x \<in> set steps" and r: "r \<in> set ?R" and k: "ct_step_key r = ss_key x" for x r
  proof -
    obtain t1 where t1: "t1 \<in> set T1" "r = release_step T1 steps t1" using r by auto
    have only: "y = x" if "y \<in> set steps" "ss_key y = ct_step_key t1" for y
      using that x k t1(2) st by (simp add: distinct_map inj_on_def)
    have here: "(\<exists>y \<in> set steps. ss_key y = ct_step_key t1 \<and> released T1 y t1) \<longleftrightarrow> released T1 x t1"
      using only x k t1(2) by (metis release_step_simps(3))
    show ?thesis
    proof (cases "released T1 x t1")
      case True
      then have "ct_state r = TK_READY" using here t1(2) by (simp add: release_step_def)
      with True show ?thesis by (simp add: released_iff dR)
    next
      case False
      then have rt: "r = t1" using here unfolding t1(2) release_step_def by (simp only: if_False)
      have "deps_resolved T1 x" if "ct_state t1 = TK_READY"
      proof -
        have "t1 \<noteq> t'" using that shape by auto
        then have "t1 \<in> set T" using t1(1) by (auto simp: m split: if_splits)
        then show ?thesis using ok x k rt that mono by (auto simp: graph_ok_def)
      qed
      then show ?thesis using False by (simp add: released_iff dR rt)
    qed
  qed
  then show ?thesis using dT kT keysR unfolding graph_ok_def by metis
qed

text \<open>What a task command that succeeds did.\<close>

lemma transition_task_Inr:
  assumes "transition_task ctx now actor tid to_state expected reason s = Inr (r, s')"
  obtains t c s3 where "t \<in> set (pr_tasks s)" "ct_id t = tid" "load_cycle ctx now s actor (ct_cycle t) = Inr c"
    "ct_version t = expected" "to_state \<in> set (TASK_TRANSITIONS (ct_state t))" "cy_state c \<in> set OPEN_STATES"
    "r = t\<lparr>ct_state := to_state, ct_version := ct_version t + 1\<rparr>"
    "pr_tasks s3 = row_put ct_id r (pr_tasks s)" "pr_cycles s3 = pr_cycles s" "pr_steps s3 = pr_steps s"
    "pr_versions s3 = pr_versions s" "pr_playbooks s3 = pr_playbooks s"
    "pr_next s \<le> pr_next s3" "\<And>i. tasks_of s3 i = tasks_of (save_task r s) i"
    "release_pass c (u_id actor) (tasks_of s3 (cy_id c)) (enabled_steps s3 (cy_playbook_version c)) s3 = Inr s'"
proof -
  from assms obtain t c where t: "find (\<lambda>t. ct_id t = tid) (scoped ctx ct_tenant (pr_tasks s)) = Some t"
    and c: "load_cycle ctx now s actor (ct_cycle t) = Inr c"
    and v: "check_version (ct_version t) expected = Inr ()"
    by (auto simp: transition_task_def res_iff)
  define r0 where "r0 = t\<lparr>ct_state := to_state, ct_version := ct_version t + 1\<rparr>"
  define s3 where "s3 = emit c (Some (u_id actor)) ''task.transitioned'' Task_Aggregate (ct_id r0) (ct_version r0)
      [(''to'', task_slug to_state)]
      (if strip reason = [] then save_task r0 s else write_note c (u_id actor) reason (save_task r0 s))"
  have run: "to_state \<in> set (TASK_TRANSITIONS (ct_state t)) \<and> cy_state c \<in> set OPEN_STATES \<and> r = r0 \<and>
      release_pass c (u_id actor) (tasks_of s3 (cy_id c)) (enabled_steps s3 (cy_playbook_version c)) s3 = Inr s'"
    using assms t c v unfolding s3_def r0_def
    by (auto simp: transition_task_def res_iff Let_def split: if_splits)
  show ?thesis
    by (rule that[of t c s3])
      (use t c v run find_scoped[OF t] in \<open>auto simp: s3_def r0_def check_version_def\<close>)
qed

lemma transition_task_effect:
  assumes sound: "cycles_sound s" and run: "transition_task ctx now actor tid to_state expected reason s = Inr (r, s')"
  shows "cycles_sound s' \<and> (\<exists>c \<in> set (pr_cycles s). cy_state c \<in> set OPEN_STATES \<and> only_touches (cy_id c) s s')"
  using run
proof (rule transition_task_Inr)
  fix t c s3
  assume t: "t \<in> set (pr_tasks s)" "ct_id t = tid" and c: "load_cycle ctx now s actor (ct_cycle t) = Inr c"
    and "ct_version t = expected" and legal: "to_state \<in> set (TASK_TRANSITIONS (ct_state t))"
    and live: "cy_state c \<in> set OPEN_STATES"
    and r: "r = t\<lparr>ct_state := to_state, ct_version := ct_version t + 1\<rparr>"
    and s3: "pr_tasks s3 = row_put ct_id r (pr_tasks s)" "pr_cycles s3 = pr_cycles s" "pr_steps s3 = pr_steps s"
      "pr_versions s3 = pr_versions s" "pr_playbooks s3 = pr_playbooks s"
      "pr_next s \<le> pr_next s3" "\<And>i. tasks_of s3 i = tasks_of (save_task r s) i"
    and rel: "release_pass c (u_id actor) (tasks_of s3 (cy_id c)) (enabled_steps s3 (cy_playbook_version c)) s3 = Inr s'"
  note c = load_cycle_Inr[OF c]
  have rows: "rows_ok s" using sound by (simp add: cycles_sound_def)
  then have ids: "distinct (map ct_id (pr_tasks s))" by (simp add: rows_ok_def)
  let ?T = "tasks_of s (cy_id c)" and ?st = "enabled_steps s (cy_playbook_version c)"
  have ok: "graph_ok ?st ?T" using sound c unfolding cycles_sound_def by blast
  have tT: "t \<in> set ?T" using t c by (simp add: tasks_of_def)
  have T3: "tasks_of s3 i = (if i = cy_id c then row_put ct_id r ?T else tasks_of s i)" for i
    using tasks_of_save_task[OF ids t(1), of r i] c r s3(7) by auto
  have next3: "rows_ok s3"
    by (rule rows_ok_next[OF rows]) (use s3(1-6) same_rows_save_task[OF ids t(1), of r] r in \<open>auto simp: same_rows_def\<close>)
  have "distinct (map ct_id (pr_tasks s3))" using next3 by (simp add: rows_ok_def)
  moreover have "map ct_step_key (row_put ct_id r ?T) = map ct_step_key ?T"
  proof -
    have idT: "distinct (map ct_id ?T)" using ids by (simp add: tasks_of_def distinct_map_filter)
    show ?thesis using r by (simp add: row_put_map[OF idT tT])
  qed
  moreover have "distinct (map ct_step_key ?T)" using ok by (simp add: graph_ok_def)
  ultimately have eff: "tasks_of s' (cy_id c) = map (release_step (row_put ct_id r ?T) ?st) (row_put ct_id r ?T)"
    "\<forall>other. other \<noteq> cy_id c \<longrightarrow> tasks_of s' other = tasks_of s other" "same_rows s3 s'"
    using release_effect[OF rel] enabled_steps_cong[OF s3(3)] by (simp_all add: T3)
  have "graph_ok ?st (tasks_of s' (cy_id c))"
    unfolding eff(1)
    by (rule graph_ok_moved[OF ok enabled_keys_distinct[OF rows] _ tT _ _ _ refl])
      (use r legal ids in \<open>auto simp: tasks_of_def distinct_map_filter\<close>)
  moreover have "rows_ok s'"
    by (rule rows_ok_next[OF next3]) (use eff(3) in \<open>auto simp: same_rows_def\<close>)
  moreover have "pr_cycles s' = pr_cycles s" "pr_steps s' = pr_steps s" using eff(3) s3 by (simp_all add: same_rows_def)
  moreover have "x = c" if "x \<in> set (pr_cycles s)" "cy_id x = cy_id c" for x
    using that c rows by (auto simp: rows_ok_def distinct_map inj_on_def)
  ultimately have "cycles_sound s' \<and> only_touches (cy_id c) s s'"
    using eff(2) by (intro conjI cycles_sound_one[OF sound, of s' c]) (auto simp: only_touches_def)
  then show ?thesis using c live by blast
qed

lemmas transition_task_sound = transition_task_effect[THEN conjunct1]

section \<open>Opening keeps the graph sound\<close>

lemma open_cycle_Inr:
  assumes "open_cycle digest ctx now actor eid period vid key s = Inr (r, s')"
  obtains (replay) e c v x where "lock_engagement ctx now s actor eid = Inr (e, c)"
      "find (\<lambda>v. pv_id v = vid) (scoped ctx pv_tenant (pr_versions s)) = Some v"
      "cycle_for ctx s e v period = Some x" "r = ref_of x False" "s' = s"
    | (opened) e c v tid cycle s1 where "lock_engagement ctx now s actor eid = Inr (e, c)"
      "find (\<lambda>v. pv_id v = vid) (scoped ctx pv_tenant (pr_versions s)) = Some v"
      "cycle_for ctx s e v period = None" "ax_tenant ctx = Some tid"
      "cy_id cycle = pr_next s" "cy_tenant cycle = tid" "cy_client cycle = en_client e" "cy_engagement cycle = en_id e"
      "cy_playbook cycle = pv_playbook v" "cy_playbook_version cycle = pv_id v" "cy_period_start cycle = period"
      "cy_state cycle = CY_PLANNED" "r = ref_of cycle True" "pv_state v = PUBLISHED"
      "instantiate ctx cycle None [] (s\<lparr>pr_cycles := pr_cycles s @ [cycle], pr_next := pr_next s + 1\<rparr>) = Inr s1"
      "\<exists>who payload. s' = emit cycle who ''cycle.opened'' Cycle_Aggregate (cy_id cycle) (cy_version cycle) payload s1"
proof -
  from assms obtain e c v where ec: "lock_engagement ctx now s actor eid = Inr (e, c)"
    and v: "find (\<lambda>v. pv_id v = vid) (scoped ctx pv_tenant (pr_versions s)) = Some v"
    by (auto simp: open_cycle_def res_bind_eq_Inr)
  show ?thesis
  proof (cases "cycle_for ctx s e v period")
    case (Some x)
    then show ?thesis
      using assms ec v by (intro replay[OF ec v Some]) (auto simp: open_cycle_def res_bind_eq_Inr)
  next
    case None
    from assms ec v None obtain last_day tid where d: "period_end period = Inr last_day" and tid: "ax_tenant ctx = Some tid"
      by (auto simp: open_cycle_def res_bind_eq_Inr Let_def current_tenant_def split: if_splits)
    define profile where "profile = claim_at (filter (\<lambda>p. tp_client p = c_id c)
        (scoped ctx tp_tenant (pr_profiles s))) period"
    define cycle where "cycle = \<lparr>cy_id = pr_next s, cy_tenant = tid, cy_client = en_client e,
        cy_engagement = en_id e, cy_playbook = pv_playbook v, cy_playbook_version = pv_id v,
        cy_tax_profile = (case profile of None \<Rightarrow> None | Some p \<Rightarrow> Some (tp_id p)),
        cy_period_start = period, cy_period_end = last_day, cy_state = CY_PLANNED,
        cy_owner = en_responsible e, cy_version = 1\<rparr>"
    have "pv_state v = PUBLISHED \<and>
      res_bind (instantiate ctx cycle None [] (s\<lparr>pr_cycles := pr_cycles s @ [cycle], pr_next := pr_next s + 1\<rparr>))
        (\<lambda>s2. Inr (ref_of cycle True,
           emit cycle (case actor of None \<Rightarrow> None | Some u \<Rightarrow> Some (u_id u)) ''cycle.opened''
             Cycle_Aggregate (cy_id cycle) (cy_version cycle)
             [(''playbook_version_id'', str_int (pv_id v)), (''idempotency_hash'', digest key)] s2)) = Inr (r, s')"
      using assms ec v None d tid unfolding cycle_def profile_def
      by (auto simp: open_cycle_def res_bind_eq_Inr Let_def current_tenant_def split: if_splits)
    then show ?thesis
      by (auto simp: res_bind_eq_Inr intro!: opened[OF ec v None tid, of cycle]) (auto simp: cycle_def)
  qed
qed

lemma instantiate_effect:
  assumes "instantiate ctx cycle only resolved s = Inr s'"
  obtains ts where "s' = s\<lparr>pr_tasks := pr_tasks s @ ts, pr_next := pr_next s + int (length ts)\<rparr>"
    "map ct_step_key ts = map ss_key (filter (\<lambda>st. case only of None \<Rightarrow> True | Some keys \<Rightarrow> ss_key st \<in> set keys)
       (enabled_steps s (cy_playbook_version cycle)))"
    "distinct (map ct_id ts)"
    "\<And>t. t \<in> set ts \<Longrightarrow> pr_next s \<le> ct_id t \<and> ct_id t < pr_next s + int (length ts) \<and> ct_cycle t = cy_id cycle"
    "\<And>t. t \<in> set ts \<Longrightarrow> \<exists>st \<in> set (enabled_steps s (cy_playbook_version cycle)). ct_step_key t = ss_key st \<and>
       ct_state t = new_task_state (map ss_key (enabled_steps s (cy_playbook_version cycle))) resolved st"
proof -
  from assms obtain primary where "create_tasks ctx cycle primary
      (map ss_key (enabled_steps s (cy_playbook_version cycle))) resolved
      (filter (\<lambda>st. case only of None \<Rightarrow> True | Some keys \<Rightarrow> ss_key st \<in> set keys)
        (enabled_steps s (cy_playbook_version cycle))) s = Inr s'"
    by (simp add: instantiate_def Let_def)
  then show ?thesis
    by (rule create_tasks_effect) (rule that; fastforce)
qed

text \<open>Tasks appended for one cycle, with fresh numbers, keep the tables well formed.\<close>

lemma rows_ok_append:
  assumes "rows_ok s" "distinct (map ct_id ts)"
    and "\<And>t. t \<in> set ts \<Longrightarrow> pr_next s \<le> ct_id t \<and> ct_id t < pr_next s + int (length ts) \<and> ct_cycle t < pr_next s"
  shows "rows_ok (s\<lparr>pr_tasks := pr_tasks s @ ts, pr_next := pr_next s + int (length ts)\<rparr>)"
  using assms unfolding rows_ok_def by fastforce

lemma new_state_unresolved: "\<not> resolved_state (new_task_state enabled resolved st)"
  by (simp add: new_task_state_def resolved_state_def)

lemma open_cycle_effect:
  assumes sound: "cycles_sound s" and run: "open_cycle digest ctx now actor eid period vid key s = Inr (r, s')"
  shows "cycles_sound s' \<and> (\<forall>x \<in> set (pr_cycles s). x \<in> set (pr_cycles s') \<and> tasks_of s' (cy_id x) = tasks_of s (cy_id x))"
  using run
proof (cases rule: open_cycle_Inr)
  case replay
  then show ?thesis using sound by simp
next
  case (opened e c v tid cycle s1)
  let ?s0 = "s\<lparr>pr_cycles := pr_cycles s @ [cycle], pr_next := pr_next s + 1\<rparr>"
  have rows: "rows_ok s" using sound by (simp add: cycles_sound_def)
  have nid: "cy_id cycle = pr_next s" by (rule opened)
  have rows0: "rows_ok ?s0" using rows nid unfolding rows_ok_def by fastforce
  let ?st = "enabled_steps s (cy_playbook_version cycle)"
  have E: "enabled_steps ?s0 x = enabled_steps s x" for x by (rule enabled_steps_cong) simp
  from opened(15) obtain ts where
    ts: "s1 = ?s0\<lparr>pr_tasks := pr_tasks s @ ts, pr_next := pr_next s + 1 + int (length ts)\<rparr>"
      "map ct_step_key ts = map ss_key ?st" "distinct (map ct_id ts)"
      "\<And>t. t \<in> set ts \<Longrightarrow> pr_next s + 1 \<le> ct_id t \<and> ct_id t < pr_next s + 1 + int (length ts) \<and> ct_cycle t = pr_next s"
      "\<And>t. t \<in> set ts \<Longrightarrow> \<exists>st \<in> set ?st. ct_step_key t = ss_key st \<and> ct_state t = new_task_state (map ss_key ?st) [] st"
    by (rule instantiate_effect) (simp add: E nid)
  have old: "\<forall>t \<in> set (pr_tasks s). ct_cycle t < pr_next s" using rows by (simp add: rows_ok_def)
  have T: "tasks_of s1 (cy_id cycle) = ts" "other \<noteq> cy_id cycle \<Longrightarrow> tasks_of s1 other = tasks_of s other" for other
    using old ts(4) nid by (force simp: tasks_of_def ts(1) filter_empty_conv intro: filter_True)+
  have d: "distinct (map ss_key ?st)" by (rule enabled_keys_distinct[OF rows])
  have "graph_ok ?st ts"
  proof (rule graph_ok_computed[where completed = "[]"])
    show "distinct (map ct_step_key ts)" "set (map ct_step_key ts) = set (map ss_key ?st)" "distinct (map ss_key ?st)"
      using ts(2) d by simp_all
    show "resolved_state (ct_state t) \<longleftrightarrow> ct_step_key t \<in> set []" if "t \<in> set ts" for t
      using ts(5)[OF that] new_state_unresolved by auto
    show "ct_state t = new_task_state (map ss_key ?st) [] st"
      if "t \<in> set ts" "st \<in> set ?st" "ct_step_key t = ss_key st" for t st
      using ts(5)[OF that(1)] that d by (metis distinct_map inj_on_def)
  qed
  moreover have "rows_ok s1"
    using rows_ok_append[OF rows0 ts(3)] ts(4) by (simp add: ts(1))
  moreover obtain who payload where
    s': "s' = emit cycle who ''cycle.opened'' Cycle_Aggregate (cy_id cycle) (cy_version cycle) payload s1"
    using opened(16) by blast
  moreover have "cy_id x \<noteq> cy_id cycle" if "x \<in> set (pr_cycles s)" for x
    using that rows nid by (auto simp: rows_ok_def)
  moreover have "pr_cycles s1 = pr_cycles s @ [cycle]" "pr_steps s1 = pr_steps s" by (simp_all add: ts(1))
  ultimately show ?thesis
    by (intro conjI cycles_sound_one[OF sound, of s' cycle]) (auto simp: T)
qed

lemmas open_cycle_sound = open_cycle_effect[THEN conjunct1]

section \<open>Migrating keeps the graph sound\<close>

lemma migrate_open_cycle_Inr:
  assumes "migrate_open_cycle ctx now actor cid target_id expected s = Inr (r, s')"
  obtains c moved :: service_cycle and v :: playbook_version and tasks completed fresh primary s2 s3 where
    "load_cycle ctx now s actor cid = Inr c" "cy_version c = expected" "cy_state c \<in> set OPEN_STATES"
    "v \<in> set (pr_versions s)" "pv_state v = PUBLISHED"
    "tasks = sort_key ct_id (tasks_of s (cy_id c))"
    "completed = map ct_step_key (filter (\<lambda>t. resolved_state (ct_state t)) tasks)"
    "moved = c\<lparr>cy_playbook_version := pv_id v, cy_version := cy_version c + 1\<rparr>"
    "fresh = filter (\<lambda>k. k \<notin> ct_step_key ` set tasks) (map ss_key (enabled_steps s (pv_id v)))"
    "list_all (migrates (enabled_steps s (cy_playbook_version c)) (enabled_steps s (pv_id v))) tasks"
    "instantiate ctx moved (Some fresh) completed (save_cycle moved s) = Inr s2"
    "refresh_tasks ctx moved primary (enabled_steps s (pv_id v)) completed tasks s2 = Inr s3"
    "\<exists>who e p. s' = emit moved who e Cycle_Aggregate (cy_id moved) (cy_version moved) p s3"
    "r = ref_of moved False"
proof -
  from assms obtain c v where c: "load_cycle ctx now s actor cid = Inr c"
    and ver: "check_version (cy_version c) expected = Inr ()"
    and v: "migration_target s c (find (\<lambda>v. pv_id v = target_id) (scoped ctx pv_tenant (pr_versions s))) = Inr v"
    by (auto simp: migrate_open_cycle_def res_iff)
  define tasks where "tasks = sort_key ct_id (tasks_of s (cy_id c))"
  define completed where "completed = map ct_step_key (filter (\<lambda>t. resolved_state (ct_state t)) tasks)"
  define moved where "moved = c\<lparr>cy_playbook_version := pv_id v, cy_version := cy_version c + 1\<rparr>"
  define fresh where "fresh = filter (\<lambda>k. k \<notin> ct_step_key ` set tasks) (map ss_key (enabled_steps s (pv_id v)))"
  have ve: "cy_version c = expected" using ver by (simp add: check_version_def)
  have st: "cy_state c \<in> set OPEN_STATES" and pub: "v \<in> set (pr_versions s)" "pv_state v = PUBLISHED"
    using v by (auto simp: migration_target_def res_iff split: if_splits dest!: find_scoped)
  have run: "list_all (migrates (enabled_steps s (cy_playbook_version c)) (enabled_steps s (pv_id v))) tasks \<and>
      res_bind (instantiate ctx moved (Some fresh) completed (save_cycle moved s)) (\<lambda>s2.
      res_bind (refresh_tasks ctx moved (primary_assignee ctx s (cy_client c)) (enabled_steps s (pv_id v))
        completed tasks s2) (\<lambda>s3. Inr (ref_of moved False,
          emit moved (Some (u_id actor)) ''cycle.playbook_migrated'' Cycle_Aggregate (cy_id moved) (cy_version moved)
            [(''from'', str_int (cy_playbook_version c)), (''to'', str_int (pv_id v))] s3))) = Inr (r, s')"
    using assms c ver v unfolding tasks_def completed_def moved_def fresh_def
    by (auto simp: migrate_open_cycle_def res_bind_eq_Inr Let_def split: if_splits)
  then show ?thesis
    by (auto simp: res_bind_eq_Inr intro!: that[OF c ve st pub tasks_def completed_def moved_def fresh_def])
qed

lemma filter_map_kept:
  "(\<And>t. t \<in> set xs \<Longrightarrow> ct_cycle (g t) = ct_cycle t) \<Longrightarrow>
     filter (\<lambda>t. ct_cycle t = i) (map g xs) = map g (filter (\<lambda>t. ct_cycle t = i) xs)"
  by (induction xs) auto

lemma step_by_key_iff:
  "distinct (map ss_key steps) \<Longrightarrow> st \<in> set steps \<Longrightarrow> step_by_key steps (ss_key st) = Some st"
  by (simp add: step_by_key_def find_key)

text \<open>The tasks after a migration, as lists.\<close>

lemma graph_ok_migrated:
  assumes dT: "distinct (map ct_step_key T)" and d: "distinct (map ss_key future)"
    and keysT: "ct_step_key ` set T \<subseteq> ss_key ` set future"
    and completed: "set completed = ct_step_key ` {t \<in> set T. resolved_state (ct_state t)}"
    and ts: "map ct_step_key ts = map ss_key (filter (\<lambda>st. ss_key st \<notin> ct_step_key ` set T) future)"
    and new: "\<And>t. t \<in> set ts \<Longrightarrow> \<exists>st \<in> set future. ct_step_key t = ss_key st \<and>
      ct_state t = new_task_state (map ss_key future) completed st"
    and g: "\<And>t. t \<in> set T \<Longrightarrow> ct_step_key (g t) = ct_step_key t"
    and kept: "\<And>t. t \<in> set T \<Longrightarrow> \<not> not_started (ct_state t) \<Longrightarrow> g t = t"
    and redone: "\<And>t. t \<in> set T \<Longrightarrow> not_started (ct_state t) \<Longrightarrow>
      \<exists>st. step_by_key future (ct_step_key t) = Some st \<and>
        ct_state (g t) = new_task_state (map ss_key future) completed st"
  shows "graph_ok future (map g T @ ts)"
proof (rule graph_ok_computed[where completed = completed])
  have kg: "map ct_step_key (map g T) = map ct_step_key T" using g by simp
  have kts: "ct_step_key ` set ts = ss_key ` set future - ct_step_key ` set T"
  proof -
    have "ct_step_key ` set ts = set (map ct_step_key ts)" by simp
    then show ?thesis unfolding ts by auto
  qed
  show "distinct (map ct_step_key (map g T @ ts))"
  proof -
    have "distinct (map ct_step_key T @ map ss_key (filter (\<lambda>st. ss_key st \<notin> ct_step_key ` set T) future))"
      using dT d by (auto simp: distinct_map_filter) (metis imageI)
    then show ?thesis unfolding map_append kg ts .
  qed
  show "set (map ct_step_key (map g T @ ts)) = set (map ss_key future)"
    using kg kts keysT by (auto simp del: map_map)
  show "distinct (map ss_key future)" by (rule d)
  have same: "x = y" if "x \<in> set T" "y \<in> set T" "ct_step_key x = ct_step_key y" for x y
    using dT that by (simp add: distinct_map inj_on_def)
  have done_iff: "ct_step_key x \<in> set completed \<longleftrightarrow> resolved_state (ct_state x)" if "x \<in> set T" for x
    using that same by (auto simp: completed)
  have unresolved: "\<not> resolved_state (ct_state (g x)) \<and> \<not> resolved_state (ct_state x)"
    if "x \<in> set T" "not_started (ct_state x)" for x
  proof -
    have "\<exists>st. ct_state (g x) = new_task_state (map ss_key future) completed st" using redone[OF that] by blast
    then show ?thesis using that(2) by (auto simp: new_state_unresolved) (auto simp: not_started_def resolved_state_def)
  qed
  show "resolved_state (ct_state t) \<longleftrightarrow> ct_step_key t \<in> set completed" if t: "t \<in> set (map g T @ ts)" for t
  proof (cases "t \<in> set ts")
    case True
    then have "ct_step_key t \<notin> set completed" using kts completed by auto
    then show ?thesis using new[OF True] new_state_unresolved by auto
  next
    case False
    then obtain x where x: "x \<in> set T" "t = g x" using t by auto
    then show ?thesis
      using unresolved[OF x(1)] kept[OF x(1)] done_iff[OF x(1)] g[OF x(1)] by (cases "not_started (ct_state x)") auto
  qed
  show "ct_state t = new_task_state (map ss_key future) completed st"
    if t: "t \<in> set (map g T @ ts)" and st: "st \<in> set future" "ct_step_key t = ss_key st" "not_started (ct_state t)" for t st
  proof (cases "t \<in> set ts")
    case True
    then show ?thesis using new[OF True] st d by (metis distinct_map inj_on_def)
  next
    case False
    then obtain x where x: "x \<in> set T" "t = g x" using t by auto
    then have "not_started (ct_state x)" using kept[OF x(1)] st(3) by metis
    then show ?thesis
      using redone[OF x(1)] x(2) g[OF x(1)] st(2) step_by_key_iff[OF d st(1)] by auto
  qed
qed

lemma migrate_open_cycle_effect:
  assumes sound: "cycles_sound s" and run: "migrate_open_cycle ctx now actor cid target_id expected s = Inr (r, s')"
  shows "cycles_sound s' \<and> (\<exists>c \<in> set (pr_cycles s). cy_state c \<in> set OPEN_STATES \<and> only_touches (cy_id c) s s')"
  using run
proof (rule migrate_open_cycle_Inr)
  fix c moved :: service_cycle and v :: playbook_version and tasks completed fresh primary s2 s3
  let ?T = "tasks_of s (cy_id c)" and ?future = "enabled_steps s (pv_id v)"
  assume c: "load_cycle ctx now s actor cid = Inr c" and "cy_version c = expected" and live: "cy_state c \<in> set OPEN_STATES"
    and "v \<in> set (pr_versions s)" "pv_state v = PUBLISHED"
    and tasks: "tasks = sort_key ct_id ?T"
    and completed: "completed = map ct_step_key (filter (\<lambda>t. resolved_state (ct_state t)) tasks)"
    and moved: "moved = c\<lparr>cy_playbook_version := pv_id v, cy_version := cy_version c + 1\<rparr>"
    and fresh: "fresh = filter (\<lambda>k. k \<notin> ct_step_key ` set tasks) (map ss_key ?future)"
    and mig: "list_all (migrates (enabled_steps s (cy_playbook_version c)) ?future) tasks"
    and inst: "instantiate ctx moved (Some fresh) completed (save_cycle moved s) = Inr s2"
    and refr: "refresh_tasks ctx moved primary ?future completed tasks s2 = Inr s3"
    and s': "\<exists>who e p. s' = emit moved who e Cycle_Aggregate (cy_id moved) (cy_version moved) p s3"
    and "r = ref_of moved False"
  note c = load_cycle_Inr[OF c]
  have rows: "rows_ok s" using sound by (simp add: cycles_sound_def)
  have cT: "cy_id c < pr_next s" using rows c by (auto simp: rows_ok_def)
  have ok: "graph_ok (enabled_steps s (cy_playbook_version c)) ?T" using sound c unfolding cycles_sound_def by blast
  have d: "distinct (map ss_key ?future)" by (rule enabled_keys_distinct[OF rows])
  have rows1: "rows_ok (save_cycle moved s)" by (rule rows_ok_next[OF rows]) (simp_all)
  have st: "set tasks = set ?T" by (simp add: tasks)
  have fin: "(\<lambda>x. ss_key x \<in> ss_key ` set ?future \<and> ss_key x \<notin> ct_step_key ` set ?T) y \<longleftrightarrow> ss_key y \<notin> ct_step_key ` set ?T"
    if "y \<in> set ?future" for y using that by auto
  from inst obtain ts where ts:
    "s2 = (save_cycle moved s)\<lparr>pr_tasks := pr_tasks s @ ts, pr_next := pr_next s + int (length ts)\<rparr>"
    "map ct_step_key ts = map ss_key (filter (\<lambda>st. ss_key st \<notin> ct_step_key ` set ?T) ?future)"
    "distinct (map ct_id ts)"
    "\<And>t. t \<in> set ts \<Longrightarrow> pr_next s \<le> ct_id t \<and> ct_id t < pr_next s + int (length ts) \<and> ct_cycle t = cy_id c"
    "\<And>t. t \<in> set ts \<Longrightarrow> \<exists>st \<in> set ?future. ct_step_key t = ss_key st \<and>
       ct_state t = new_task_state (map ss_key ?future) completed st"
    by (rule instantiate_effect) (simp add: moved fresh st fin cong: filter_cong)
  have rows2: "rows_ok s2" using rows_ok_append[OF rows1 ts(3)] ts(4) cT by (simp add: ts(1))
  have ids2: "distinct (map ct_id (pr_tasks s2))" using rows2 by (simp add: rows_ok_def)
  have idsT: "distinct (map ct_id tasks)"
    using rows by (auto simp: tasks distinct_map rows_ok_def tasks_of_def inj_on_def)
  from refr ids2 idsT obtain g where g: "pr_tasks s3 = map g (pr_tasks s2)" "same_rows s2 s3"
    "\<And>t. t \<in> set (pr_tasks s2) \<Longrightarrow>
       ct_id (g t) = ct_id t \<and> ct_cycle (g t) = ct_cycle t \<and> ct_step_key (g t) = ct_step_key t"
    "\<And>t. t \<in> set (pr_tasks s2) \<Longrightarrow> t \<notin> set tasks \<or> \<not> not_started (ct_state t) \<Longrightarrow> g t = t"
    "\<And>t. t \<in> set tasks \<Longrightarrow> not_started (ct_state t) \<Longrightarrow> \<exists>st. step_by_key ?future (ct_step_key t) = Some st \<and>
         ct_state (g t) = new_task_state (map ss_key ?future) completed st"
    by (rule refresh_tasks_effect) (auto simp: st ts(1) tasks_of_def)
  have in2: "x \<in> set (pr_tasks s2)" if "x \<in> set (tasks_of s i) \<or> x \<in> set ts" for x i
    using that by (auto simp: ts(1) tasks_of_def)
  have new_id: "x \<notin> set tasks" if "x \<in> set ts" for x
    using that ts(4) rows by (fastforce simp: st tasks_of_def rows_ok_def)
  have split: "tasks_of s3 i = map g (tasks_of s i @ filter (\<lambda>t. ct_cycle t = i) ts)" for i
    using filter_map_kept[of "pr_tasks s2" g i] g(3) by (simp add: tasks_of_def g(1) ts(1))
  have same_ts: "map g ts = ts" using g(4) in2 new_id by (simp add: map_idI)
  have T: "tasks_of s3 (cy_id c) = map g ?T @ ts"
  proof -
    have "filter (\<lambda>t. ct_cycle t = cy_id c) ts = ts" using ts(4) by (simp add: filter_id_conv)
    then show ?thesis using split same_ts by simp
  qed
  have other: "tasks_of s3 i = tasks_of s i" if "i \<noteq> cy_id c" for i
  proof -
    have "filter (\<lambda>t. ct_cycle t = i) ts = []" using ts(4) that by (simp add: filter_empty_conv)
    moreover have "x \<notin> set tasks" if "x \<in> set (tasks_of s i)" for x
      using that \<open>i \<noteq> cy_id c\<close> by (auto simp: st tasks_of_def)
    then have "map g (tasks_of s i) = tasks_of s i" using g(4) in2 by (intro map_idI) blast
    ultimately show ?thesis by (simp add: split)
  qed
  have "graph_ok ?future (tasks_of s3 (cy_id c))"
    unfolding T
  proof (rule graph_ok_migrated[OF _ d _ _ ts(2,5)])
    show "distinct (map ct_step_key ?T)" using ok by (simp add: graph_ok_def)
    show "ct_step_key ` set ?T \<subseteq> ss_key ` set ?future"
    proof
      fix k
      assume "k \<in> ct_step_key ` set ?T"
      then obtain t where t: "t \<in> set ?T" "k = ct_step_key t" by auto
      then obtain after where "step_by_key ?future k = Some after"
        using mig unfolding list_all_iff st migrates_def by (cases "step_by_key ?future k") (auto split: option.splits)
      then show "k \<in> ss_key ` set ?future" unfolding step_by_key_def by (auto dest!: find_Some_iff_first)
    qed
    show "set completed = ct_step_key ` {t \<in> set ?T. resolved_state (ct_state t)}" by (simp add: completed tasks)
    show "ct_step_key (g t) = ct_step_key t" if "t \<in> set ?T" for t using g(3) in2 that by blast
    show "g t = t" if "t \<in> set ?T" "\<not> not_started (ct_state t)" for t using g(4) in2 that by blast
    show "\<exists>st. step_by_key ?future (ct_step_key t) = Some st \<and>
        ct_state (g t) = new_task_state (map ss_key ?future) completed st"
      if "t \<in> set ?T" "not_started (ct_state t)" for t using g(5) that st by blast
  qed
  moreover have "rows_ok s3" by (rule rows_ok_next[OF rows2]) (use g(2) in \<open>auto simp: same_rows_def\<close>)
  moreover have cyc: "pr_cycles s3 = row_put cy_id moved (pr_cycles s)" "pr_steps s3 = pr_steps s"
    using g(2) by (simp_all add: same_rows_def ts(1))
  moreover have "\<forall>x \<in> set (pr_cycles s3). cy_id x = cy_id c \<longrightarrow> x = moved"
    by (auto simp: cyc row_put_def moved split: if_splits)
  moreover have "\<forall>x \<in> set (pr_cycles s3). x = moved \<or> x \<in> set (pr_cycles s)"
    using cyc set_row_put by fastforce
  moreover have "cy_id moved = cy_id c" "cy_playbook_version moved = pv_id v" by (simp_all add: moved)
  ultimately have "cycles_sound s' \<and> only_touches (cy_id moved) s s'"
    using s' other by (intro conjI cycles_sound_one[OF sound, of s' moved] only_touches_row_put) auto
  then show ?thesis using c live by (auto simp: moved)
qed

lemmas migrate_open_cycle_sound = migrate_open_cycle_effect[THEN conjunct1]

section \<open>Histories of commands\<close>

datatype cycle_command =
    Open "account option" int date int string
  | Move account int cycle_state int "string option"
  | Advance account int task_state int string
  | Note account int string int
  | Migrate account int int int

fun run_command ::
  "(string \<Rightarrow> string) \<Rightarrow> authz_ctx \<Rightarrow> int \<Rightarrow> cycle_command \<Rightarrow> practice \<Rightarrow> practice res" where
  "run_command digest ctx now (Open who eid period vid key) s =
     res_bind (open_cycle digest ctx now who eid period vid key s) (\<lambda>(_, s'). Inr s')"
| "run_command digest ctx now (Move who cid to_state expected reason) s =
     res_bind (transition_cycle ctx now who cid to_state expected reason s) (\<lambda>(_, s'). Inr s')"
| "run_command digest ctx now (Advance who tid to_state expected reason) s =
     res_bind (transition_task ctx now who tid to_state expected reason s) (\<lambda>(_, s'). Inr s')"
| "run_command digest ctx now (Note who cid body expected) s =
     res_bind (add_note ctx now who cid body expected s) (\<lambda>(_, s'). Inr s')"
| "run_command digest ctx now (Migrate who cid target expected) s =
     res_bind (migrate_open_cycle ctx now who cid target expected s) (\<lambda>(_, s'). Inr s')"

inductive cycle_history :: "(string \<Rightarrow> string) \<Rightarrow> practice \<Rightarrow> practice \<Rightarrow> bool" for digest s0 where
  start: "cycle_history digest s0 s0"
| command: "cycle_history digest s0 s \<Longrightarrow> run_command digest ctx now cmd s = Inr s' \<Longrightarrow> cycle_history digest s0 s'"

lemma run_command_sound: "cycles_sound s \<Longrightarrow> run_command digest ctx now cmd s = Inr s' \<Longrightarrow> cycles_sound s'"
  by (cases cmd)
    (auto simp: res_bind_eq_Inr dest: open_cycle_sound transition_cycle_sound transition_task_sound
      add_note_sound migrate_open_cycle_sound)

lemma history_sound: "cycle_history digest s0 s \<Longrightarrow> cycles_sound s0 \<Longrightarrow> cycles_sound s"
  by (induction rule: cycle_history.induct) (auto dest: run_command_sound)

lemma deps_resolved_iff:
  "distinct (map ct_step_key tasks) \<Longrightarrow> deps_resolved tasks step \<longleftrightarrow>
     (\<forall>d \<in> set tasks. ct_step_key d \<in> set (ss_depends_on step) \<longrightarrow> resolved_state (ct_state d))"
  by (auto simp: deps_resolved_def list_all_iff resolved_at_iff)

lemma resolved_state_iff: "resolved_state st \<longleftrightarrow> st \<in> {TK_ACCEPTED, TK_WAIVED}"
  by (simp add: resolved_state_def)

lemma starting_states: "TK_IN_PROGRESS \<in> set (TASK_TRANSITIONS st) \<longleftrightarrow> st = TK_READY \<or> st = TK_SUBMITTED"
  by (cases st) auto

lemma finite_depends: "finite (depends edges)"
proof -
  have "x \<in> fst ` set edges" if "y \<in> set (neighbours edges x)" for x y
    using that map_of_eq_None_iff[of edges x] by (cases "map_of edges x = None") (auto simp: neighbours_def)
  then have "depends edges \<subseteq> (fst ` set edges) \<times> (\<Union>(_, keys) \<in> set edges. set keys)"
    using neighbours_mem by (auto simp: depends_def)
  then show ?thesis by (rule finite_subset) auto
qed

lemma depends_step:
  assumes "distinct (map ss_key steps)" "st \<in> set steps" "k \<in> set (ss_depends_on st)"
  shows "(ss_key st, k) \<in> depends (step_edges steps)"
proof -
  have "map_of (step_edges steps) (ss_key st) = Some (ss_depends_on st)"
    using assms(1,2) by (intro map_of_is_SomeI) (auto simp: step_edges_def comp_def)
  then show ?thesis using assms(3) by (simp add: depends_def neighbours_def)
qed

section \<open>Properties\<close>

text \<open>Every history of cycle commands keeps one task per enabled step of the pinned version, in every
  cycle: the tasks' keys are distinct and are exactly the keys of those steps.\<close>

theorem tasks_mirror_the_pinned_steps:
  assumes "cycles_sound s0" "cycle_history digest s0 s" "c \<in> set (pr_cycles s)"
  shows "distinct (map ct_step_key (tasks_of s (cy_id c))) \<and>
    ct_step_key ` set (tasks_of s (cy_id c)) = ss_key ` set (enabled_steps s (cy_playbook_version c))"
  using history_sound[OF assms(2,1)] assms(3) by (auto simp: cycles_sound_def graph_ok_def)

text \<open>C4: Work starts behind finished work: after any history, a task that a command moves to in progress
  (other than one sent back from review) has every dependency of its step that has a task
  accepted or waived.\<close>

theorem work_starts_behind_dependencies:
  assumes "cycles_sound s0" "cycle_history digest s0 s"
    and "transition_task ctx now actor tid TK_IN_PROGRESS expected reason s = Inr (r, s')"
    and "t \<in> set (pr_tasks s)" "ct_id t = tid" "ct_state t \<noteq> TK_SUBMITTED"
    and "c \<in> set (pr_cycles s)" "cy_id c = ct_cycle t"
    and "step \<in> set (enabled_steps s (cy_playbook_version c))" "ss_key step = ct_step_key t"
    and "d \<in> set (tasks_of s (cy_id c))" "ct_step_key d \<in> set (ss_depends_on step)"
  shows "ct_state d \<in> {TK_ACCEPTED, TK_WAIVED}"
proof -
  have sound: "cycles_sound s" by (rule history_sound[OF assms(2,1)])
  obtain t' where t': "t' \<in> set (pr_tasks s)" "ct_id t' = tid" "TK_IN_PROGRESS \<in> set (TASK_TRANSITIONS (ct_state t'))"
    using assms(3) by (rule transition_task_Inr)
  have "t' = t" using t' assms(4,5) sound by (auto simp: cycles_sound_def rows_ok_def distinct_map inj_on_def)
  then have ready: "ct_state t = TK_READY" using t'(3) assms(6) by (simp add: starting_states)
  have ok: "graph_ok (enabled_steps s (cy_playbook_version c)) (tasks_of s (cy_id c))"
    using sound assms(7) unfolding cycles_sound_def by blast
  have "t \<in> set (tasks_of s (cy_id c))" using assms(4,8) by (simp add: tasks_of_def)
  then have "deps_resolved (tasks_of s (cy_id c)) step"
    using ok assms(9,10) ready unfolding graph_ok_def by metis
  then have "resolved_state (ct_state d)"
    using ok assms(11,12) by (simp add: graph_ok_def deps_resolved_iff)
  then show ?thesis by (simp add: resolved_state_iff)
qed

text \<open>An acyclic graph of a sound state always has work someone can take up.\<close>

lemma graph_never_deadlocks:
  assumes sound: "cycles_sound s" and c: "c \<in> set (pr_cycles s)"
    and acyclic: "acyclic (depends (step_edges (enabled_steps s (cy_playbook_version c))))"
    and none: "\<forall>t \<in> set (tasks_of s (cy_id c)). ct_state t \<noteq> TK_CANCELLED"
    and left: "\<exists>t \<in> set (tasks_of s (cy_id c)). ct_state t \<notin> {TK_ACCEPTED, TK_WAIVED}"
  shows "\<exists>t \<in> set (tasks_of s (cy_id c)). ct_state t \<in> {TK_READY, TK_IN_PROGRESS, TK_SUBMITTED}"
proof (rule ccontr)
  let ?T = "tasks_of s (cy_id c)" and ?st = "enabled_steps s (cy_playbook_version c)"
  assume stuck: "\<not> ?thesis"
  have rest: "ct_state t = TK_BLOCKED" if "t \<in> set ?T" "\<not> resolved_state (ct_state t)" for t
    using stuck none that by (cases "ct_state t") (auto simp: resolved_state_iff)
  have ok: "graph_ok ?st ?T" using sound c unfolding cycles_sound_def by blast
  have dist: "distinct (map ct_step_key ?T)" and keys: "ct_step_key ` set ?T = ss_key ` set ?st"
    using ok by (auto simp: graph_ok_def)
  let ?E = "depends (step_edges ?st)"
  have "finite ?E" by (rule finite_depends)
  then have wf: "wf (?E\<inverse>)" using acyclic by (simp add: finite_acyclic_wf_converse)
  have "\<not> resolved_state (ct_state t) \<Longrightarrow> t \<in> set ?T \<Longrightarrow> ct_step_key t = k \<Longrightarrow> False" for t k
    using wf
  proof (induction k arbitrary: t)
    case (less k)
    have b: "ct_state t = TK_BLOCKED" using rest less.prems by blast
    obtain st where st: "st \<in> set ?st" "ss_key st = k" using keys less.prems by (metis imageE imageI)
    then have "\<not> deps_resolved ?T st" using ok b less.prems unfolding graph_ok_def by metis
    then obtain d where d: "d \<in> set ?T" "ct_step_key d \<in> set (ss_depends_on st)" "\<not> resolved_state (ct_state d)"
      by (auto simp: deps_resolved_iff[OF dist])
    have "(k, ct_step_key d) \<in> ?E"
      using depends_step[OF _ st(1)] sound st(2) d(2) by (simp add: cycles_sound_def enabled_keys_distinct)
    then show ?case using less.IH[of "ct_step_key d" d] d by simp
  qed
  then show False using left by (auto simp: resolved_state_iff)
qed

lemma TRANSITIONS_open: "x \<in> set (TRANSITIONS st) \<Longrightarrow> st \<in> set OPEN_STATES"
  by (cases st) (auto simp: TRANSITIONS_def OPEN_STATES_def CYCLE_STATES_def)

text \<open>What of a cycle an ended one keeps.\<close>

definition same_cycle :: "practice \<Rightarrow> practice \<Rightarrow> service_cycle \<Rightarrow> service_cycle \<Rightarrow> bool" where
  "same_cycle s s' c c' =
     (cy_id c' = cy_id c \<and> cy_state c' = cy_state c \<and> cy_playbook_version c' = cy_playbook_version c \<and>
      tasks_of s' (cy_id c) = tasks_of s (cy_id c))"

lemma untouched_cycle:
  assumes "cycles_sound s" "c \<in> set (pr_cycles s)" "x \<in> set (pr_cycles s)" "x \<noteq> c" "only_touches (cy_id x) s s'"
  shows "c \<in> set (pr_cycles s') \<and> same_cycle s s' c c"
proof -
  have "cy_id c \<noteq> cy_id x" using assms(1-4) by (auto simp: cycles_sound_def rows_ok_def distinct_map inj_on_def)
  then show ?thesis using assms(2,5) by (auto simp: only_touches_def same_cycle_def)
qed

lemma ended_cycle_step:
  assumes sound: "cycles_sound s" and c: "c \<in> set (pr_cycles s)" "cy_state c \<notin> set OPEN_STATES"
    and run: "run_command digest ctx now cmd s = Inr s'"
  shows "\<exists>c' \<in> set (pr_cycles s'). same_cycle s s' c c'"
proof (cases cmd)
  case (Open who eid period vid key)
  then show ?thesis
    using run c(1) by (auto simp: res_bind_eq_Inr same_cycle_def dest!: open_cycle_effect[OF sound])
next
  case (Move who cid to_state expected reason)
  then obtain x where "x \<in> set (pr_cycles s)" "to_state \<in> set (TRANSITIONS (cy_state x))" "only_touches (cy_id x) s s'"
    using run by (auto simp: res_bind_eq_Inr dest!: transition_cycle_effect[OF sound])
  then show ?thesis using untouched_cycle[OF sound c(1)] c(2) TRANSITIONS_open by metis
next
  case (Advance who tid to_state expected reason)
  then obtain x where "x \<in> set (pr_cycles s)" "cy_state x \<in> set OPEN_STATES" "only_touches (cy_id x) s s'"
    using run by (auto simp: res_bind_eq_Inr dest!: transition_task_effect[OF sound])
  then show ?thesis using untouched_cycle[OF sound c(1)] c(2) by metis
next
  case (Note who cid body expected)
  then obtain x where x: "x \<in> set (pr_cycles s)" "tasks_of s' = tasks_of s"
      "pr_cycles s' = row_put cy_id (x\<lparr>cy_version := cy_version x + 1\<rparr>) (pr_cycles s)"
    using run by (auto simp: res_bind_eq_Inr dest!: add_note_effect[OF sound])
  have "\<exists>c' \<in> set (pr_cycles s'). cy_id c' = cy_id c \<and> cy_state c' = cy_state c \<and>
      cy_playbook_version c' = cy_playbook_version c"
  proof (cases "c = x")
    case True
    then show ?thesis by (intro bexI[of _ "x\<lparr>cy_version := cy_version x + 1\<rparr>"]) (use x in \<open>auto simp: set_row_put_eq\<close>)
  next
    case False
    then have "cy_id c \<noteq> cy_id x" using sound c(1) x(1) by (auto simp: cycles_sound_def rows_ok_def distinct_map inj_on_def)
    then show ?thesis by (intro bexI[of _ c]) (use x c(1) in \<open>auto simp: set_row_put_eq\<close>)
  qed
  then show ?thesis using x(2) by (auto simp: same_cycle_def)
next
  case (Migrate who cid target expected)
  then obtain x where "x \<in> set (pr_cycles s)" "cy_state x \<in> set OPEN_STATES" "only_touches (cy_id x) s s'"
    using run by (auto simp: res_bind_eq_Inr dest!: migrate_open_cycle_effect[OF sound])
  then show ?thesis using untouched_cycle[OF sound c(1)] c(2) by metis
qed


text \<open>The guards read the authorization tables, the flags and the portfolio, which no command writes.\<close>

lemma guards_frame:
  assumes "pr_flags s' = pr_flags s" "pr_authz s' = pr_authz s" "pr_engagements s' = pr_engagements s"
  shows "require_enabled ctx s' = require_enabled ctx s" "lock_engagement ctx now s' who eid = lock_engagement ctx now s who eid"
    "load_client ctx now s' = load_client ctx now s"
proof -
  show l: "load_client ctx now s' = load_client ctx now s" by (intro ext) (simp add: load_client_def assms)
  show "require_enabled ctx s' = require_enabled ctx s" by (simp add: require_enabled_def feature_on_def assms)
  show "lock_engagement ctx now s' who eid = lock_engagement ctx now s who eid"
    unfolding lock_engagement_def l require_actor_def assms ..
qed

lemma instantiate_frame:
  assumes "instantiate ctx cycle only resolved s = Inr s'"
  shows "pr_flags s' = pr_flags s \<and> pr_authz s' = pr_authz s \<and> pr_engagements s' = pr_engagements s \<and>
    pr_versions s' = pr_versions s \<and> pr_cycles s' = pr_cycles s"
  using assms by (rule instantiate_effect) simp

text \<open>C8: Opening is idempotent: once a cycle was opened (or found), asking again for the same service,
  month and playbook version answers with the same cycle, not created, and writes nothing;
  the caller's key plays no part.\<close>

theorem opening_is_idempotent:
  assumes "open_cycle digest ctx now actor eid period vid key s = Inr (r, s')"
  shows "open_cycle digest ctx now actor eid period vid key' s' = Inr (r\<lparr>cf_created := False\<rparr>, s')"
  using assms
proof (cases rule: open_cycle_Inr)
  case (replay e c v x)
  moreover have "require_enabled ctx s = Inr ()"
    using assms by (auto simp: open_cycle_def res_bind_eq_Inr)
  ultimately show ?thesis by (simp add: open_cycle_def ref_of_def)
next
  case (opened e c v tid cycle s1)
  have on: "require_enabled ctx s = Inr ()"
    using assms by (auto simp: open_cycle_def res_bind_eq_Inr)
  obtain who payload where
    s': "s' = emit cycle who ''cycle.opened'' Cycle_Aggregate (cy_id cycle) (cy_version cycle) payload s1"
    using opened(16) by blast
  have fr: "pr_flags s' = pr_flags s" "pr_authz s' = pr_authz s" "pr_engagements s' = pr_engagements s"
    "pr_versions s' = pr_versions s" "pr_cycles s' = pr_cycles s @ [cycle]"
    using instantiate_frame[OF opened(15)] by (simp_all add: s')
  have "cycle_for ctx s' e v period = Some cycle"
  proof -
    have "find P (xs @ [y]) = Some y" if "find P xs = None" "P y" for P and xs and y :: service_cycle
      using that by (induction xs) (auto split: if_splits)
    then show ?thesis
      using opened(3-11) by (simp add: cycle_for_def scoped_def fr)
  qed
  then show ?thesis
    using on opened(1,2,13) by (simp add: open_cycle_def guards_frame[OF fr(1-3)] fr(4) ref_of_def)
qed

text \<open>A stale writer loses: after a successful transition of a cycle, any other transition of it that
  carries the revision the first one read, to whatever state and by whichever colleague can see
  the cycle, is refused as a version conflict.\<close>

theorem stale_cycle_writer_conflicts:
  assumes "transition_cycle ctx now actor cid to_state expected reason s = Inr (r, s')"
    and "load_cycle ctx later s colleague cid = Inr seen"
  shows "transition_cycle ctx later colleague cid other_state expected other_reason s' = Inl VersionConflict"
proof -
  from assms(1) obtain c where c: "load_cycle ctx now s actor cid = Inr c" "cy_version c = expected"
    by (auto simp: transition_cycle_def res_iff check_version_def)
  define c' where "c' = c\<lparr>cy_state := to_state, cy_version := cy_version c + 1\<rparr>"
  have fr: "pr_flags s' = pr_flags s" "pr_authz s' = pr_authz s" "pr_engagements s' = pr_engagements s"
    "pr_cycles s' = row_put cy_id c' (pr_cycles s)"
    using assms(1) c by (auto simp: transition_cycle_def res_iff Let_def c'_def split: if_splits option.splits)
  have found: "find (\<lambda>x. cy_id x = cid) (scoped ctx cy_tenant (pr_cycles s)) = Some c"
    using c(1) by (auto simp: load_cycle_def res_iff)
  have "find (\<lambda>x. cy_id x = cid) (filter (\<lambda>x. cy_tenant x = tid) (row_put cy_id c' rows)) = Some c'"
    if "find (\<lambda>x. cy_id x = cid) (filter (\<lambda>x. cy_tenant x = tid) rows) = Some c" for tid rows
    using that by (induction rows) (auto simp: c'_def split: if_splits)
  then have found': "find (\<lambda>x. cy_id x = cid) (scoped ctx cy_tenant (pr_cycles s')) = Some c'"
    using found by (auto simp: scoped_def fr(4) split: option.splits)
  have "load_cycle ctx later s' colleague cid = Inr c'"
    using assms(2) found found' by (auto simp: load_cycle_def res_iff guards_frame[OF fr(1-3)] c'_def)
  then show ?thesis using c(2) by (simp add: transition_cycle_def check_version_def c'_def)
qed

section \<open>A concrete practice\<close>

text \<open>The demonstration firm of \<open>Authorization_Guarantees\<close> opens client 11's May of 2026 and works on it.\<close>

definition demo_rules :: "step_spec list" where
  "demo_rules =
     [demo_step ''coleta'' ''evidence_request'' [] [(''kind'', JStr ''fixed_day''), (''day'', JInt 5), (''month_offset'', JInt 1)],
      demo_step ''das'' ''task'' [''coleta''] [(''kind'', JStr ''period_end_offset''), (''days'', JInt 20)]]"

definition demo_practice :: practice where
  "demo_practice =
     \<lparr>pr_authz = demo_authz\<lparr>ad_capabilities := [VIEW_ASSIGNED, VIEW_ALL, CYCLES_OPERATE, CYCLES_REVIEW],
        ad_role_grants := map (\<lambda>slug. demo_grant OWNER slug FULL) [VIEW_ASSIGNED, VIEW_ALL, CYCLES_OPERATE, CYCLES_REVIEW]\<rparr>,
      pr_flags = \<lparr>fs_stash = None, fs_cache = None, fs_rows = [(1, [''cycles_r1''])], fs_disabled = []\<rparr>,
      pr_profiles = [],
      pr_engagements = [\<lparr>en_id = 51, en_tenant = 1, en_client = 11, en_service_kind = ''mei_mensal'',
        en_starts_on = (Date 2026 1 1), en_ends_on = None, en_responsible = Some 1\<rparr>],
      pr_playbooks = [],
      pr_versions = [\<lparr>pv_id = 61, pv_tenant = 1, pv_playbook = 60, pv_number = 1, pv_state = PUBLISHED,
        pv_published_at = Some 0, pv_published_by = Some 1, pv_applies_to = Scope_Object [], pv_version = 2\<rparr>],
      pr_steps = [\<lparr>ps_tenant = 1, ps_version = 61, ps_position = 1, ps_spec = demo_rules ! 0\<rparr>,
        \<lparr>ps_tenant = 1, ps_version = 61, ps_position = 2, ps_spec = demo_rules ! 1\<rparr>],
      pr_obligation_types = [], pr_obligations = [], pr_cycles = [], pr_tasks = [], pr_notes = [], pr_cycle_events = [],
      pr_executions = [], pr_messages = [], pr_audit = [], pr_next = 100\<rparr>"

definition demo_open :: cycle_command where
  "demo_open = Open (Some (demo_account 1)) 51 (Date 2026 5 1) 61 ''k''"

fun run_commands :: "cycle_command list \<Rightarrow> practice \<Rightarrow> practice res" where
  "run_commands [] s = Inr s"
| "run_commands (cmd # cmds) s = res_bind (run_command id demo_ctx 0 cmd s) (run_commands cmds)"

lemma run_commands_history: "cycle_history id s0 s \<Longrightarrow> run_commands cmds s = Inr s' \<Longrightarrow> cycle_history id s0 s'"
  by (induction cmds arbitrary: s) (auto simp: res_bind_eq_Inr dest: command)

definition demo_commands :: "cycle_command list" where
  "demo_commands =
     [demo_open, Advance (demo_account 1) 101 TK_IN_PROGRESS 1 '''', Advance (demo_account 1) 101 TK_SUBMITTED 2 '''',
      Advance (demo_account 1) 101 TK_ACCEPTED 3 '''']"

definition after :: "cycle_command list \<Rightarrow> practice" where
  "after cmds = (case run_commands cmds demo_practice of Inr s \<Rightarrow> s | Inl _ \<Rightarrow> demo_practice)"

definition demo_task :: "practice \<Rightarrow> int \<Rightarrow> cycle_task" where
  "demo_task s i = the (find (\<lambda>t. ct_id t = i) (pr_tasks s))"

definition ran :: "'a res \<Rightarrow> bool" where
  "ran r = (case r of Inr _ \<Rightarrow> True | Inl _ \<Rightarrow> False)"

lemma demo_sound: "cycles_sound demo_practice"
  by (simp add: cycles_sound_def rows_ok_def demo_practice_def demo_rules_def demo_step_def)

lemma demo_history:
  assumes "ran (run_commands cmds demo_practice)"
  shows "cycle_history id demo_practice (after cmds)"
proof -
  obtain s where "run_commands cmds demo_practice = Inr s"
    using assms by (auto simp: ran_def split: sum.splits)
  then show ?thesis using run_commands_history[OF start] by (simp add: after_def)
qed

definition demo_cycle :: "practice \<Rightarrow> service_cycle" where
  "demo_cycle s = the (find (\<lambda>c. cy_id c = 100) (pr_cycles s))"

lemma find_the: "\<exists>x \<in> set xs. P x \<Longrightarrow> the (find P xs) \<in> set xs \<and> P (the (find P xs))"
  by (induction xs) auto

lemma ran_Inr: "ran x \<Longrightarrow> x = Inr (fst (projr x), snd (projr x))"
  by (simp add: ran_def split: sum.splits)

lemma demo_cycle_in:
  assumes "list_ex (\<lambda>c. cy_id c = 100) (pr_cycles s)"
  shows "demo_cycle s \<in> set (pr_cycles s)" "cy_id (demo_cycle s) = 100"
  using find_the[of "pr_cycles s" "\<lambda>c. cy_id c = 100"] assms by (simp_all add: demo_cycle_def list_ex_iff)

lemma demo_task_in:
  assumes "list_ex (\<lambda>t. ct_id t = i) (pr_tasks s)"
  shows "demo_task s i \<in> set (pr_tasks s)" "ct_id (demo_task s i) = i"
  using find_the[of "pr_tasks s" "\<lambda>t. ct_id t = i"] assms by (simp_all add: demo_task_def list_ex_iff)

text \<open>One evaluation of the history gives every fact the witnesses need of it.\<close>

definition demo_facts :: "practice \<Rightarrow> bool" where
  "demo_facts s =
     (list_ex (\<lambda>c. cy_id c = 100) (pr_cycles s) \<and>
      ran (transition_task demo_ctx 0 (demo_account 1) 102 TK_IN_PROGRESS 2 '''' s) \<and>
      list_ex (\<lambda>t. ct_id t = 101) (pr_tasks s) \<and> list_ex (\<lambda>t. ct_id t = 102) (pr_tasks s) \<and>
      ct_state (demo_task s 102) \<noteq> TK_SUBMITTED \<and> ct_cycle (demo_task s 102) = 100 \<and> ct_cycle (demo_task s 101) = 100 \<and>
      ct_step_key (demo_task s 102) = ''das'' \<and> ct_step_key (demo_task s 101) = ''coleta'' \<and>
      cy_playbook_version (demo_cycle s) = 61 \<and> enabled_steps s 61 = demo_rules \<and>
      list_all (\<lambda>t. ct_state t \<noteq> TK_CANCELLED) (tasks_of s 100) \<and>
      list_ex (\<lambda>t. ct_state t \<notin> {TK_ACCEPTED, TK_WAIVED}) (tasks_of s 100))"

lemma demo_facts: "case run_commands demo_commands demo_practice of Inr s \<Rightarrow> demo_facts s | Inl _ \<Rightarrow> False"
  by code_simp

lemma demo_ran: "ran (run_commands demo_commands demo_practice)"
  using demo_facts by (simp add: ran_def split: sum.splits)

lemma demo_after: "demo_facts (after demo_commands)"
  using demo_facts by (simp add: after_def split: sum.splits)

lemma demo_cycle_present: "list_ex (\<lambda>c. cy_id c = 100) (pr_cycles (after demo_commands))"
  and demo_start: "ran (transition_task demo_ctx 0 (demo_account 1) 102 TK_IN_PROGRESS 2 '''' (after demo_commands))"
  and demo_tasks_present: "list_ex (\<lambda>t. ct_id t = 101) (pr_tasks (after demo_commands))"
    "list_ex (\<lambda>t. ct_id t = 102) (pr_tasks (after demo_commands))"
  and demo_task_facts: "ct_state (demo_task (after demo_commands) 102) \<noteq> TK_SUBMITTED"
    "ct_cycle (demo_task (after demo_commands) 102) = 100" "ct_cycle (demo_task (after demo_commands) 101) = 100"
    "ct_step_key (demo_task (after demo_commands) 102) = ''das''"
    "ct_step_key (demo_task (after demo_commands) 101) = ''coleta''"
    "cy_playbook_version (demo_cycle (after demo_commands)) = 61"
  and demo_pinned: "enabled_steps (after demo_commands) 61 = demo_rules"
  and demo_none_cancelled: "list_all (\<lambda>t. ct_state t \<noteq> TK_CANCELLED) (tasks_of (after demo_commands) 100)"
    "list_ex (\<lambda>t. ct_state t \<notin> {TK_ACCEPTED, TK_WAIVED}) (tasks_of (after demo_commands) 100)"
  using demo_after unfolding demo_facts_def by blast+

theorem tasks_mirror_the_pinned_steps_witness:
  "distinct (map ct_step_key (tasks_of (after demo_commands) (cy_id (demo_cycle (after demo_commands))))) \<and>
   ct_step_key ` set (tasks_of (after demo_commands) (cy_id (demo_cycle (after demo_commands)))) =
     ss_key ` set (enabled_steps (after demo_commands) (cy_playbook_version (demo_cycle (after demo_commands))))"
  by (rule tasks_mirror_the_pinned_steps[OF demo_sound demo_history[OF demo_ran]])
    (rule demo_cycle_in[OF demo_cycle_present])

theorem work_starts_behind_dependencies_witness:
  "ct_state (demo_task (after demo_commands) 101) \<in> {TK_ACCEPTED, TK_WAIVED}"
proof (rule work_starts_behind_dependencies[OF demo_sound demo_history[OF demo_ran] ran_Inr[OF demo_start],
      of "demo_task (after demo_commands) 102" "demo_cycle (after demo_commands)" "demo_rules ! 1"])
  show "demo_task (after demo_commands) 102 \<in> set (pr_tasks (after demo_commands))"
    "ct_id (demo_task (after demo_commands) 102) = 102"
    by (rule demo_task_in[OF demo_tasks_present(2)])+
  show "demo_cycle (after demo_commands) \<in> set (pr_cycles (after demo_commands))"
    "cy_id (demo_cycle (after demo_commands)) = ct_cycle (demo_task (after demo_commands) 102)"
    using demo_cycle_in[OF demo_cycle_present] by (simp_all add: demo_task_facts)
  show "demo_task (after demo_commands) 101 \<in> set (tasks_of (after demo_commands) (cy_id (demo_cycle (after demo_commands))))"
    using demo_task_in(1)[OF demo_tasks_present(1)] demo_cycle_in(2)[OF demo_cycle_present]
    by (simp add: tasks_of_def demo_task_facts)
qed (simp_all add: demo_task_facts demo_pinned, simp_all add: demo_rules_def demo_step_def)

definition demo_cancelled :: "cycle_command list" where
  "demo_cancelled = [demo_open, Move (demo_account 1) 100 CY_CANCELLED 1 None]"

lemma demo_cancelled_ran: "ran (run_commands demo_cancelled demo_practice)"
  by code_simp

lemma demo_noted: "ran (run_commands [Note (demo_account 1) 100 ''nota'' 2] (after demo_cancelled))"
  by code_simp

lemma demo_cancelled_present:
  "list_ex (\<lambda>c. cy_id c = 100) (pr_cycles (after demo_cancelled))"
  "cy_state (demo_cycle (after demo_cancelled)) = CY_CANCELLED"
  by code_simp+


lemma demo_open_ran:
  "ran (open_cycle id demo_ctx 0 (Some (demo_account 1)) 51 (Date 2026 5 1) 61 ''k'' demo_practice)"
  by code_simp

theorem opening_is_idempotent_witness:
  "open_cycle id demo_ctx 0 (Some (demo_account 1)) 51 (Date 2026 5 1) 61 ''other''
     (snd (projr (open_cycle id demo_ctx 0 (Some (demo_account 1)) 51 (Date 2026 5 1) 61 ''k'' demo_practice))) =
   Inr ((fst (projr (open_cycle id demo_ctx 0 (Some (demo_account 1)) 51 (Date 2026 5 1) 61 ''k'' demo_practice)))
       \<lparr>cf_created := False\<rparr>,
     snd (projr (open_cycle id demo_ctx 0 (Some (demo_account 1)) 51 (Date 2026 5 1) 61 ''k'' demo_practice)))"
  by (rule opening_is_idempotent[OF ran_Inr[OF demo_open_ran]])

lemma demo_moved: "ran (transition_cycle demo_ctx 0 (demo_account 1) 100 CY_ACTIVE 1 None (after [demo_open]))"
  by code_simp

lemma demo_seen: "ran (load_cycle demo_ctx 0 (after [demo_open]) (demo_account 1) 100)"
  by code_simp

theorem stale_cycle_writer_conflicts_witness:
  "transition_cycle demo_ctx 0 (demo_account 1) 100 CY_CANCELLED 1 None
     (snd (projr (transition_cycle demo_ctx 0 (demo_account 1) 100 CY_ACTIVE 1 None (after [demo_open])))) =
   Inl VersionConflict"
proof -
  obtain c where "load_cycle demo_ctx 0 (after [demo_open]) (demo_account 1) 100 = Inr c"
    using demo_seen by (auto simp: ran_def split: sum.splits)
  then show ?thesis by (rule stale_cycle_writer_conflicts[OF ran_Inr[OF demo_moved]])
qed

end
