(* ===== verification/Playbook_Services.thy ===== *)
theory Playbook_Services
  imports Cycle_Properties
begin

text \<open>
  The playbook lifecycle, \<^verbatim>\<open>apps/cycles/services/playbooks.py\<close>, and the targeting preview of
  \<^verbatim>\<open>apps/cycles/targeting.py\<close>: creating, cloning, drafting, editing, reordering, previewing,
  publishing and retiring.  Every command runs in the firm's tenant context under the lock of
  the playbook row, as one transaction over the practice.
\<close>

section \<open>Targeting\<close>

definition covering_profiles :: "practice \<Rightarrow> int \<Rightarrow> int list \<Rightarrow> date \<Rightarrow> tax_profile list" where
  "covering_profiles s tid ids on =
     sort_key tp_client (order_by_desc tp_from
       (filter (\<lambda>p. tp_tenant p = tid \<and> tp_client p \<in> set ids \<and> claim_covers on p) (pr_profiles s)))"

definition regimes_at :: "practice \<Rightarrow> int \<Rightarrow> int list \<Rightarrow> date \<Rightarrow> (int \<times> tax_regime) list" where
  "regimes_at s tid ids on =
     (let rows = covering_profiles s tid ids on in
      map (\<lambda>cid. (cid, case find (\<lambda>p. tp_client p = cid) rows of
                          None \<Rightarrow> UNKNOWN | Some p \<Rightarrow> tp_regime p)) ids)"

definition service_kinds_at :: "practice \<Rightarrow> int \<Rightarrow> int list \<Rightarrow> date \<Rightarrow> (int \<times> string list) list" where
  "service_kinds_at s tid ids on =
     (let rows = filter (\<lambda>e. en_tenant e = tid \<and> en_client e \<in> set ids \<and>
                             in_force (en_starts_on e) (en_ends_on e) on) (pr_engagements s) in
      map (\<lambda>cid. (cid, map en_service_kind (filter (\<lambda>e. en_client e = cid) rows))) ids)"

definition matching_clients :: "practice \<Rightarrow> int \<Rightarrow> raw_scope \<Rightarrow> date \<Rightarrow> int list" where
  "matching_clients s tid applies on =
     (let scope = parse_applies_to applies;
          ids = sort (map c_id (filter (\<lambda>c. c_tenant c = tid \<and> c_status c = CL_ACTIVE)
                                  (ad_clients (pr_authz s))));
          regimes = regimes_at s tid ids on;
          kinds = service_kinds_at s tid ids on
      in filter (\<lambda>cid.
           (at_regimes scope = [] \<or>
            (case map_of regimes cid of None \<Rightarrow> False | Some r \<Rightarrow> regime_slug r \<in> set (at_regimes scope))) \<and>
           (at_service_kinds scope = [] \<or>
            (case map_of kinds cid of
               None \<Rightarrow> False | Some ks \<Rightarrow> list_ex (\<lambda>k. k \<in> set (at_service_kinds scope)) ks))) ids)"

section \<open>Guards and locks\<close>

definition PLAYBOOK_GATE :: string where "PLAYBOOK_GATE = ''playbooks.manage''"

text \<open>A refused draft, as the exception it raises.\<close>

definition validated :: "'a drafted \<Rightarrow> 'a res" where
  "validated r =
     (case r of Inl (Problems _) \<Rightarrow> Inl PlaybookInvalid
      | Inl (Dependency_Cycle keys) \<Rightarrow> Inl (DagCycle keys)
      | Inr x \<Rightarrow> Inr x)"

definition in_tenant :: "authz_ctx \<Rightarrow> int \<Rightarrow> authz_ctx" where
  "in_tenant ctx tid = ctx\<lparr>ax_tenant := Some tid\<rparr>"

definition require_manager ::
  "authz_ctx \<Rightarrow> int \<Rightarrow> practice \<Rightarrow> account option \<Rightarrow> int \<Rightarrow> bool \<Rightarrow> unit res" where
  "require_manager ctx now s actor tid system_row =
     (case actor of
        None \<Rightarrow> require system_row ImmutableVersion
      | Some u \<Rightarrow>
          res_bind (can (in_tenant ctx tid) (pr_authz s) now (Account u) PLAYBOOK_GATE None (Some tid)) (\<lambda>ok.
          res_bind (require ok PermissionDenied) (\<lambda>_.
            require (\<not> system_row) PermissionDenied)))"

definition lock_playbook :: "practice \<Rightarrow> int \<Rightarrow> int \<Rightarrow> playbook res" where
  "lock_playbook s tid pid =
     the_row (find (\<lambda>p. pb_tenant p = tid \<and> pb_id p = pid) (pr_playbooks s)) DoesNotExist"

definition versions_of :: "practice \<Rightarrow> int \<Rightarrow> playbook_version list" where
  "versions_of s pid = filter (\<lambda>v. pv_playbook v = pid) (pr_versions s)"

definition latest_version :: "practice \<Rightarrow> int \<Rightarrow> playbook_version option" where
  "latest_version s pid = first_row (order_by_desc pv_number (versions_of s pid))"

definition latest_published :: "practice \<Rightarrow> int \<Rightarrow> playbook_version option" where
  "latest_published s pid =
     first_row (order_by_desc pv_number (filter (\<lambda>v. pv_state v = PUBLISHED) (versions_of s pid)))"

definition locked_version :: "practice \<Rightarrow> playbook \<Rightarrow> int \<Rightarrow> int \<Rightarrow> playbook_version res" where
  "locked_version s p number expected =
     res_bind (the_row (find (\<lambda>v. pv_number v = number) (versions_of s (pb_id p))) DoesNotExist) (\<lambda>v.
     res_bind (check_version (pv_version v) expected) (\<lambda>_. Inr v))"

section \<open>Writes\<close>

text \<open>
  The steps of a draft are deleted and written again in order; a key occurs once.  A text longer
  than its column is refused by the database, a \<^verbatim>\<open>DataError\<close>.
\<close>

definition KEY_MAX_LENGTH :: nat where "KEY_MAX_LENGTH = 64"
definition LABEL_MAX_LENGTH :: nat where "LABEL_MAX_LENGTH = 120"

definition step_fits :: "step_spec \<Rightarrow> bool" where
  "step_fits spec =
     (length (ss_key spec) \<le> KEY_MAX_LENGTH \<and> length (ss_label spec) \<le> LABEL_MAX_LENGTH \<and>
      length (ss_client_label spec) \<le> LABEL_MAX_LENGTH)"

definition replace_steps :: "playbook_version \<Rightarrow> step_spec list \<Rightarrow> practice \<Rightarrow> practice res" where
  "replace_steps v specs s =
     (if \<not> list_all step_fits specs then Inl DataError
      else if \<not> distinct (map ss_key specs) then Inl IntegrityError
      else Inr (s\<lparr>pr_steps := filter (\<lambda>st. ps_version st \<noteq> pv_id v) (pr_steps s) @
        map (\<lambda>(i, spec). \<lparr>ps_tenant = pv_tenant v, ps_version = pv_id v, ps_position = i, ps_spec = spec\<rparr>)
          (List.enumerate 0 specs)\<rparr>))"

definition record_event :: "string \<Rightarrow> account option \<Rightarrow> int \<Rightarrow> practice \<Rightarrow> practice" where
  "record_event action actor obj s =
     s\<lparr>pr_audit := pr_audit s @ [(action, case actor of None \<Rightarrow> None | Some u \<Rightarrow> Some (u_id u), obj)]\<rparr>"

definition insert_playbook :: "int \<Rightarrow> string \<Rightarrow> string \<Rightarrow> (practice, playbook) tx" where
  "insert_playbook tid key name s =
     (let p = \<lparr>pb_id = pr_next s, pb_tenant = tid, pb_key = key, pb_name = name, pb_is_system = False\<rparr> in
      if KEY_MAX_LENGTH < length key \<or> LABEL_MAX_LENGTH < length name then Inl DataError
      else if list_ex (\<lambda>q. pb_tenant q = tid \<and> pb_key q = key) (pr_playbooks s) then Inl IntegrityError
      else Inr (p, s\<lparr>pr_playbooks := pr_playbooks s @ [p], pr_next := pr_next s + 1\<rparr>))"

definition insert_draft :: "int \<Rightarrow> int \<Rightarrow> int \<Rightarrow> raw_scope \<Rightarrow> (practice, playbook_version) tx" where
  "insert_draft tid pid number scope s =
     (let v = \<lparr>pv_id = pr_next s, pv_tenant = tid, pv_playbook = pid, pv_number = number, pv_state = DRAFT,
               pv_published_at = None, pv_published_by = None, pv_applies_to = scope, pv_version = 1\<rparr> in
      if list_ex (\<lambda>w. pv_tenant w = tid \<and> pv_playbook w = pid \<and> pv_number w = number) (pr_versions s)
      then Inl IntegrityError
      else Inr (v, s\<lparr>pr_versions := pr_versions s @ [v], pr_next := pr_next s + 1\<rparr>))"

definition put_version :: "playbook_version \<Rightarrow> practice \<Rightarrow> practice" where
  "put_version v s = s\<lparr>pr_versions := row_put pv_id v (pr_versions s)\<rparr>"

section \<open>Creating and cloning\<close>

text \<open>\<^verbatim>\<open>applies_to or {}\<close>: no scope and an empty one are the same to the validator.\<close>

definition create_playbook ::
  "authz_ctx \<Rightarrow> int \<Rightarrow> account option \<Rightarrow> int \<Rightarrow> string \<Rightarrow> string \<Rightarrow> raw_scope \<Rightarrow> step_spec list \<Rightarrow>
   (practice, playbook) tx" where
  "create_playbook ctx now actor tid key name scope steps s =
     (if actor = None then Inl PermissionDenied
      else
        res_bind (require_manager ctx now s actor tid False) (\<lambda>_.
        res_bind (insert_playbook tid key name s) (\<lambda>(p, s1).
        res_bind (validated (validate_draft scope steps (pr_obligation_types s1) False)) (\<lambda>normalized.
        res_bind (insert_draft tid (pb_id p) 1 (Scope_Object normalized) s1) (\<lambda>(draft, s2).
        res_bind (if steps = [] then Inr s2 else replace_steps draft steps s2) (\<lambda>s3.
          Inr (p, record_event ''playbook_updated'' actor (pb_id p) s3)))))))"

text \<open>
  The clone's key is the source's, or the first unused \<^verbatim>\<open>key-2\<close>, \<^verbatim>\<open>key-3\<close> and so on; the counter
  may pass over every existing key, so the loop is a partial function.
\<close>

definition numbered_key :: "string \<Rightarrow> nat \<Rightarrow> string" where
  "numbered_key base n = base @ ''-'' @ str_nat n"

partial_function (option) free_counter :: "string list \<Rightarrow> string \<Rightarrow> nat \<Rightarrow> string option" where
  "free_counter existing base n =
     (if numbered_key base n \<in> set existing then free_counter existing base (Suc n)
      else Some (numbered_key base n))"

definition starts_with :: "string \<Rightarrow> string \<Rightarrow> bool" where
  "starts_with p k = (take (length p) k = p)"

definition free_clone_key :: "practice \<Rightarrow> int \<Rightarrow> string \<Rightarrow> string option" where
  "free_clone_key s tid base =
     (let existing = map pb_key (filter (\<lambda>p. pb_tenant p = tid \<and> starts_with base (pb_key p)) (pr_playbooks s)) in
      if base \<notin> set existing then Some base else free_counter existing base 2)"

definition clone_suffix :: string where
  "clone_suffix = '' (c'' @ [CHR 0xF3] @ ''pia)''"

text \<open>\<open>None\<close> stands for a key loop that never answers; the claim below is that it does.\<close>

definition clone_playbook ::
  "authz_ctx \<Rightarrow> int \<Rightarrow> account \<Rightarrow> int \<Rightarrow> int \<Rightarrow> practice \<Rightarrow> (playbook \<times> practice) res option" where
  "clone_playbook ctx now actor tid pid s =
     (case lock_playbook s tid pid of
        Inl e \<Rightarrow> Some (Inl e)
      | Inr source \<Rightarrow>
          (case require_manager ctx now s (Some actor) tid False of
             Inl e \<Rightarrow> Some (Inl e)
           | Inr _ \<Rightarrow>
               (let base = (case latest_published s (pb_id source) of
                              Some v \<Rightarrow> Some v | None \<Rightarrow> latest_version s (pb_id source)) in
                case free_clone_key s tid (pb_key source) of
                  None \<Rightarrow> None
                | Some key \<Rightarrow> Some (
                    res_bind (insert_playbook tid key (take 120 (pb_name source @ clone_suffix)) s) (\<lambda>(clone, s1).
                    res_bind (insert_draft tid (pb_id clone) 1
                        (case base of None \<Rightarrow> Scope_Object [] | Some v \<Rightarrow> pv_applies_to v) s1) (\<lambda>(draft, s2).
                    res_bind (case base of None \<Rightarrow> Inr s2
                        | Some v \<Rightarrow> replace_steps draft (version_steps s2 (pv_id v)) s2) (\<lambda>s3.
                      Inr (clone, record_event ''playbook_updated'' (Some actor) (pb_id clone) s3))))))))"

section \<open>Drafts\<close>

definition create_draft_version ::
  "authz_ctx \<Rightarrow> int \<Rightarrow> account option \<Rightarrow> int \<Rightarrow> int \<Rightarrow> (practice, playbook_version) tx" where
  "create_draft_version ctx now actor tid pid s =
     res_bind (lock_playbook s tid pid) (\<lambda>p.
     res_bind (require_manager ctx now s actor tid (pb_is_system p)) (\<lambda>_.
       (let latest = latest_version s (pb_id p); base = latest_published s (pb_id p) in
        if (case latest of None \<Rightarrow> False | Some v \<Rightarrow> pv_state v = DRAFT) then Inl IllegalTransition
        else
          res_bind (insert_draft tid (pb_id p) (case latest of None \<Rightarrow> 1 | Some v \<Rightarrow> pv_number v + 1)
              (case base of None \<Rightarrow> Scope_Object [] | Some v \<Rightarrow> pv_applies_to v) s) (\<lambda>(draft, s1).
          res_bind (case base of None \<Rightarrow> Inr s1
              | Some v \<Rightarrow> replace_steps draft (version_steps s1 (pv_id v)) s1) (\<lambda>s2.
            Inr (draft, record_event ''playbook_updated'' actor (pv_id draft) s2))))))"

definition rename_playbook :: "string option \<Rightarrow> playbook \<Rightarrow> practice \<Rightarrow> practice res" where
  "rename_playbook name p s =
     (case name of
        None \<Rightarrow> Inr s
      | Some n \<Rightarrow>
          if strip n = [] then Inr s
          else if LABEL_MAX_LENGTH < length (strip n) then Inl DataError
          else Inr (s\<lparr>pr_playbooks := row_put pb_id (p\<lparr>pb_name := strip n\<rparr>) (pr_playbooks s)\<rparr>))"

definition update_draft ::
  "authz_ctx \<Rightarrow> int \<Rightarrow> account option \<Rightarrow> int \<Rightarrow> int \<Rightarrow> int \<Rightarrow> int \<Rightarrow> step_spec list \<Rightarrow> raw_scope \<Rightarrow>
   string option \<Rightarrow> (practice, playbook_version) tx" where
  "update_draft ctx now actor tid pid number expected steps scope name s =
     res_bind (lock_playbook s tid pid) (\<lambda>p.
     res_bind (require_manager ctx now s actor tid (pb_is_system p)) (\<lambda>_.
     res_bind (locked_version s p number expected) (\<lambda>v.
     if pv_state v \<noteq> DRAFT then Inl ImmutableVersion
     else
       res_bind (validated (validate_draft (if scope = Scope_None then pv_applies_to v else scope) steps
                   (pr_obligation_types s) False)) (\<lambda>normalized.
       res_bind (rename_playbook name p s) (\<lambda>s0.
       res_bind (replace_steps v steps s0) (\<lambda>s1.
         (let v' = v\<lparr>pv_applies_to := Scope_Object normalized, pv_version := pv_version v + 1\<rparr>
          in Inr (v', record_event ''playbook_updated'' actor (pv_id v) (put_version v' s1)))))))))"

fun index_of :: "string \<Rightarrow> step_spec list \<Rightarrow> nat option" where
  "index_of key [] = None"
| "index_of key (st # sts) = (if ss_key st = key then Some 0 else map_option Suc (index_of key sts))"

text \<open>The neighbour a move exchanges the step with, if the direction and the bounds allow one.\<close>

definition move_target :: "string \<Rightarrow> nat \<Rightarrow> nat \<Rightarrow> nat option" where
  "move_target direction index n =
     (if direction = ''up'' then (if index = 0 then None else Some (index - 1))
      else if direction = ''down'' then (if Suc index < n then Some (Suc index) else None)
      else None)"

definition swapped :: "'a list \<Rightarrow> nat \<Rightarrow> nat \<Rightarrow> 'a list" where
  "swapped xs i j = xs[i := xs ! j, j := xs ! i]"

definition move_step ::
  "authz_ctx \<Rightarrow> int \<Rightarrow> account option \<Rightarrow> int \<Rightarrow> int \<Rightarrow> int \<Rightarrow> int \<Rightarrow> string \<Rightarrow> string \<Rightarrow>
   (practice, playbook_version) tx" where
  "move_step ctx now actor tid pid number expected key direction s =
     res_bind (lock_playbook s tid pid) (\<lambda>p.
     res_bind (require_manager ctx now s actor tid (pb_is_system p)) (\<lambda>_.
     res_bind (locked_version s p number expected) (\<lambda>v.
     if pv_state v \<noteq> DRAFT then Inl ImmutableVersion
     else
       (let ordered = version_steps s (pv_id v) in
        res_bind (the_row (index_of key ordered) PlaybookInvalid) (\<lambda>index.
        res_bind (the_row (move_target direction index (length ordered)) PlaybookInvalid) (\<lambda>target.
        res_bind (replace_steps v (swapped ordered index target) s) (\<lambda>s1.
          (let v' = v\<lparr>pv_version := pv_version v + 1\<rparr>
           in Inr (v', record_event ''playbook_updated'' actor (pv_id v) (put_version v' s1))))))))))"

section \<open>Publishing and retiring\<close>

definition OPEN_CYCLE_STATES :: "cycle_state list" where
  "OPEN_CYCLE_STATES =
     [CY_PLANNED, CY_ACTIVE, CY_WAITING, CY_REVIEW, CY_APPROVAL, CY_EXECUTION, CY_BLOCKED]"

record publish_preview =
  pp_period_start :: date
  pp_matching_clients :: nat
  pp_client_ids :: "int list"
  pp_pinned_open_cycles :: nat

definition pinned_cycles :: "practice \<Rightarrow> int \<Rightarrow> int \<Rightarrow> int \<Rightarrow> nat" where
  "pinned_cycles s tid pid number =
     length (filter (\<lambda>c. cy_tenant c = tid \<and> cy_state c \<in> set OPEN_CYCLE_STATES \<and>
       list_ex (\<lambda>v. pv_id v = cy_playbook_version c \<and> pv_playbook v = pid \<and> pv_number v < number) (pr_versions s))
       (pr_cycles s))"

definition compute_preview ::
  "practice \<Rightarrow> int \<Rightarrow> playbook \<Rightarrow> playbook_version \<Rightarrow> raw_scope \<Rightarrow> date \<Rightarrow> publish_preview res" where
  "compute_preview s tid p v normalized today =
     res_bind (next_period_start today) (\<lambda>start.
       (let matched = matching_clients s tid normalized start in
        Inr \<lparr>pp_period_start = start, pp_matching_clients = length matched,
             pp_client_ids = take 20 matched,
             pp_pinned_open_cycles = pinned_cycles s tid (pb_id p) (pv_number v)\<rparr>))"

definition validate_version :: "practice \<Rightarrow> playbook_version \<Rightarrow> raw_scope res" where
  "validate_version s v =
     res_bind (validated (validate_draft (pv_applies_to v) (version_steps s (pv_id v)) (pr_obligation_types s) True))
       (\<lambda>normalized. Inr (Scope_Object normalized))"

definition preview_publish ::
  "authz_ctx \<Rightarrow> int \<Rightarrow> account option \<Rightarrow> int \<Rightarrow> int \<Rightarrow> int \<Rightarrow> date \<Rightarrow> practice \<Rightarrow> publish_preview res" where
  "preview_publish ctx now actor tid pid number today s =
     res_bind (lock_playbook s tid pid) (\<lambda>p.
     res_bind (require_manager ctx now s actor tid (pb_is_system p)) (\<lambda>_.
     res_bind (the_row (find (\<lambda>v. pv_number v = number) (versions_of s (pb_id p))) DoesNotExist) (\<lambda>v.
     res_bind (require (pv_state v = DRAFT) IllegalTransition) (\<lambda>_.
     res_bind (validate_version s v) (\<lambda>normalized.
       compute_preview s tid p v normalized today)))))"

definition publish_version ::
  "authz_ctx \<Rightarrow> int \<Rightarrow> account option \<Rightarrow> int \<Rightarrow> int \<Rightarrow> int \<Rightarrow> int \<Rightarrow> date \<Rightarrow>
   (practice, playbook_version \<times> publish_preview) tx" where
  "publish_version ctx now actor tid pid number expected today s =
     res_bind (lock_playbook s tid pid) (\<lambda>p.
     res_bind (require_manager ctx now s actor tid (pb_is_system p)) (\<lambda>_.
     res_bind (locked_version s p number expected) (\<lambda>v.
     res_bind (require (pv_state v = DRAFT) IllegalTransition) (\<lambda>_.
     res_bind (validate_version s v) (\<lambda>normalized.
     res_bind (compute_preview s tid p v normalized today) (\<lambda>preview.
       (let v' = v\<lparr>pv_state := PUBLISHED, pv_published_at := Some now,
                    pv_published_by := (case actor of None \<Rightarrow> None | Some u \<Rightarrow> Some (u_id u)),
                    pv_applies_to := normalized, pv_version := pv_version v + 1\<rparr>
        in Inr ((v', preview), record_event ''playbook_published'' actor (pv_id v) (put_version v' s)))))))))"

definition retire_version ::
  "authz_ctx \<Rightarrow> int \<Rightarrow> account option \<Rightarrow> int \<Rightarrow> int \<Rightarrow> int \<Rightarrow> int \<Rightarrow> (practice, playbook_version) tx" where
  "retire_version ctx now actor tid pid number expected s =
     res_bind (lock_playbook s tid pid) (\<lambda>p.
     res_bind (require_manager ctx now s actor tid (pb_is_system p)) (\<lambda>_.
     res_bind (locked_version s p number expected) (\<lambda>v.
     res_bind (require (pv_state v = PUBLISHED) IllegalTransition) (\<lambda>_.
       (let v' = v\<lparr>pv_state := RETIRED, pv_version := pv_version v + 1\<rparr>
        in Inr (v', record_event ''playbook_retired'' actor (pv_id v) (put_version v' s)))))))"

end
