(* ===== verification/Playbook_Guarantees.thy ===== *)
theory Playbook_Guarantees
  imports Playbook_Services
begin

text \<open>
  What the playbook lifecycle promises the cycles that pin its versions: a version that has left
  draft never changes its steps or its scope, a published graph is acyclic, so no cycle opened
  from it can deadlock, and there is at most one draft per playbook.  The proofs describe every
  command by the one version it writes.
\<close>

section \<open>Writing one version\<close>

definition authoring_ok :: "practice \<Rightarrow> bool" where
  "authoring_ok s =
     (distinct (map (\<lambda>st. (ps_version st, ss_key (ps_spec st))) (pr_steps s)) \<and>
      (\<forall>st \<in> set (pr_steps s). ps_version st < pr_next s \<and> step_fits (ps_spec st)) \<and>
      (\<forall>p \<in> set (pr_playbooks s). pb_id p < pr_next s))"

lemma replace_steps_effect:
  assumes "replace_steps v specs s = Inr s'"
  shows "s' = s\<lparr>pr_steps := pr_steps s'\<rparr>" "version_steps s' (pv_id v) = specs"
    "i \<noteq> pv_id v \<Longrightarrow> version_steps s' i = version_steps s i"
    "authoring_ok s \<Longrightarrow> pv_id v < pr_next s \<Longrightarrow> authoring_ok s'"
proof -
  let ?new = "map (\<lambda>(i, spec). \<lparr>ps_tenant = pv_tenant v, ps_version = pv_id v, ps_position = i, ps_spec = spec\<rparr>)
      (List.enumerate 0 specs)"
  have d: "distinct (map ss_key specs)" and fits: "\<forall>x \<in> set specs. step_fits x"
    and s': "s' = s\<lparr>pr_steps := filter (\<lambda>st. ps_version st \<noteq> pv_id v) (pr_steps s) @ ?new\<rparr>"
    using assms by (auto simp: replace_steps_def list_all_iff split: if_splits)
  show "s' = s\<lparr>pr_steps := pr_steps s'\<rparr>" by (simp add: s')
  have mine: "filter (\<lambda>st. ps_version st = pv_id v) ?new = ?new"
    "i \<noteq> pv_id v \<Longrightarrow> filter (\<lambda>st. ps_version st = i) ?new = []" for i
    by (auto simp: filter_id_conv filter_empty_conv)
  have pos: "map ps_position ?new = [0..<length specs]" "map ps_spec ?new = specs"
    by (simp_all add: comp_def case_prod_beta enumerate_eq_zip)
  have "sort_key ps_position ?new = ?new" by (rule sort_key_id_if_sorted) (simp only: pos sorted_upt)
  then show "version_steps s' (pv_id v) = specs"
    using mine(1) pos(2) by (simp add: version_steps_def s')
  show "i \<noteq> pv_id v \<Longrightarrow> version_steps s' i = version_steps s i"
  proof -
    assume i: "i \<noteq> pv_id v"
    have "filter (\<lambda>st. ps_version st \<noteq> pv_id v \<and> ps_version st = i) (pr_steps s) =
        filter (\<lambda>st. ps_version st = i) (pr_steps s)"
      using i by (intro filter_cong) auto
    then show ?thesis using mine(2)[OF i] by (simp add: version_steps_def s')
  qed
  assume ok: "authoring_ok s" and b: "pv_id v < pr_next s"
  have in_enumerate: "b \<in> set specs" if "(a, b) \<in> set (List.enumerate 0 specs)" for a b
    using that by (simp add: enumerate_eq_zip) (rule set_zip_rightD)
  have keys: "map (\<lambda>st. (ps_version st, ss_key (ps_spec st))) ?new = map (\<lambda>spec. (pv_id v, ss_key spec)) specs"
  proof -
    have "map (\<lambda>st. (ps_version st, ss_key (ps_spec st))) ?new = map (\<lambda>spec. (pv_id v, ss_key spec)) (map ps_spec ?new)"
      by (auto simp: comp_def)
    then show ?thesis unfolding pos(2) .
  qed
  show "authoring_ok s'"
    using ok b d keys fits unfolding authoring_ok_def s'
    by (auto simp: distinct_map distinct_filter inj_on_def dest: in_enumerate)
qed

text \<open>Identifiers, numbers and drafts of the versions table.\<close>

definition versions_ok :: "practice \<Rightarrow> bool" where
  "versions_ok s =
     (distinct (map pv_id (pr_versions s)) \<and> distinct (map (\<lambda>v. (pv_playbook v, pv_number v)) (pr_versions s)) \<and>
      (\<forall>v \<in> set (pr_versions s). pv_id v < pr_next s \<and> pv_playbook v < pr_next s) \<and>
      (\<forall>v \<in> set (pr_versions s). pv_state v = DRAFT \<longrightarrow>
         (\<forall>u \<in> set (pr_versions s). pv_playbook u = pv_playbook v \<longrightarrow> pv_number u \<le> pv_number v)))"

definition graph_of :: "practice \<Rightarrow> int \<Rightarrow> (string \<times> string) set" where
  "graph_of s vid = depends (step_edges (version_steps s vid))"

definition practice_sound :: "practice \<Rightarrow> bool" where
  "practice_sound s =
     (cycles_sound s \<and> authoring_ok s \<and> versions_ok s \<and>
      (\<forall>v \<in> set (pr_versions s). pv_state v \<noteq> DRAFT \<longrightarrow> acyclic (graph_of s (pv_id v))) \<and>
      (\<forall>c \<in> set (pr_cycles s). \<exists>v \<in> set (pr_versions s). pv_id v = cy_playbook_version c \<and> pv_state v \<noteq> DRAFT))"

text \<open>A draft appended with a fresh number, or an existing version moved along its life.\<close>

definition new_draft :: "practice \<Rightarrow> practice \<Rightarrow> playbook_version \<Rightarrow> bool" where
  "new_draft s s' w =
     (pr_versions s' = pr_versions s @ [w] \<and> pv_state w = DRAFT \<and> pr_next s \<le> pv_id w \<and> pv_id w < pr_next s' \<and>
      pv_playbook w < pr_next s' \<and>
      (\<forall>v \<in> set (pr_versions s). pv_playbook v = pv_playbook w \<longrightarrow> pv_state v \<noteq> DRAFT \<and> pv_number v < pv_number w))"

definition moved_on :: "practice \<Rightarrow> practice \<Rightarrow> playbook_version \<Rightarrow> playbook_version \<Rightarrow> bool" where
  "moved_on s s' v w =
     (v \<in> set (pr_versions s) \<and> pr_versions s' = row_put pv_id w (pr_versions s) \<and> pv_id w = pv_id v \<and>
      pv_playbook w = pv_playbook v \<and> pv_number w = pv_number v \<and>
      (pv_state v = DRAFT \<and> pv_state w = DRAFT \<or>
       version_steps s' (pv_id w) = version_steps s (pv_id w) \<and>
       (pv_state v = DRAFT \<and> pv_state w = PUBLISHED \<and> acyclic (graph_of s (pv_id w)) \<or>
        pv_state v = PUBLISHED \<and> pv_state w = RETIRED \<and> pv_applies_to w = pv_applies_to v)))"

definition writes_version :: "practice \<Rightarrow> practice \<Rightarrow> playbook_version \<Rightarrow> bool" where
  "writes_version s s' w =
     (pr_cycles s' = pr_cycles s \<and> pr_tasks s' = pr_tasks s \<and> pr_next s \<le> pr_next s' \<and> authoring_ok s' \<and>
      (\<forall>i. i \<noteq> pv_id w \<longrightarrow> version_steps s' i = version_steps s i) \<and>
      (new_draft s s' w \<or> (\<exists>v. moved_on s s' v w)))"

lemma version_kept:
  assumes ok: "versions_ok s" and w: "writes_version s s' w" and v: "v \<in> set (pr_versions s)" "pv_state v \<noteq> DRAFT"
  obtains v' where "v' \<in> set (pr_versions s')" "pv_id v' = pv_id v" "pv_playbook v' = pv_playbook v"
    "pv_number v' = pv_number v" "pv_applies_to v' = pv_applies_to v"
    "pv_state v' = pv_state v \<or> pv_state v = PUBLISHED \<and> pv_state v' = RETIRED"
    "version_steps s' (pv_id v) = version_steps s (pv_id v)"
proof (cases "new_draft s s' w")
  case True
  then have "v \<in> set (pr_versions s')" "pv_id v \<noteq> pv_id w"
    using v ok by (auto simp: new_draft_def versions_ok_def)
  then show ?thesis using that[of v] w by (simp add: writes_version_def)
next
  case False
  then obtain u where u: "moved_on s s' u w" using w by (auto simp: writes_version_def)
  show ?thesis
  proof (cases "pv_id v = pv_id w")
    case True
    then have "v = u" using u v(1) ok by (auto simp: moved_on_def versions_ok_def distinct_map inj_on_def)
    moreover have "w \<in> set (pr_versions s')" using u by (auto simp: moved_on_def set_row_put_eq)
    ultimately show ?thesis using that[of w] u v(2) by (auto simp: moved_on_def)
  next
    case False
    then have "v \<in> set (pr_versions s')" using u v(1) by (auto simp: moved_on_def set_row_put_eq)
    then show ?thesis using that[of v] w False by (simp add: writes_version_def)
  qed
qed

lemma versions_ok_written:
  assumes ok: "versions_ok s" and w: "writes_version s s' w"
  shows "versions_ok s'"
proof (cases "new_draft s s' w")
  case True
  then show ?thesis
    using ok w unfolding versions_ok_def new_draft_def writes_version_def by fastforce
next
  case False
  then obtain v where v: "moved_on s s' v w" using w by (auto simp: writes_version_def)
  then have vs: "pr_versions s' = map (\<lambda>u. if u = v then w else u) (pr_versions s)"
    using ok by (auto simp: moved_on_def versions_ok_def row_put_map)
  have keys: "map pv_id (pr_versions s') = map pv_id (pr_versions s)"
    "map (\<lambda>v. (pv_playbook v, pv_number v)) (pr_versions s') = map (\<lambda>v. (pv_playbook v, pv_number v)) (pr_versions s)"
  proof -
    have "pv_id w = pv_id v" "pv_playbook w = pv_playbook v" "pv_number w = pv_number v" using v by (simp_all add: moved_on_def)
    then show "map pv_id (pr_versions s') = map pv_id (pr_versions s)"
      "map (\<lambda>v. (pv_playbook v, pv_number v)) (pr_versions s') = map (\<lambda>v. (pv_playbook v, pv_number v)) (pr_versions s)"
      unfolding vs by simp_all
  qed
  have n: "pr_next s \<le> pr_next s'" using w by (simp add: writes_version_def)
  have each: "\<exists>x \<in> set (pr_versions s). pv_id u = pv_id x \<and> pv_playbook u = pv_playbook x \<and> pv_number u = pv_number x \<and>
      (pv_state u = DRAFT \<longrightarrow> pv_state x = DRAFT)" if "u \<in> set (pr_versions s')" for u
    using that v by (auto simp: vs moved_on_def)
  have bounds: "\<forall>u \<in> set (pr_versions s'). pv_id u < pr_next s' \<and> pv_playbook u < pr_next s'"
  proof
    fix u
    assume "u \<in> set (pr_versions s')"
    then obtain x where "x \<in> set (pr_versions s)" "pv_id u = pv_id x" "pv_playbook u = pv_playbook x" using each by blast
    then show "pv_id u < pr_next s' \<and> pv_playbook u < pr_next s'" using ok n by (auto simp: versions_ok_def)
  qed
  have "\<forall>u \<in> set (pr_versions s'). pv_state u = DRAFT \<longrightarrow>
      (\<forall>t \<in> set (pr_versions s'). pv_playbook t = pv_playbook u \<longrightarrow> pv_number t \<le> pv_number u)"
  proof (intro ballI impI)
    fix u t
    assume "u \<in> set (pr_versions s')" "pv_state u = DRAFT" "t \<in> set (pr_versions s')" "pv_playbook t = pv_playbook u"
    then show "pv_number t \<le> pv_number u" using each[of u] each[of t] ok unfolding versions_ok_def by metis
  qed
  then show ?thesis using ok keys bounds unfolding versions_ok_def by metis
qed

lemma practice_sound_written:
  assumes sound: "practice_sound s" and w: "writes_version s s' w"
  shows "practice_sound s'"
proof -
  have ok: "versions_ok s" and cyc: "cycles_sound s" using sound by (simp_all add: practice_sound_def)
  have W: "pr_cycles s' = pr_cycles s" "pr_tasks s' = pr_tasks s" "pr_next s \<le> pr_next s'" "authoring_ok s'"
    using w by (simp_all add: writes_version_def)
  have pins: "\<exists>v' \<in> set (pr_versions s'). pv_id v' = cy_playbook_version c \<and> pv_state v' \<noteq> DRAFT"
    "version_steps s' (cy_playbook_version c) = version_steps s (cy_playbook_version c)"
    if c: "c \<in> set (pr_cycles s)" for c
  proof -
    obtain v where v: "v \<in> set (pr_versions s)" "pv_id v = cy_playbook_version c" "pv_state v \<noteq> DRAFT"
      using sound c by (auto simp: practice_sound_def)
    from version_kept[OF ok w v(1,3)] show "\<exists>v' \<in> set (pr_versions s'). pv_id v' = cy_playbook_version c \<and> pv_state v' \<noteq> DRAFT"
      using v(2,3) by (metis version_state.distinct(3))
    from version_kept[OF ok w v(1,3)] show "version_steps s' (cy_playbook_version c) = version_steps s (cy_playbook_version c)"
      using v(2) by metis
  qed
  have "rows_ok s'"
    using cyc W unfolding cycles_sound_def rows_ok_def authoring_ok_def by fastforce
  moreover have "tasks_of s' = tasks_of s" by (rule ext) (simp add: tasks_of_def W)
  ultimately have "cycles_sound s'"
    using cyc pins(2) W(1) by (auto simp: cycles_sound_def enabled_steps_def)
  moreover have "acyclic (graph_of s' (pv_id v'))" if v': "v' \<in> set (pr_versions s')" "pv_state v' \<noteq> DRAFT" for v'
  proof -
    have old: "acyclic (graph_of s (pv_id u))" if "u \<in> set (pr_versions s)" "pv_state u \<noteq> DRAFT" for u
      using sound that by (simp add: practice_sound_def)
    have same: "graph_of s' i = graph_of s i" if "i \<noteq> pv_id w" for i
      using w that by (simp add: writes_version_def graph_of_def)
    show ?thesis
    proof (cases "new_draft s s' w")
      case True
      then have "v' \<in> set (pr_versions s)" using v' by (auto simp: new_draft_def)
      moreover from this have "pv_id v' \<noteq> pv_id w" using True ok by (auto simp: new_draft_def versions_ok_def)
      ultimately show ?thesis using old same v'(2) by simp
    next
      case False
      then obtain v where v: "moved_on s s' v w" using w by (auto simp: writes_version_def)
      show ?thesis
      proof (cases "pv_id v' = pv_id w")
        case True
        then have "v' = w" using v v'(1) by (auto simp: moved_on_def row_put_def split: if_splits)
        then have "pv_state w \<noteq> DRAFT" using v'(2) by simp
        then have "graph_of s' (pv_id w) = graph_of s (pv_id w)" "acyclic (graph_of s (pv_id w))"
          using v old[of v] by (auto simp: moved_on_def graph_of_def)
        then show ?thesis using True by simp
      next
        case False
        then have "v' \<in> set (pr_versions s)" using v v'(1) by (auto simp: moved_on_def row_put_def split: if_splits)
        then show ?thesis using old same False v'(2) by simp
      qed
    qed
  qed
  ultimately show ?thesis
    using versions_ok_written[OF ok w] W(1,4) pins(1) by (auto simp: practice_sound_def)
qed

section \<open>Every lifecycle command writes one version\<close>

lemma record_event_fields [simp]:
  "pr_versions (record_event a who obj s) = pr_versions s" "pr_steps (record_event a who obj s) = pr_steps s"
  "pr_cycles (record_event a who obj s) = pr_cycles s" "pr_tasks (record_event a who obj s) = pr_tasks s"
  "pr_next (record_event a who obj s) = pr_next s" "pr_playbooks (record_event a who obj s) = pr_playbooks s"
  "pr_authz (record_event a who obj s) = pr_authz s"
  by (simp_all add: record_event_def)

lemma put_version_fields [simp]:
  "pr_versions (put_version v s) = row_put pv_id v (pr_versions s)" "pr_steps (put_version v s) = pr_steps s"
  "pr_cycles (put_version v s) = pr_cycles s" "pr_tasks (put_version v s) = pr_tasks s"
  "pr_next (put_version v s) = pr_next s" "pr_playbooks (put_version v s) = pr_playbooks s"
  "pr_authz (put_version v s) = pr_authz s"
  by (simp_all add: put_version_def)

lemma version_steps_cong: "pr_steps s' = pr_steps s \<Longrightarrow> version_steps s' i = version_steps s i"
  by (simp add: version_steps_def)

lemma authoring_ok_cong:
  "authoring_ok s \<Longrightarrow> pr_steps s' = pr_steps s \<Longrightarrow> pr_next s \<le> pr_next s' \<Longrightarrow>
     (\<And>p. p \<in> set (pr_playbooks s') \<Longrightarrow> pb_id p < pr_next s') \<Longrightarrow> authoring_ok s'"
  unfolding authoring_ok_def by fastforce

lemma insert_draft_Inr:
  assumes "insert_draft tid pid number scope s = Inr (w, s')"
  shows "s' = s\<lparr>pr_versions := pr_versions s @ [w], pr_next := pr_next s + 1\<rparr>" "pv_id w = pr_next s"
    "pv_playbook w = pid" "pv_number w = number" "pv_state w = DRAFT" "pv_applies_to w = scope"
  using assms by (auto simp: insert_draft_def Let_def split: if_splits)

lemma insert_playbook_Inr:
  assumes "insert_playbook tid key name s = Inr (p, s')"
  shows "s' = s\<lparr>pr_playbooks := pr_playbooks s @ [p], pr_next := pr_next s + 1\<rparr>" "pb_id p = pr_next s"
  using assms by (auto simp: insert_playbook_def Let_def split: if_splits)

lemma replace_steps_fields:
  assumes "replace_steps v specs s = Inr s'"
  shows "pr_versions s' = pr_versions s" "pr_cycles s' = pr_cycles s" "pr_tasks s' = pr_tasks s" "pr_next s' = pr_next s"
    "pr_playbooks s' = pr_playbooks s" "pr_authz s' = pr_authz s"
  by (subst replace_steps_effect(1)[OF assms], simp)+

lemma draft_written:
  assumes ok: "versions_ok s" "authoring_ok s1"
    and s1: "pr_versions s1 = pr_versions s" "pr_steps s1 = pr_steps s" "pr_cycles s1 = pr_cycles s"
      "pr_tasks s1 = pr_tasks s" "pr_next s \<le> pr_next s1"
    and ins: "insert_draft tid pid number scope s1 = Inr (w, s2)"
    and steps: "s3 = s2 \<or> (\<exists>specs. replace_steps w specs s2 = Inr s3)"
    and fresh: "\<forall>v \<in> set (pr_versions s). pv_playbook v = pid \<longrightarrow> pv_state v \<noteq> DRAFT \<and> pv_number v < number"
    and pid: "pid < pr_next s2"
  shows "writes_version s (record_event a who obj s3) w"
proof -
  note i = insert_draft_Inr[OF ins]
  have ok2: "authoring_ok s2" using ok(2) by (rule authoring_ok_cong) (use ok(2) i(1) in \<open>auto simp: authoring_ok_def\<close>)
  have b: "pv_id w < pr_next s2" using i(1,2) by simp
  have st: "version_steps s2 j = version_steps s j" for j by (rule version_steps_cong) (simp add: i(1) s1)
  have "authoring_ok s3 \<and> (\<forall>j. j \<noteq> pv_id w \<longrightarrow> version_steps s3 j = version_steps s j) \<and>
      pr_versions s3 = pr_versions s2 \<and> pr_cycles s3 = pr_cycles s2 \<and> pr_tasks s3 = pr_tasks s2 \<and> pr_next s3 = pr_next s2"
    using steps ok2 b st replace_steps_effect[of w _ s2 s3] replace_steps_fields[of w _ s2 s3] by metis
  moreover have "authoring_ok (record_event a who obj s3)" if "authoring_ok s3"
    using that by (rule authoring_ok_cong) (use that in \<open>auto simp: authoring_ok_def\<close>)
  moreover have "version_steps (record_event a who obj s3) j = version_steps s3 j" for j
    by (rule version_steps_cong) simp
  ultimately show ?thesis
    using i s1 fresh pid by (auto simp: writes_version_def new_draft_def)
qed

text \<open>The version a command rewrites, with the guards it passed.\<close>

lemma locked_version_Inr:
  "locked_version s p number expected = Inr v \<longleftrightarrow>
     find (\<lambda>v. pv_number v = number) (versions_of s (pb_id p)) = Some v \<and> pv_version v = expected"
  by (auto simp: locked_version_def res_iff check_version_def)

lemma locked_version_mem:
  "locked_version s p number expected = Inr v \<Longrightarrow>
     v \<in> set (pr_versions s) \<and> pv_playbook v = pb_id p \<and> pv_number v = number \<and> pv_version v = expected"
  by (auto simp: locked_version_Inr versions_of_def dest!: find_Some_iff_first)

lemma lock_playbook_mem: "lock_playbook s tid pid = Inr p \<Longrightarrow> p \<in> set (pr_playbooks s) \<and> pb_id p = pid \<and> pb_tenant p = tid"
  by (auto simp: lock_playbook_def dest!: find_Some_iff_first)

lemma latest_version_greatest:
  "latest_version s pid = Some v \<Longrightarrow> v \<in> set (pr_versions s) \<and> pv_playbook v = pid \<and>
     (\<forall>u \<in> set (pr_versions s). pv_playbook u = pid \<longrightarrow> pv_number u \<le> pv_number v)"
proof -
  assume a: "latest_version s pid = Some v"
  have f: "find (\<lambda>_. True) (order_by_desc pv_number (versions_of s pid)) = Some v"
    using a by (simp add: latest_version_def first_row_find)
  then have "v \<in> set (versions_of s pid)" by (auto dest!: find_Some_iff_first)
  moreover have "pv_number u \<le> pv_number v" if "u \<in> set (versions_of s pid)" for u
    using sorted_find_first[OF sorted_order_by_desc f] that by simp
  ultimately show ?thesis by (auto simp: versions_of_def)
qed

lemma latest_version_None: "latest_version s pid = None \<Longrightarrow> v \<in> set (pr_versions s) \<Longrightarrow> pv_playbook v \<noteq> pid"
  using set_order_by_desc[of pv_number "versions_of s pid"]
  by (auto simp: latest_version_def versions_of_def filter_empty_conv simp del: set_order_by_desc)

lemma create_playbook_written:
  assumes "practice_sound s" and run: "create_playbook ctx now actor tid key name scope steps s = Inr (p, s')"
  shows "\<exists>w. writes_version s s' w"
proof -
  have ok: "versions_ok s" "authoring_ok s" using assms(1) by (simp_all add: practice_sound_def)
  from run have "actor \<noteq> None" by (cases actor) (simp_all add: create_playbook_def)
  with run obtain p1 s1 normalized w s2 s3 where ins: "insert_playbook tid key name s = Inr (p1, s1)"
    and d: "insert_draft tid (pb_id p1) 1 (Scope_Object normalized) s1 = Inr (w, s2)"
    and st: "(if steps = [] then Inr s2 else replace_steps w steps s2) = Inr s3"
    and s': "s' = record_event ''playbook_updated'' actor (pb_id p1) s3"
    unfolding create_playbook_def by (auto simp: res_bind_eq_Inr simp del: not_None_eq)
  note p = insert_playbook_Inr[OF ins]
  have ok1: "authoring_ok s1" using ok(2) by (rule authoring_ok_cong) (use ok(2) p in \<open>auto simp: authoring_ok_def\<close>)
  have "writes_version s s' w"
    unfolding s'
    by (rule draft_written[OF ok(1) ok1 _ _ _ _ _ d])
      (use p st insert_draft_Inr(1)[OF d] ok(1) in \<open>auto simp: versions_ok_def split: if_splits\<close>)
  then show ?thesis by blast
qed

lemma clone_playbook_written:
  assumes "practice_sound s" and run: "clone_playbook ctx now actor tid pid s = Some (Inr (p, s'))"
  shows "\<exists>w. writes_version s s' w"
proof -
  have ok: "versions_ok s" "authoring_ok s" using assms(1) by (simp_all add: practice_sound_def)
  from run obtain source :: playbook and key and base :: "playbook_version option" where "res_bind (insert_playbook tid key (take 120 (pb_name source @ clone_suffix)) s)
      (\<lambda>(clone, s1). res_bind (insert_draft tid (pb_id clone) 1
         (case base of None \<Rightarrow> Scope_Object [] | Some v \<Rightarrow> pv_applies_to v) s1) (\<lambda>(draft, s2).
       res_bind (case base of None \<Rightarrow> Inr s2
           | Some v \<Rightarrow> replace_steps draft (version_steps s2 (pv_id v)) s2) (\<lambda>s3.
         Inr (clone, record_event ''playbook_updated'' (Some actor) (pb_id clone) s3)))) = Inr (p, s')"
  proof -
    obtain source where src: "lock_playbook s tid pid = Inr source" using run by (auto simp: clone_playbook_def split: sum.splits)
    moreover obtain u where "require_manager ctx now s (Some actor) tid False = Inr u"
      using run src by (auto simp: clone_playbook_def split: sum.splits)
    moreover obtain key where "free_clone_key s tid (pb_key source) = Some key"
      using run calculation by (auto simp: clone_playbook_def Let_def split: option.splits)
    ultimately show ?thesis using run that[of key source] unfolding clone_playbook_def Let_def by simp
  qed
  then obtain name p1 s1 scope w s2 s3 where ins: "insert_playbook tid key name s = Inr (p1, s1)"
    and d: "insert_draft tid (pb_id p1) 1 scope s1 = Inr (w, s2)"
    and st0: "(case base of None \<Rightarrow> Inr s2 | Some v \<Rightarrow> replace_steps w (version_steps s2 (pv_id v)) s2) = Inr s3"
    and s': "s' = record_event ''playbook_updated'' (Some actor) (pb_id p1) s3"
    by (auto simp: res_bind_eq_Inr simp del: take_append)
  have st: "s3 = s2 \<or> (\<exists>specs. replace_steps w specs s2 = Inr s3)" using st0 by (cases base) auto
  note p = insert_playbook_Inr[OF ins]
  have ok1: "authoring_ok s1" using ok(2) by (rule authoring_ok_cong) (use ok(2) p in \<open>auto simp: authoring_ok_def\<close>)
  have "writes_version s s' w"
    unfolding s'
    by (rule draft_written[OF ok(1) ok1 _ _ _ _ _ d st])
      (use p insert_draft_Inr(1)[OF d] ok(1) in \<open>auto simp: versions_ok_def\<close>)
  then show ?thesis by blast
qed

lemma create_draft_version_written:
  assumes "practice_sound s" and run: "create_draft_version ctx now actor tid pid s = Inr (v, s')"
  shows "\<exists>w. writes_version s s' w"
proof -
  have ok: "versions_ok s" "authoring_ok s" using assms(1) by (simp_all add: practice_sound_def)
  from run obtain p scope w s2 s3 where p: "lock_playbook s tid pid = Inr p"
    and latest: "\<not> (case latest_version s (pb_id p) of None \<Rightarrow> False | Some v \<Rightarrow> pv_state v = DRAFT)"
    and d: "insert_draft tid (pb_id p) (case latest_version s (pb_id p) of None \<Rightarrow> 1 | Some v \<Rightarrow> pv_number v + 1)
        scope s = Inr (w, s2)"
    and st0: "(case latest_published s (pb_id p) of None \<Rightarrow> Inr s2
        | Some v \<Rightarrow> replace_steps w (version_steps s2 (pv_id v)) s2) = Inr s3"
    and s': "s' = record_event ''playbook_updated'' actor (pv_id w) s3"
    unfolding create_draft_version_def Let_def by (auto simp: res_bind_eq_Inr split: if_splits)
  have st: "s3 = s2 \<or> (\<exists>specs. replace_steps w specs s2 = Inr s3)" using st0 by (auto split: option.splits)
  have b: "pb_id p < pr_next s" using lock_playbook_mem[OF p] ok(2) by (auto simp: authoring_ok_def)
  have fresh: "pv_state v \<noteq> DRAFT \<and> pv_number v < (case latest_version s (pb_id p) of None \<Rightarrow> 1 | Some v \<Rightarrow> pv_number v + 1)"
    if v: "v \<in> set (pr_versions s)" "pv_playbook v = pb_id p" for v
  proof (cases "latest_version s (pb_id p)")
    case None
    then show ?thesis using latest_version_None v by blast
  next
    case (Some l)
    note l = latest_version_greatest[OF Some]
    have "pv_state v \<noteq> DRAFT"
    proof
      assume "pv_state v = DRAFT"
      then have "pv_number l \<le> pv_number v" using l v ok(1) by (simp add: versions_ok_def)
      then have "pv_number l = pv_number v" using l v by (simp add: order_antisym)
      then have "l = v" using l v ok(1) by (auto simp: versions_ok_def distinct_map inj_on_def)
      then show False using latest Some \<open>pv_state v = DRAFT\<close> by simp
    qed
    then show ?thesis using l v Some by auto
  qed
  have "writes_version s s' w"
    unfolding s'
    by (rule draft_written[OF ok(1) ok(2) _ _ _ _ _ d st])
      (use b fresh insert_draft_Inr(1)[OF d] in auto)
  then show ?thesis by blast
qed

lemma rename_playbook_fields:
  assumes "rename_playbook n p s = Inr s'"
  shows "pr_versions s' = pr_versions s" "pr_steps s' = pr_steps s" "pr_cycles s' = pr_cycles s"
    "pr_tasks s' = pr_tasks s" "pr_next s' = pr_next s"
  using assms by (auto simp: rename_playbook_def split: option.splits if_splits)

lemma authoring_ok_rename:
  assumes "authoring_ok s" "p \<in> set (pr_playbooks s)" "rename_playbook n p s = Inr s'"
  shows "authoring_ok s'"
proof -
  have "pb_id q < pr_next s" if "q \<in> set (pr_playbooks s')" for q
    using that assms by (auto simp: rename_playbook_def authoring_ok_def row_put_def split: option.splits if_splits)
  then show ?thesis by (intro authoring_ok_cong[OF assms(1)]) (simp_all add: rename_playbook_fields[OF assms(3)])
qed

text \<open>A rewrite of one existing version, its steps replaced or kept.\<close>

lemma version_rewritten:
  assumes ok: "versions_ok s" "authoring_ok s1"
    and s1: "pr_versions s1 = pr_versions s" "pr_cycles s1 = pr_cycles s" "pr_tasks s1 = pr_tasks s" "pr_next s1 = pr_next s"
      "\<And>j. j \<noteq> pv_id v \<Longrightarrow> version_steps s1 j = version_steps s j"
    and v: "v \<in> set (pr_versions s)" "pv_id w = pv_id v" "pv_playbook w = pv_playbook v" "pv_number w = pv_number v"
    and life: "pv_state v = DRAFT \<and> pv_state w = DRAFT \<or>
       version_steps s1 (pv_id v) = version_steps s (pv_id v) \<and>
       (pv_state v = DRAFT \<and> pv_state w = PUBLISHED \<and> acyclic (graph_of s (pv_id v)) \<or>
        pv_state v = PUBLISHED \<and> pv_state w = RETIRED \<and> pv_applies_to w = pv_applies_to v)"
  shows "writes_version s (record_event a who obj (put_version w s1)) w"
proof -
  let ?s' = "record_event a who obj (put_version w s1)"
  have st: "version_steps ?s' j = version_steps s1 j" for j by (rule version_steps_cong) simp
  have "authoring_ok ?s'" using ok(2) by (rule authoring_ok_cong) (use ok(2) in \<open>auto simp: authoring_ok_def\<close>)
  moreover have "moved_on s ?s' v w" using v s1 life st by (simp add: moved_on_def)
  ultimately show ?thesis using s1 v(2) st by (auto simp: writes_version_def)
qed

lemma update_draft_written:
  assumes "practice_sound s" and run: "update_draft ctx now actor tid pid number expected steps scope name s = Inr (v, s')"
  shows "\<exists>w. writes_version s s' w"
proof -
  have ok: "versions_ok s" "authoring_ok s" using assms(1) by (simp_all add: practice_sound_def)
  from run obtain p v0 normalized s0 s1 where p: "lock_playbook s tid pid = Inr p"
    and v0: "locked_version s p number expected = Inr v0" "pv_state v0 = DRAFT"
    and s0: "rename_playbook name p s = Inr s0" and r: "replace_steps v0 steps s0 = Inr s1"
    and s': "s' = record_event ''playbook_updated'' actor (pv_id v0) (put_version
        (v0\<lparr>pv_applies_to := Scope_Object normalized, pv_version := pv_version v0 + 1\<rparr>) s1)"
    by (auto simp: update_draft_def res_bind_eq_Inr Let_def split: if_splits)
  have v0m: "v0 \<in> set (pr_versions s)" using locked_version_mem[OF v0(1)] by simp
  have b: "pv_id v0 < pr_next s" using v0m ok(1) by (auto simp: versions_ok_def)
  have ok0: "authoring_ok s0" by (rule authoring_ok_rename[OF ok(2) _ s0]) (use lock_playbook_mem[OF p] in auto)
  note s0 = rename_playbook_fields[OF s0]
  have "version_steps s0 j = version_steps s j" for j by (rule version_steps_cong) (rule s0)
  then show ?thesis
    unfolding s' using replace_steps_effect(3,4)[OF r] replace_steps_fields[OF r] ok0 b v0(2) s0
    by - (rule exI, rule version_rewritten[OF ok(1) _ _ _ _ _ _ v0m], auto)
qed

lemma move_step_Inr:
  assumes "move_step ctx now actor tid pid number expected key direction s = Inr (w, s')"
  obtains p v index target s1 where "lock_playbook s tid pid = Inr p"
    "require_manager ctx now s actor tid (pb_is_system p) = Inr ()"
    "locked_version s p number expected = Inr v" "pv_state v = DRAFT"
    "index_of key (version_steps s (pv_id v)) = Some index"
    "move_target direction index (length (version_steps s (pv_id v))) = Some target"
    "replace_steps v (swapped (version_steps s (pv_id v)) index target) s = Inr s1"
    "w = v\<lparr>pv_version := pv_version v + 1\<rparr>"
    "s' = record_event ''playbook_updated'' actor (pv_id v) (put_version w s1)"
  using assms by (auto simp: move_step_def res_bind_eq_Inr Let_def split: if_splits)

lemma move_step_written:
  assumes "practice_sound s" and run: "move_step ctx now actor tid pid number expected key direction s = Inr (w, s')"
  shows "\<exists>w. writes_version s s' w"
  using run
proof (rule move_step_Inr)
  have ok: "versions_ok s" "authoring_ok s" using assms(1) by (simp_all add: practice_sound_def)
  fix p v index target s1
  assume v: "locked_version s p number expected = Inr v" "pv_state v = DRAFT"
    and r: "replace_steps v (swapped (version_steps s (pv_id v)) index target) s = Inr s1"
    and w: "w = v\<lparr>pv_version := pv_version v + 1\<rparr>"
    and s': "s' = record_event ''playbook_updated'' actor (pv_id v) (put_version w s1)"
  have vm: "v \<in> set (pr_versions s)" using locked_version_mem[OF v(1)] by simp
  have b: "pv_id v < pr_next s" using vm ok(1) by (auto simp: versions_ok_def)
  show ?thesis
    unfolding s' w using replace_steps_effect(3,4)[OF r] replace_steps_fields[OF r] ok b v(2)
    by - (rule exI, rule version_rewritten[OF ok(1) _ _ _ _ _ _ vm], auto)
qed

lemma validate_version_acyclic:
  assumes "validate_version s v = Inr scope"
  shows "acyclic (graph_of s (pv_id v))"
proof -
  from assms obtain normalized where v: "validate_draft (pv_applies_to v) (version_steps s (pv_id v))
      (pr_obligation_types s) True = Inr normalized"
    by (auto simp: validate_version_def res_bind_eq_Inr validated_def split: sum.splits draft_error.splits)
  note e = validate_draft_Inr[OF v]
  have dist: "distinct (map ss_key (version_steps s (pv_id v)))" using e by (auto simp: validate_steps_Nil)
  have "find_cycle (step_edges (version_steps s (pv_id v))) = []"
    using e by (simp add: specs_by_key_distinct[OF dist] step_edges_def comp_def)
  then show ?thesis by (simp add: graph_of_def find_cycle_acyclic)
qed

lemma publish_version_Inr:
  assumes "publish_version ctx now actor tid pid number expected today s = Inr (r, s')"
  obtains p v normalized w where "lock_playbook s tid pid = Inr p" "locked_version s p number expected = Inr v"
    "pv_state v = DRAFT" "validate_version s v = Inr normalized"
    "w = v\<lparr>pv_state := PUBLISHED, pv_published_at := Some now,
        pv_published_by := (case actor of None \<Rightarrow> None | Some u \<Rightarrow> Some (u_id u)),
        pv_applies_to := normalized, pv_version := pv_version v + 1\<rparr>"
    "fst r = w" "s' = record_event ''playbook_published'' actor (pv_id v) (put_version w s)"
  using assms by (auto simp: publish_version_def res_bind_eq_Inr Let_def)

lemma publish_version_written:
  assumes "practice_sound s" and run: "publish_version ctx now actor tid pid number expected today s = Inr (r, s')"
  shows "\<exists>w. writes_version s s' w"
  using run
proof (rule publish_version_Inr)
  have ok: "versions_ok s" "authoring_ok s" using assms(1) by (simp_all add: practice_sound_def)
  fix p v normalized w
  assume v: "locked_version s p number expected = Inr v" "pv_state v = DRAFT"
    and val: "validate_version s v = Inr normalized"
    and w: "w = v\<lparr>pv_state := PUBLISHED, pv_published_at := Some now,
        pv_published_by := (case actor of None \<Rightarrow> None | Some u \<Rightarrow> Some (u_id u)),
        pv_applies_to := normalized, pv_version := pv_version v + 1\<rparr>"
    and s': "s' = record_event ''playbook_published'' actor (pv_id v) (put_version w s)"
  show ?thesis
    unfolding s' using locked_version_mem[OF v(1)] v(2) validate_version_acyclic[OF val]
    by - (rule exI, rule version_rewritten[OF ok refl refl refl refl refl], auto simp: w)
qed

lemma retire_version_written:
  assumes "practice_sound s" and run: "retire_version ctx now actor tid pid number expected s = Inr (r, s')"
  shows "\<exists>w. writes_version s s' w"
proof -
  have ok: "versions_ok s" "authoring_ok s" using assms(1) by (simp_all add: practice_sound_def)
  from run obtain p v where v: "locked_version s p number expected = Inr v" "pv_state v = PUBLISHED"
    and s': "s' = record_event ''playbook_retired'' actor (pv_id v)
        (put_version (v\<lparr>pv_state := RETIRED, pv_version := pv_version v + 1\<rparr>) s)"
    by (auto simp: retire_version_def res_bind_eq_Inr Let_def)
  show ?thesis
    unfolding s' using locked_version_mem[OF v(1)] v(2)
    by - (rule exI, rule version_rewritten[OF ok refl refl refl refl refl], auto)
qed

end
