(* ===== verification/Playbook_Properties.thy ===== *)
theory Playbook_Properties
  imports Playbook_Guarantees
begin

text \<open>
  Playbooks and cycles together: every history that interleaves cycle commands with playbook
  commands keeps the practice sound, so published versions are immutable, a playbook has at most
  one draft, and no cycle of the firm ever deadlocks.
\<close>

section \<open>Cycle commands leave the playbooks alone\<close>

definition same_books :: "practice \<Rightarrow> practice \<Rightarrow> bool" where
  "same_books s s' =
     (pr_versions s' = pr_versions s \<and> pr_steps s' = pr_steps s \<and> pr_playbooks s' = pr_playbooks s \<and>
      pr_next s \<le> pr_next s')"

lemma same_books_refl [simp]: "same_books s s"
  by (simp add: same_books_def)

lemma same_books_trans: "same_books a b \<Longrightarrow> same_books b c \<Longrightarrow> same_books a c"
  by (simp add: same_books_def)

lemma same_books_ops [simp]:
  "same_books s (emit c a e g i v p s') \<longleftrightarrow> same_books s s'"
  "same_books s (save_cycle c s') \<longleftrightarrow> same_books s s'"
  "same_books s (save_task t s') \<longleftrightarrow> same_books s s'"
  by (simp_all add: same_books_def)

lemma release_pass_books: "release_pass c who tasks steps s = Inr s' \<Longrightarrow> same_books s s' \<and> pr_cycles s' = pr_cycles s"
proof (induction steps arbitrary: s tasks)
  case Nil
  then show ?case by simp
next
  case (Cons st sts)
  then show ?case
    by (auto simp: res_iff Let_def split: if_splits) (fastforce simp: same_books_def)+
qed

lemma refresh_tasks_books:
  "refresh_tasks ctx c primary future completed ts s = Inr s' \<Longrightarrow> same_books s s' \<and> pr_cycles s' = pr_cycles s"
proof (induction ts arbitrary: s)
  case Nil
  then show ?case by simp
next
  case (Cons t ts)
  then show ?case
    by (auto simp: res_iff split: if_splits) (fastforce simp: same_books_def)+
qed

lemma instantiate_books: "instantiate ctx c only resolved s = Inr s' \<Longrightarrow> same_books s s' \<and> pr_cycles s' = pr_cycles s"
  by (erule instantiate_effect) (simp add: same_books_def)

text \<open>The pins of a step's cycles: those of before, or a published version of the firm.\<close>

definition pins_kept :: "practice \<Rightarrow> practice \<Rightarrow> bool" where
  "pins_kept s s' =
     (\<forall>c \<in> set (pr_cycles s').
        (\<exists>v \<in> set (pr_versions s). pv_id v = cy_playbook_version c \<and> pv_state v = PUBLISHED) \<or>
        (\<exists>x \<in> set (pr_cycles s). cy_playbook_version c = cy_playbook_version x))"

lemma pins_kept_same: "pr_cycles s' = pr_cycles s \<Longrightarrow> pins_kept s s'"
  by (auto simp: pins_kept_def)

lemma pins_kept_put:
  "pr_cycles s' = row_put cy_id c' (pr_cycles s) \<Longrightarrow> c \<in> set (pr_cycles s) \<Longrightarrow>
     cy_playbook_version c' = cy_playbook_version c \<Longrightarrow> pins_kept s s'"
  by (auto simp: pins_kept_def row_put_def)

lemma transition_cycle_books:
  assumes "transition_cycle ctx now actor cid to_state expected reason s = Inr (r, s')"
  shows "same_books s s' \<and> pins_kept s s'"
proof -
  from assms obtain c where c: "load_cycle ctx now s actor cid = Inr c"
    by (auto simp: transition_cycle_def res_iff)
  define c' where "c' = c\<lparr>cy_state := to_state, cy_version := cy_version c + 1\<rparr>"
  have "same_books s s' \<and> pr_cycles s' = row_put cy_id c' (pr_cycles s)"
    using assms c
    by (auto simp: transition_cycle_def res_iff Let_def c'_def same_books_def split: if_splits option.splits)
  then show ?thesis using load_cycle_Inr[OF c] by (auto simp: c'_def intro: pins_kept_put)
qed

lemma add_note_books:
  assumes "add_note ctx now actor cid body expected s = Inr (r, s')"
  shows "same_books s s' \<and> pins_kept s s'"
proof -
  from assms obtain c where c: "load_cycle ctx now s actor cid = Inr c"
    by (auto simp: add_note_def res_iff split: if_splits)
  define c' where "c' = c\<lparr>cy_version := cy_version c + 1\<rparr>"
  have "same_books s s' \<and> pr_cycles s' = row_put cy_id c' (pr_cycles s)"
    using assms c by (auto simp: add_note_def res_iff Let_def c'_def same_books_def split: if_splits)
  then show ?thesis using load_cycle_Inr[OF c] by (auto simp: c'_def intro: pins_kept_put)
qed

lemma transition_task_books:
  assumes "transition_task ctx now actor tid to_state expected reason s = Inr (r, s')"
  shows "same_books s s' \<and> pins_kept s s'"
  using assms
proof (rule transition_task_Inr)
  fix t c s3
  assume s3: "pr_cycles s3 = pr_cycles s" "pr_steps s3 = pr_steps s" "pr_versions s3 = pr_versions s"
      "pr_playbooks s3 = pr_playbooks s" "pr_next s \<le> pr_next s3"
    and rel: "release_pass c (u_id actor) (tasks_of s3 (cy_id c)) (enabled_steps s3 (cy_playbook_version c)) s3 = Inr s'"
  have "same_books s s3" using s3 by (simp add: same_books_def)
  then show ?thesis
    using release_pass_books[OF rel] s3(1) by (auto intro: same_books_trans pins_kept_same)
qed

lemma open_cycle_books:
  assumes "open_cycle digest ctx now actor eid period vid key s = Inr (r, s')"
  shows "same_books s s' \<and> pins_kept s s'"
  using assms
proof (cases rule: open_cycle_Inr)
  case replay
  then show ?thesis by (simp add: pins_kept_same)
next
  case (opened e c v tid cycle s1)
  note inst = instantiate_books[OF opened(15)]
  have "v \<in> set (pr_versions s)" using find_scoped[OF opened(2)] by simp
  moreover have "pr_cycles s' = pr_cycles s @ [cycle]" "same_books s s'"
    using inst opened(16) by (auto simp: same_books_def)
  ultimately show ?thesis using opened(10,14) by (auto simp: pins_kept_def)
qed

lemma migrate_open_cycle_books:
  assumes "migrate_open_cycle ctx now actor cid target_id expected s = Inr (r, s')"
  shows "same_books s s' \<and> pins_kept s s'"
  using assms
proof (rule migrate_open_cycle_Inr)
  fix c moved :: service_cycle and v :: playbook_version and tasks completed fresh primary s2 s3
  assume v: "v \<in> set (pr_versions s)" "pv_state v = PUBLISHED"
    and moved: "moved = c\<lparr>cy_playbook_version := pv_id v, cy_version := cy_version c + 1\<rparr>"
    and inst: "instantiate ctx moved (Some fresh) completed (save_cycle moved s) = Inr s2"
    and refr: "refresh_tasks ctx moved primary (enabled_steps s (pv_id v)) completed tasks s2 = Inr s3"
    and s': "\<exists>who e p. s' = emit moved who e Cycle_Aggregate (cy_id moved) (cy_version moved) p s3"
  have "same_books s s'" "pr_cycles s' = row_put cy_id moved (pr_cycles s)"
    using instantiate_books[OF inst] refresh_tasks_books[OF refr] s' by (auto simp: same_books_def)
  moreover from this(2) have "pins_kept s s'"
    using v moved by (auto simp: pins_kept_def row_put_def)
  ultimately show ?thesis by simp
qed

lemma run_command_books: "run_command digest ctx now cmd s = Inr s' \<Longrightarrow> same_books s s' \<and> pins_kept s s'"
  by (cases cmd)
    (auto simp: res_bind_eq_Inr dest: open_cycle_books transition_cycle_books transition_task_books
      add_note_books migrate_open_cycle_books)

lemma practice_sound_command:
  assumes sound: "practice_sound s" and run: "run_command digest ctx now cmd s = Inr s'"
  shows "practice_sound s'"
proof -
  have b: "pr_versions s' = pr_versions s" "pr_steps s' = pr_steps s" "pr_playbooks s' = pr_playbooks s"
    "pr_next s \<le> pr_next s'" and pins: "pins_kept s s'"
    using run_command_books[OF run] by (auto simp: same_books_def)
  have "cycles_sound s'" using sound run by (auto simp: practice_sound_def intro: run_command_sound)
  moreover have "authoring_ok s'" using sound b by (fastforce simp: practice_sound_def authoring_ok_def)
  moreover have "versions_ok s'" using sound b by (fastforce simp: practice_sound_def versions_ok_def)
  moreover have "graph_of s' = graph_of s" by (rule ext) (simp add: graph_of_def version_steps_cong[OF b(2)])
  moreover have "\<exists>v \<in> set (pr_versions s'). pv_id v = cy_playbook_version c \<and> pv_state v \<noteq> DRAFT"
    if "c \<in> set (pr_cycles s')" for c
    using pins that sound unfolding pins_kept_def practice_sound_def b(1) by (metis version_state.distinct(1))
  ultimately show ?thesis using sound b(1) by (auto simp: practice_sound_def)
qed

section \<open>Histories of a practice\<close>

text \<open>One successful transaction of the firm: a cycle command or a playbook command.\<close>

inductive practice_step :: "(string \<Rightarrow> string) \<Rightarrow> practice \<Rightarrow> practice \<Rightarrow> bool" for digest s s' where
  by_cycle: "run_command digest ctx now cmd s = Inr s' \<Longrightarrow> practice_step digest s s'"
| by_create: "create_playbook ctx now actor tid key name scope steps s = Inr (p, s') \<Longrightarrow> practice_step digest s s'"
| by_clone: "clone_playbook ctx now person tid pid s = Some (Inr (p, s')) \<Longrightarrow> practice_step digest s s'"
| by_draft: "create_draft_version ctx now actor tid pid s = Inr (v, s') \<Longrightarrow> practice_step digest s s'"
| by_edit: "update_draft ctx now actor tid pid number expected steps scope rename s = Inr (v, s') \<Longrightarrow>
    practice_step digest s s'"
| by_move: "move_step ctx now actor tid pid number expected key direction s = Inr (v, s') \<Longrightarrow> practice_step digest s s'"
| by_publish: "publish_version ctx now actor tid pid number expected today s = Inr (r, s') \<Longrightarrow> practice_step digest s s'"
| by_retire: "retire_version ctx now actor tid pid number expected s = Inr (v, s') \<Longrightarrow> practice_step digest s s'"

lemma practice_step_cases:
  assumes "practice_sound s" "practice_step digest s s'"
  obtains (command) ctx now cmd where "run_command digest ctx now cmd s = Inr s'"
    | (written) w where "writes_version s s' w"
  using assms(2)
proof cases
  case by_cycle
  then show ?thesis by (rule command)
next
  case by_create
  then show ?thesis using create_playbook_written[OF assms(1)] written by blast
next
  case by_clone
  then show ?thesis using clone_playbook_written[OF assms(1)] written by blast
next
  case by_draft
  then show ?thesis using create_draft_version_written[OF assms(1)] written by blast
next
  case by_edit
  then show ?thesis using update_draft_written[OF assms(1)] written by blast
next
  case by_move
  then show ?thesis using move_step_written[OF assms(1)] written by blast
next
  case (by_publish ctx now actor tid pid number expected today r)
  then show ?thesis using publish_version_written[OF assms(1)] written by blast
next
  case by_retire
  then show ?thesis using retire_version_written[OF assms(1)] written by blast
qed

lemma practice_step_sound:
  assumes "practice_sound s" "practice_step digest s s'"
  shows "practice_sound s'"
  using assms
proof (cases rule: practice_step_cases)
  case command
  then show ?thesis by (rule practice_sound_command[OF assms(1)])
next
  case written
  then show ?thesis by (rule practice_sound_written[OF assms(1)])
qed

lemma practice_history_sound: "(practice_step digest)\<^sup>*\<^sup>* s0 s \<Longrightarrow> practice_sound s0 \<Longrightarrow> practice_sound s"
  by (induction rule: rtranclp_induct) (auto intro: practice_step_sound)

section \<open>Properties\<close>

lemma version_kept_step:
  assumes "practice_sound s" "practice_step digest s s'" "v \<in> set (pr_versions s)" "pv_state v \<noteq> DRAFT"
  shows "\<exists>v' \<in> set (pr_versions s'). pv_id v' = pv_id v \<and> pv_playbook v' = pv_playbook v \<and>
    pv_number v' = pv_number v \<and> pv_applies_to v' = pv_applies_to v \<and>
    version_steps s' (pv_id v) = version_steps s (pv_id v) \<and>
    (pv_state v' = pv_state v \<or> pv_state v = PUBLISHED \<and> pv_state v' = RETIRED)"
  using assms(1,2)
proof (cases rule: practice_step_cases)
  case (command ctx now cmd)
  then have "pr_versions s' = pr_versions s" "pr_steps s' = pr_steps s"
    using run_command_books by (auto simp: same_books_def)
  then show ?thesis using assms(3) version_steps_cong by metis
next
  case (written w)
  have "versions_ok s" using assms(1) by (simp add: practice_sound_def)
  from version_kept[OF this written assms(3,4)] show ?thesis by metis
qed

text \<open>C10: A version that left draft is immutable: whatever the firm does afterwards, it is still there with its
  number, its targeting scope and exactly its steps in order, and its state at most goes from
  published to retired.\<close>

theorem published_versions_are_immutable:
  assumes "practice_sound s0" "v \<in> set (pr_versions s0)" "pv_state v \<noteq> DRAFT"
    and "(practice_step digest)\<^sup>*\<^sup>* s0 s"
  shows "\<exists>v' \<in> set (pr_versions s). pv_id v' = pv_id v \<and> pv_playbook v' = pv_playbook v \<and>
    pv_number v' = pv_number v \<and> pv_applies_to v' = pv_applies_to v \<and>
    version_steps s (pv_id v) = version_steps s0 (pv_id v) \<and>
    (pv_state v' = pv_state v \<or> pv_state v = PUBLISHED \<and> pv_state v' = RETIRED)"
  using assms(4)
proof (induction rule: rtranclp_induct)
  case base
  then show ?case using assms(2) by blast
next
  case (step s s')
  then obtain v' where v': "v' \<in> set (pr_versions s)" "pv_id v' = pv_id v" "pv_playbook v' = pv_playbook v"
      "pv_number v' = pv_number v" "pv_applies_to v' = pv_applies_to v" "pv_state v' \<noteq> DRAFT"
      "version_steps s (pv_id v) = version_steps s0 (pv_id v)"
      "pv_state v' = pv_state v \<or> pv_state v = PUBLISHED \<and> pv_state v' = RETIRED"
    using assms(3) by (metis version_state.distinct(3))
  have "practice_sound s" by (rule practice_history_sound[OF step(1) assms(1)])
  from version_kept_step[OF this step(2) v'(1,6)] show ?case using v'(2-) by auto
qed

text \<open>One draft at a time: in every state a firm can reach, two drafts of the same playbook are the same
  version, and it carries the highest number of its playbook.\<close>

theorem one_draft_per_playbook:
  assumes "practice_sound s0" "(practice_step digest)\<^sup>*\<^sup>* s0 s"
    and "v \<in> set (pr_versions s)" "pv_state v = DRAFT"
    and "w \<in> set (pr_versions s)" "pv_playbook w = pv_playbook v"
  shows "pv_number w \<le> pv_number v \<and> (pv_state w = DRAFT \<longrightarrow> w = v)"
proof -
  have ok: "versions_ok s" using practice_history_sound[OF assms(2,1)] by (simp add: practice_sound_def)
  then have a: "pv_number w \<le> pv_number v" using assms(3-) by (simp add: versions_ok_def)
  have "w = v" if "pv_state w = DRAFT"
  proof -
    have "pv_number v \<le> pv_number w" using ok assms(3-) that by (simp add: versions_ok_def)
    then show ?thesis using a ok assms(3,5,6) by (auto simp: versions_ok_def distinct_map inj_on_def)
  qed
  then show ?thesis using a by blast
qed

lemma acyclic_enabled:
  assumes "distinct (map ss_key steps)" "acyclic (depends (step_edges steps))"
  shows "acyclic (depends (step_edges (filter P steps)))"
proof (rule acyclic_subset[OF assms(2)])
  show "depends (step_edges (filter P steps)) \<subseteq> depends (step_edges steps)"
  proof
    fix e
    assume e: "e \<in> depends (step_edges (filter P steps))"
    obtain a b where ab: "e = (a, b)" "b \<in> set (neighbours (step_edges (filter P steps)) a)"
      using e by (auto simp: depends_def)
    then obtain ks where ks: "map_of (step_edges (filter P steps)) a = Some ks" "b \<in> set ks"
      by (cases "map_of (step_edges (filter P steps)) a") (simp_all add: neighbours_def)
    from map_of_SomeD[OF ks(1)] obtain st where st: "st \<in> set steps" "a = ss_key st" "ks = ss_depends_on st"
      by (auto simp: step_edges_def)
    then show "e \<in> depends (step_edges steps)" using depends_step[OF assms(1)] ks(2) ab(1) by simp
  qed
qed

lemma version_steps_fit: "authoring_ok s \<Longrightarrow> list_all step_fits (version_steps s v)"
  by (auto simp: authoring_ok_def version_steps_def list_all_iff)

lemma version_keys_distinct:
  assumes "authoring_ok s"
  shows "distinct (map ss_key (version_steps s v))"
proof -
  have "distinct (map (\<lambda>st. (ps_version st, ss_key (ps_spec st))) (pr_steps s))"
    using assms by (simp add: authoring_ok_def)
  then have "inj_on (\<lambda>st. (ps_version st, ss_key (ps_spec st))) (set (pr_steps s))" "distinct (pr_steps s)"
    by (simp_all add: distinct_map)
  then have "distinct (map (ss_key \<circ> ps_spec) (sort_key ps_position (filter (\<lambda>st. ps_version st = v) (pr_steps s))))"
    by (auto simp: distinct_map inj_on_def)
  then show ?thesis by (simp add: version_steps_def)
qed


section \<open>Reordering can be undone\<close>

lemma swapped_twice:
  "i < length xs \<Longrightarrow> j < length xs \<Longrightarrow> swapped (swapped xs i j) j i = xs"
  by (rule nth_equalityI) (auto simp: swapped_def nth_list_update)

lemma index_of_iff:
  assumes "distinct (map ss_key xs)"
  shows "index_of k xs = Some i \<longleftrightarrow> i < length xs \<and> ss_key (xs ! i) = k"
  using assms
proof (induction xs arbitrary: i)
  case Nil
  then show ?case by simp
next
  case (Cons x xs)
  show ?case
  proof (cases i)
    case 0
    then show ?thesis by auto
  next
    case (Suc j)
    then show ?thesis using Cons by (auto simp: image_iff) (metis nth_mem)
  qed
qed

lemma distinct_swapped:
  "i < length xs \<Longrightarrow> j < length xs \<Longrightarrow> distinct (map f (swapped xs i j)) = distinct (map f xs)"
  using distinct_swap[of i "map f xs" j] by (simp add: swapped_def map_update)

lemma set_swapped [simp]: "length (swapped xs i j) = length xs"
  by (simp add: swapped_def)

lemma locked_version_put:
  assumes "locked_version s p number expected = Inr v" "distinct (map pv_id (pr_versions s))"
    and "pv_id w = pv_id v" "pv_playbook w = pv_playbook v" "pv_number w = pv_number v"
    and "pr_versions s' = row_put pv_id w (pr_versions s)"
  shows "locked_version s' p number (pv_version w) = Inr w"
proof -
  have f: "find (\<lambda>v. pv_number v = number) (versions_of s (pb_id p)) = Some v"
    using assms(1) by (simp add: locked_version_Inr)
  then have v: "v \<in> set (pr_versions s)" "pv_playbook v = pb_id p" "pv_number v = number"
    by (auto simp: versions_of_def dest!: find_Some_iff_first)
  have m: "pr_versions s' = map (\<lambda>r. if r = v then w else r) (pr_versions s)"
    unfolding assms(6) by (rule row_put_map[OF assms(2) v(1) assms(3)])
  have "find (\<lambda>v. pv_number v = number) (filter (\<lambda>x. pv_playbook x = pb_id p) (map (\<lambda>r. if r = v then w else r) rows)) = Some w"
    if "find (\<lambda>v. pv_number v = number) (filter (\<lambda>x. pv_playbook x = pb_id p) rows) = Some v" for rows
    using that assms(4,5) v(2,3) by (induction rows) (auto split: if_splits)
  then show ?thesis using f by (simp add: locked_version_Inr versions_of_def m)
qed

text \<open>C40: Reordering can be undone: after a step of a draft was moved up, moving it down with the revision the
  first move returned succeeds, and the draft has the steps it had, in the order it had them.\<close>

theorem moves_can_be_undone:
  assumes sound: "practice_sound s"
    and up: "move_step ctx now actor tid pid number expected key ''up'' s = Inr (v, s1)"
  shows "\<exists>w s2. move_step ctx now actor tid pid number (pv_version v) key ''down'' s1 = Inr (w, s2) \<and>
    version_steps s2 (pv_id v) = version_steps s (pv_id v)"
  using up
proof (rule move_step_Inr)
  fix p index target s0 and v0 :: playbook_version
  let ?xs = "version_steps s (pv_id v0)"
  assume p: "lock_playbook s tid pid = Inr p" and m: "require_manager ctx now s actor tid (pb_is_system p) = Inr ()"
    and v0: "locked_version s p number expected = Inr v0" "pv_state v0 = DRAFT"
    and i: "index_of key ?xs = Some index" "move_target ''up'' index (length ?xs) = Some target"
    and r: "replace_steps v0 (swapped ?xs index target) s = Inr s0"
    and v: "v = v0\<lparr>pv_version := pv_version v0 + 1\<rparr>"
    and s1: "s1 = record_event ''playbook_updated'' actor (pv_id v0) (put_version v s0)"
  have ok: "versions_ok s" "authoring_ok s" using sound by (simp_all add: practice_sound_def)
  have dist: "distinct (map ss_key ?xs)" by (rule version_keys_distinct[OF ok(2)])
  have b: "index < length ?xs" "ss_key (?xs ! index) = key" using i(1) index_of_iff[OF dist] by auto
  have t: "target = index - 1" "index \<noteq> 0" using i(2) by (simp_all add: move_target_def split: if_splits)
  let ?ys = "swapped ?xs index target"
  note fr = replace_steps_fields[OF r]
  have idv: "pv_id v = pv_id v0" by (simp add: v)
  have steps1: "version_steps s1 (pv_id v) = ?ys"
  proof -
    have "version_steps s1 (pv_id v) = version_steps s0 (pv_id v0)"
      unfolding idv by (rule version_steps_cong) (simp add: s1)
    then show ?thesis using replace_steps_effect(2)[OF r] by simp
  qed
  have "lock_playbook s1 tid pid = Inr p" using p by (simp add: lock_playbook_def s1 fr)
  moreover have "require_manager ctx now s1 actor tid (pb_is_system p) = Inr ()"
    using m by (simp add: require_manager_def s1 fr split: option.splits)
  moreover have "locked_version s1 p number (pv_version v) = Inr v"
    by (rule locked_version_put[OF v0(1)]) (use ok(1) in \<open>simp_all add: v s1 fr versions_ok_def\<close>)
  moreover have "pv_state v = DRAFT" by (simp add: v v0)
  moreover have dy: "distinct (map ss_key ?ys)" using dist distinct_swapped[of index ?xs target ss_key] b(1) t by simp
  then have "index_of key ?ys = Some target" using b t by (simp add: index_of_iff swapped_def)
  moreover have "move_target ''down'' target (length ?ys) = Some index" using b(1) t by (simp add: move_target_def)
  moreover have "swapped ?ys target index = ?xs" using b(1) t by (intro swapped_twice) auto
  moreover obtain s3 where r3: "replace_steps v ?xs s1 = Inr s3"
    using dist version_steps_fit[OF ok(2)] by (simp add: replace_steps_def)
  ultimately have "move_step ctx now actor tid pid number (pv_version v) key ''down'' s1 =
      Inr (v\<lparr>pv_version := pv_version v + 1\<rparr>,
           record_event ''playbook_updated'' actor (pv_id v) (put_version (v\<lparr>pv_version := pv_version v + 1\<rparr>) s3))"
    (is "_ = Inr (?w, ?s2)")
    by (simp add: move_step_def steps1 Let_def)
  moreover have "version_steps ?s2 (pv_id v) = ?xs"
  proof -
    have "version_steps ?s2 (pv_id v) = version_steps s3 (pv_id v)" by (rule version_steps_cong) simp
    then show ?thesis using replace_steps_effect(2)[OF r3] by simp
  qed
  ultimately show ?thesis by (auto simp: idv)
qed

section \<open>Cloning always answers\<close>

lemma char_digit_inject: "a < 10 \<Longrightarrow> b < 10 \<Longrightarrow> (char_of (48 + a) :: char) = char_of (48 + b) \<longleftrightarrow> a = (b :: nat)"
proof -
  assume ab: "a < 10" "b < 10"
  have "(of_char (char_of (48 + a) :: char) :: nat) = 48 + a" "(of_char (char_of (48 + b) :: char) :: nat) = 48 + b"
    using ab by simp_all
  then show ?thesis by (metis add_left_cancel)
qed

lemma str_nat_nonempty: "str_nat n \<noteq> []"
  by (subst str_nat.simps) simp

lemma str_nat_inject: "str_nat m = str_nat n \<longleftrightarrow> m = n"
proof
  show "str_nat m = str_nat n \<Longrightarrow> m = n"
  proof (induction m arbitrary: n rule: less_induct)
    case (less m)
    have l: "last (str_nat k) = char_of (48 + k mod 10)" "butlast (str_nat k) = (if k < 10 then [] else str_nat (k div 10))" for k
      by (subst str_nat.simps, simp)+
    have "m mod 10 = n mod 10"
      using less.prems l(1)[of m] l(1)[of n] char_digit_inject[of "m mod 10" "n mod 10"] by simp
    moreover have bl: "(if m < 10 then [] else str_nat (m div 10)) = (if n < 10 then [] else str_nat (n div 10))"
      using less.prems l(2) by metis
    have "m div 10 = n div 10"
    proof (cases "m < 10")
      case True
      then show ?thesis using bl str_nat_nonempty[of "n div 10"] by (auto split: if_splits)
    next
      case False
      then show ?thesis
        using bl str_nat_nonempty[of "m div 10"] less.IH[of "m div 10" "n div 10"] by (auto split: if_splits)
    qed
    ultimately show ?case by (metis div_mult_mod_eq)
  qed
qed simp

lemma free_counter_total:
  "\<exists>key. free_counter existing base n = Some key \<and> key \<notin> set existing \<and> starts_with base key"
proof -
  have inj: "inj (numbered_key base)" by (simp add: inj_def numbered_key_def str_nat_inject)
  have "finite (numbered_key base -` set existing)" by (rule finite_vimageI[OF _ inj]) simp
  then obtain top where top: "numbered_key base k \<in> set existing \<Longrightarrow> k < top" for k
    by (metis finite_nat_set_iff_bounded vimageI)
  show ?thesis
  proof (induction "top - n" arbitrary: n rule: less_induct)
    case (less n)
    show ?case
    proof (cases "numbered_key base n \<in> set existing")
      case True
      then have "top - Suc n < top - n" using top[of n] by simp
      from less.hyps[OF this] show ?thesis using True by (simp add: free_counter.simps[of existing base n])
    next
      case False
      then show ?thesis by (simp add: free_counter.simps[of existing base n] numbered_key_def starts_with_def)
    qed
  qed
qed

lemma free_clone_key_total:
  "\<exists>key. free_clone_key s tid base = Some key \<and> \<not> list_ex (\<lambda>q. pb_tenant q = tid \<and> pb_key q = key) (pr_playbooks s)"
proof -
  let ?existing = "map pb_key (filter (\<lambda>p. pb_tenant p = tid \<and> starts_with base (pb_key p)) (pr_playbooks s))"
  have unused: "\<not> list_ex (\<lambda>q. pb_tenant q = tid \<and> pb_key q = key) (pr_playbooks s)"
    if "key \<notin> set ?existing" "starts_with base key" for key
    using that by (auto simp: list_ex_iff)
  show ?thesis
  proof (cases "base \<in> set ?existing")
    case True
    then show ?thesis using free_counter_total[of ?existing base 2] unused by (auto simp: free_clone_key_def Let_def)
  next
    case False
    then show ?thesis using unused[of base] by (simp add: free_clone_key_def Let_def starts_with_def)
  qed
qed

text \<open>Cloning always answers: for a playbook of the firm and a person who may manage playbooks, the search
  for a free key ends with an unused one; the clone then fails only if that key is longer than its
  column, and otherwise no name, key, number or step can clash and a new playbook row is added.\<close>

theorem cloning_always_answers:
  assumes sound: "practice_sound s" and src: "lock_playbook s tid pid = Inr source"
    and may: "require_manager ctx now s (Some actor) tid False = Inr ()"
  shows "\<exists>key. free_clone_key s tid (pb_key source) = Some key \<and>
    (if KEY_MAX_LENGTH < length key then clone_playbook ctx now actor tid pid s = Some (Inl DataError)
     else \<exists>clone s'. clone_playbook ctx now actor tid pid s = Some (Inr (clone, s')) \<and> pb_key clone = key \<and>
       clone \<notin> set (pr_playbooks s) \<and> pr_playbooks s' = pr_playbooks s @ [clone])"
proof -
  have ok: "versions_ok s" "authoring_ok s" using sound by (simp_all add: practice_sound_def)
  obtain key where key: "free_clone_key s tid (pb_key source) = Some key"
    "\<not> list_ex (\<lambda>q. pb_tenant q = tid \<and> pb_key q = key) (pr_playbooks s)"
    using free_clone_key_total by blast
  let ?name = "take 120 (pb_name source @ clone_suffix)"
  show ?thesis
  proof (cases "KEY_MAX_LENGTH < length key")
    case True
    then show ?thesis using key(1)
      by (simp add: clone_playbook_def Let_def src may insert_playbook_def del: take_append)
  next
    case False
  let ?base = "case latest_published s (pb_id source) of Some v \<Rightarrow> Some v | None \<Rightarrow> latest_version s (pb_id source)"
  obtain clone s1 where c: "insert_playbook tid key ?name s = Inr (clone, s1)"
    using key(2) False by (simp add: insert_playbook_def Let_def LABEL_MAX_LENGTH_def del: take_append)
  note c' = insert_playbook_Inr[OF c]
  have "\<forall>v \<in> set (pr_versions s). pv_playbook v \<noteq> pr_next s" using ok(1) by (auto simp: versions_ok_def)
  then have none: "\<not> list_ex (\<lambda>w. pv_tenant w = tid \<and> pv_playbook w = pb_id clone \<and> pv_number w = 1) (pr_versions s1)"
    using c' by (auto simp: list_ex_iff)
  then obtain draft s2 where d: "insert_draft tid (pb_id clone) 1
      (case ?base of None \<Rightarrow> Scope_Object [] | Some v \<Rightarrow> pv_applies_to v) s1 = Inr (draft, s2)"
    by (simp add: insert_draft_def Let_def)
  note d' = insert_draft_Inr[OF d]
  have keys: "distinct (map ss_key (version_steps s2 i))" "list_all step_fits (version_steps s2 i)" for i
    using version_keys_distinct[OF ok(2)] version_steps_fit[OF ok(2)] version_steps_cong[of s2 s i] by (simp_all add: c' d')
  obtain s3 where r: "(case ?base of None \<Rightarrow> Inr s2
      | Some v \<Rightarrow> replace_steps draft (version_steps s2 (pv_id v)) s2) = Inr s3"
    using keys by (cases ?base) (auto simp: replace_steps_def)
  have pb: "pr_playbooks s3 = pr_playbooks s @ [clone]"
    using r c' d' replace_steps_fields(5) by (cases ?base) fastforce+
  have "clone_playbook ctx now actor tid pid s =
      Some (Inr (clone, record_event ''playbook_updated'' (Some actor) (pb_id clone) s3))"
    unfolding clone_playbook_def Let_def src may key(1) sum.case option.case c res_bind_Inr prod.case d r by simp
  moreover have "clone \<notin> set (pr_playbooks s)" using ok(2) c'(2) by (auto simp: authoring_ok_def)
  moreover have "pb_key clone = key" using c by (auto simp: insert_playbook_def Let_def split: if_splits)
  ultimately show ?thesis using pb key(1) False by simp
  qed
qed

section \<open>The preview and the generator\<close>

lemma map_of_each: "map_of (map (\<lambda>k. (k, f k)) ks) k = (if k \<in> set ks then Some (f k) else None)"
  by (induction ks) auto

text \<open>On a timeline without overlaps, the bulk read finds the claim the point read finds.\<close>

lemma bulk_claim:
  assumes "timeline_ok (pr_profiles s)" "ax_tenant ctx = Some tid" "cid \<in> set ids"
  shows "find (\<lambda>p. tp_client p = cid) (covering_profiles s tid ids on) =
    claim_at (filter (\<lambda>p. tp_client p = cid) (scoped ctx tp_tenant (pr_profiles s))) on"
    (is "?bulk = claim_at ?rows on")
proof -
  have mem: "p \<in> set (covering_profiles s tid ids on) \<and> tp_client p = cid \<longleftrightarrow> p \<in> set ?rows \<and> claim_covers on p" for p
    using assms(2,3) by (auto simp: covering_profiles_def scoped_def)
  have one: "p = q" if "p \<in> set ?rows" "claim_covers on p" "q \<in> set ?rows" "claim_covers on q" for p q
  proof (rule ccontr)
    assume "p \<noteq> q"
    moreover have "p \<in> set (pr_profiles s)" "q \<in> set (pr_profiles s)" using that by (auto dest: scoped_in)
    ultimately have "\<not> claims_clash p q" by (intro timeline_no_clash[OF assms(1)])
    moreover have "tp_client p = tp_client q" "tp_tenant p = tp_tenant q" using that by (auto dest!: scoped_in)
    ultimately show False
      using that(2,4) in_force_overlap[of "tp_from p" "tp_to p" on "tp_from q" "tp_to q"]
      by (auto simp: claims_clash_def claim_covers_def)
  qed
  show ?thesis
  proof (cases ?bulk)
    case None
    then have "\<not> (p \<in> set ?rows \<and> claim_covers on p)" for p using mem[of p] by (auto simp: find_None_iff)
    then show ?thesis using None timeline.pick_covers[of ?rows on] by (cases "claim_at ?rows on") auto
  next
    case (Some p)
    then have p: "p \<in> set ?rows \<and> claim_covers on p" using mem[of p] by (auto dest!: find_Some_iff_first)
    then obtain q where q: "claim_at ?rows on = Some q" using timeline.pick_None[of ?rows on p] by fastforce
    show ?thesis using timeline.pick_covers[OF q] one[of p q] p q Some by auto
  qed
qed

lemma matching_clients_iff:
  assumes "timeline_ok (pr_profiles s)" "ax_tenant ctx = Some tid" "distinct (map c_id (ad_clients (pr_authz s)))"
    and c: "c \<in> set (ad_clients (pr_authz s))" "c_tenant c = tid"
  shows "c_id c \<in> set (matching_clients s tid raw on) \<longleftrightarrow>
    c_status c = CL_ACTIVE \<and>
    (at_regimes (parse_applies_to raw) = [] \<or>
     regime_slug (case claim_at (filter (\<lambda>p. tp_client p = c_id c) (scoped ctx tp_tenant (pr_profiles s))) on of
       None \<Rightarrow> UNKNOWN | Some p \<Rightarrow> tp_regime p) \<in> set (at_regimes (parse_applies_to raw))) \<and>
    (at_service_kinds (parse_applies_to raw) = [] \<or>
     (\<exists>e \<in> set (pr_engagements s). en_tenant e = tid \<and> en_client e = c_id c \<and>
        in_force (en_starts_on e) (en_ends_on e) on \<and> en_service_kind e \<in> set (at_service_kinds (parse_applies_to raw))))"
proof -
  let ?ids = "sort (map c_id (filter (\<lambda>c. c_tenant c = tid \<and> c_status c = CL_ACTIVE) (ad_clients (pr_authz s))))"
  have ids: "c_id c \<in> set ?ids \<longleftrightarrow> c_status c = CL_ACTIVE"
    using c assms(3) by (auto simp: distinct_map inj_on_def)
  show ?thesis
  proof (cases "c_id c \<in> set ?ids")
    case False
    then show ?thesis using ids by (simp add: matching_clients_def Let_def)
  next
    case True
    have k: "map_of (service_kinds_at s tid ?ids on) (c_id c) = Some (map en_service_kind (filter (\<lambda>e. en_client e = c_id c)
        (filter (\<lambda>e. en_tenant e = tid \<and> en_client e \<in> set ?ids \<and> in_force (en_starts_on e) (en_ends_on e) on) (pr_engagements s))))"
      using True by (simp only: service_kinds_at_def Let_def map_of_each if_True)
    have r: "map_of (regimes_at s tid ?ids on) (c_id c) = Some (case find (\<lambda>p. tp_client p = c_id c)
        (covering_profiles s tid ?ids on) of None \<Rightarrow> UNKNOWN | Some p \<Rightarrow> tp_regime p)"
      using True by (simp only: regimes_at_def Let_def map_of_each if_True)
    have ks: "list_ex P (map en_service_kind (filter (\<lambda>e. en_client e = c_id c)
        (filter (\<lambda>e. en_tenant e = tid \<and> en_client e \<in> set ?ids \<and> in_force (en_starts_on e) (en_ends_on e) on) (pr_engagements s)))) \<longleftrightarrow>
      (\<exists>e \<in> set (pr_engagements s). en_tenant e = tid \<and> en_client e = c_id c \<and>
        in_force (en_starts_on e) (en_ends_on e) on \<and> P (en_service_kind e))" for P
      using True by (auto simp: list_ex_iff simp del: set_sort)
    show ?thesis
      using True ids unfolding matching_clients_def Let_def set_filter mem_Collect_eq k r option.case
        bulk_claim[OF assms(1,2) True] ks by blast
  qed
qed

text \<open>C14: The preview asks the opener's question: on a timeline without overlapping claims, some engagement of
  the client is eligible for a cycle of the version in a month exactly when the publish preview
  of that month counts the client and the client has an engagement in force that day.\<close>

theorem preview_matches_eligibility:
  assumes "timeline_ok (pr_profiles s)" "ax_tenant ctx = Some tid" "distinct (map c_id (ad_clients (pr_authz s)))"
    and "c \<in> set (ad_clients (pr_authz s))" "c_tenant c = tid"
  shows "(\<exists>e \<in> set (pr_engagements s). en_tenant e = tid \<and> en_client e = c_id c \<and>
      eligible c e v (claim_at (filter (\<lambda>p. tp_client p = c_id c) (scoped ctx tp_tenant (pr_profiles s))) period) period) \<longleftrightarrow>
    c_id c \<in> set (matching_clients s tid (pv_applies_to v) period) \<and>
    (\<exists>e \<in> set (pr_engagements s). en_tenant e = tid \<and> en_client e = c_id c \<and>
      in_force (en_starts_on e) (en_ends_on e) period)"
  unfolding matching_clients_iff[OF assms] eligible_def Let_def in_force_def by blast

section \<open>A concrete firm\<close>

text \<open>The demonstration firm with its playbook: version 1 published, version 2 a draft.\<close>

definition demo_firm :: practice where
  "demo_firm = demo_practice
     \<lparr>pr_authz := demo_authz\<lparr>ad_capabilities := [VIEW_ASSIGNED, VIEW_ALL, CYCLES_OPERATE, CYCLES_REVIEW, PLAYBOOK_GATE],
        ad_role_grants := map (\<lambda>slug. demo_grant OWNER slug FULL) [VIEW_ASSIGNED, VIEW_ALL, CYCLES_OPERATE, CYCLES_REVIEW, PLAYBOOK_GATE]\<rparr>,
      pr_playbooks := [\<lparr>pb_id = 60, pb_tenant = 1, pb_key = ''mei'', pb_name = ''MEI'', pb_is_system = False\<rparr>],
      pr_versions := pr_versions demo_practice @ [\<lparr>pv_id = 62, pv_tenant = 1, pv_playbook = 60, pv_number = 2, pv_state = DRAFT,
        pv_published_at = None, pv_published_by = None, pv_applies_to = Scope_Object [], pv_version = 1\<rparr>],
      pr_steps := pr_steps demo_practice @
        [\<lparr>ps_tenant = 1, ps_version = 62, ps_position = 0, ps_spec = demo_rules ! 0\<rparr>,
         \<lparr>ps_tenant = 1, ps_version = 62, ps_position = 1, ps_spec = demo_rules ! 1\<rparr>]\<rparr>"

definition demo_published :: "(playbook_version \<times> publish_preview) \<times> practice" where
  "demo_published = projr (publish_version demo_ctx 5 (Some (demo_account 1)) 1 60 2 1 (Date 2026 4 20) demo_firm)"

definition demo_retired :: "playbook_version \<times> practice" where
  "demo_retired = projr (retire_version demo_ctx 6 (Some (demo_account 1)) 1 60 1 2 (snd demo_published))"

lemma demo_published_ran: "ran (publish_version demo_ctx 5 (Some (demo_account 1)) 1 60 2 1 (Date 2026 4 20) demo_firm)"
  by code_simp

lemma demo_retired_ran: "ran (retire_version demo_ctx 6 (Some (demo_account 1)) 1 60 1 2 (snd demo_published))"
  by code_simp

lemma demo_firm_graphs: "find_cycle (step_edges (version_steps demo_firm 61)) = []"
  by code_simp

lemma demo_firm_sound: "practice_sound demo_firm"
proof -
  have "cycles_sound demo_firm" "authoring_ok demo_firm" "versions_ok demo_firm"
    by (simp_all add: cycles_sound_def rows_ok_def authoring_ok_def versions_ok_def demo_firm_def demo_practice_def
        demo_rules_def demo_step_def step_fits_def KEY_MAX_LENGTH_def LABEL_MAX_LENGTH_def)
  moreover have "acyclic (graph_of demo_firm 61)"
    using demo_firm_graphs by (simp add: graph_of_def find_cycle_acyclic)
  ultimately show ?thesis by (simp add: practice_sound_def) (simp add: demo_firm_def demo_practice_def)
qed

lemma demo_books_history: "(practice_step id)\<^sup>*\<^sup>* demo_firm (snd demo_retired)"
proof -
  have "practice_step id demo_firm (snd demo_published)"
    unfolding demo_published_def by (rule by_publish[OF ran_Inr[OF demo_published_ran]])
  moreover have "practice_step id (snd demo_published) (snd demo_retired)"
    unfolding demo_retired_def by (rule by_retire[OF ran_Inr[OF demo_retired_ran]])
  ultimately show ?thesis by (meson rtranclp.simps)
qed

theorem published_versions_are_immutable_witness:
  "\<exists>v' \<in> set (pr_versions (snd demo_retired)). pv_id v' = 61 \<and> pv_playbook v' = 60 \<and> pv_number v' = 1 \<and>
    pv_applies_to v' = Scope_Object [] \<and>
    version_steps (snd demo_retired) 61 = version_steps demo_firm 61 \<and>
    (pv_state v' = PUBLISHED \<or> pv_state v' = RETIRED)"
  using published_versions_are_immutable[OF demo_firm_sound _ _ demo_books_history, of "pr_versions demo_firm ! 0"]
  by (simp add: demo_firm_def demo_practice_def)

theorem one_draft_per_playbook_witness:
  "pv_number (pr_versions demo_firm ! 0) \<le> pv_number (pr_versions demo_firm ! 1)"
  using one_draft_per_playbook[OF demo_firm_sound rtranclp.rtrancl_refl, of "pr_versions demo_firm ! 1" "pr_versions demo_firm ! 0"]
  by (simp add: demo_firm_def demo_practice_def)

definition demo_worked :: practice where
  "demo_worked = snd (projr (open_cycle id demo_ctx 0 (Some (demo_account 1)) 51 (Date 2026 5 1) 61 ''k'' demo_firm))"

definition demo_worked_facts :: "practice \<Rightarrow> bool" where
  "demo_worked_facts s =
     (list_ex (\<lambda>c. cy_id c = 100) (pr_cycles s) \<and>
      list_all (\<lambda>t. ct_state t \<noteq> TK_CANCELLED) (tasks_of s 100) \<and>
      list_ex (\<lambda>t. ct_state t \<notin> {TK_ACCEPTED, TK_WAIVED}) (tasks_of s 100))"

lemma demo_worked_ran:
  "ran (run_command id demo_ctx 0 (Open (Some (demo_account 1)) 51 (Date 2026 5 1) 61 ''k'') demo_firm)"
  "demo_worked_facts demo_worked"
  by code_simp+

lemma demo_worked_history: "(practice_step id)\<^sup>*\<^sup>* demo_firm demo_worked"
proof -
  have "run_command id demo_ctx 0 (Open (Some (demo_account 1)) 51 (Date 2026 5 1) 61 ''k'') demo_firm = Inr demo_worked"
    using demo_worked_ran(1) by (auto simp: ran_def demo_worked_def res_bind_def split: sum.splits)
  then show ?thesis by (meson by_cycle r_into_rtranclp)
qed


lemma demo_moved_up: "ran (move_step demo_ctx 5 (Some (demo_account 1)) 1 60 2 1 ''das'' ''up'' demo_firm)"
  by code_simp

theorem moves_can_be_undone_witness:
  "\<exists>w s2. move_step demo_ctx 5 (Some (demo_account 1)) 1 60 2
      (pv_version (fst (projr (move_step demo_ctx 5 (Some (demo_account 1)) 1 60 2 1 ''das'' ''up'' demo_firm)))) ''das'' ''down''
      (snd (projr (move_step demo_ctx 5 (Some (demo_account 1)) 1 60 2 1 ''das'' ''up'' demo_firm))) = Inr (w, s2)"
  using moves_can_be_undone[OF demo_firm_sound ran_Inr[OF demo_moved_up]] by blast

lemma demo_clone_guards:
  "ran (lock_playbook demo_firm 1 60)" "require_manager demo_ctx 5 demo_firm (Some (demo_account 1)) 1 False = Inr ()"
  by code_simp+

lemma demo_two: "str_nat 2 = ''2''"
  by code_simp

theorem cloning_always_answers_witness:
  "\<exists>clone s'. clone_playbook demo_ctx 5 (demo_account 1) 1 60 demo_firm = Some (Inr (clone, s')) \<and> pb_key clone = ''mei-2''"
proof -
  obtain p where "lock_playbook demo_firm 1 60 = Inr p"
    using demo_clone_guards(1) by (auto simp: ran_def split: sum.splits)
  note p = this
  have "pb_key p = ''mei''" using p by (auto simp: lock_playbook_def demo_firm_def)
  moreover have "free_clone_key demo_firm 1 ''mei'' = Some ''mei-2''"
    by (simp add: free_clone_key_def demo_firm_def Let_def free_counter.simps starts_with_def numbered_key_def demo_two)
  ultimately show ?thesis
    using cloning_always_answers[OF demo_firm_sound p demo_clone_guards(2)] by (auto simp: KEY_MAX_LENGTH_def)
qed

theorem preview_matches_eligibility_witness:
  "11 \<in> set (matching_clients demo_firm 1 (Scope_Object []) (Date 2026 5 1))"
proof -
  let ?c = "ad_clients (pr_authz demo_firm) ! 0" and ?v = "pr_versions demo_firm ! 0"
  have "c_id ?c = 11" "pv_applies_to ?v = Scope_Object []"
    by (simp_all add: demo_firm_def demo_practice_def demo_authz_def demo_client_def)
  moreover have "c_id ?c \<in> set (matching_clients demo_firm 1 (pv_applies_to ?v) (Date 2026 5 1)) \<and>
    (\<exists>e \<in> set (pr_engagements demo_firm). en_tenant e = 1 \<and> en_client e = c_id ?c \<and>
      in_force (en_starts_on e) (en_ends_on e) (Date 2026 5 1))"
  proof (subst preview_matches_eligibility[of demo_firm demo_ctx 1 ?c ?v, symmetric])
    show "\<exists>e \<in> set (pr_engagements demo_firm). en_tenant e = 1 \<and> en_client e = c_id ?c \<and>
      eligible ?c e ?v (claim_at (filter (\<lambda>p. tp_client p = c_id ?c)
        (scoped demo_ctx tp_tenant (pr_profiles demo_firm))) (Date 2026 5 1)) (Date 2026 5 1)"
      by code_simp
  qed (simp_all add: timeline_ok_def demo_firm_def demo_practice_def demo_authz_def demo_client_def demo_ctx_def)
  ultimately show ?thesis by simp
qed

end
