(* ===== verification/Cycle_Exceptions.thy ===== *)
theory Cycle_Exceptions
  imports Playbook_Properties
begin

text \<open>
  Owned exceptions of a cycle, \<^verbatim>\<open>apps/cycles/services/exceptions.py\<close>: the registry of reasons, the
  idempotent opener and the versioned triage commands.  A desk is a practice with its table of
  exceptions and the reasons registered at startup.
\<close>

section \<open>Reasons\<close>

record reason =
  rs_next_action :: string
  rs_blocks_completion :: bool
  rs_client_visible :: bool
  rs_label :: string
  rs_client_message :: string

text \<open>A client-visible reason carries the sentence the client reads, and only such a reason does.\<close>

definition mk_reason :: "string \<Rightarrow> bool \<Rightarrow> bool \<Rightarrow> string \<Rightarrow> string \<Rightarrow> reason res" where
  "mk_reason next_action blocks visible label message =
     (if visible \<noteq> (message \<noteq> []) then Inl ValueError
      else Inr \<lparr>rs_next_action = next_action, rs_blocks_completion = blocks, rs_client_visible = visible,
                rs_label = label, rs_client_message = message\<rparr>)"

definition WAIVABLE_REASONS :: "string list" where
  "WAIVABLE_REASONS = [''solicitacao_atrasada'', ''certificado_vencendo'', ''perfil_fiscal_desconhecido'']"

definition register_exception_reason ::
  "string \<Rightarrow> reason \<Rightarrow> (string \<times> reason) list \<Rightarrow> (string \<times> reason) list res" where
  "register_exception_reason code reason reasons =
     (if code \<in> fst ` set reasons then Inl ValueError else Inr (reasons @ [(code, reason)]))"

definition is_waivable :: "(string \<times> reason) list \<Rightarrow> string \<Rightarrow> bool" where
  "is_waivable reasons code = (code \<in> set WAIVABLE_REASONS \<and> map_of reasons code \<noteq> None)"

section \<open>Exceptions\<close>

datatype problem_state = XP_OPEN | XP_HANDLING | XP_RESOLVED | XP_RISK_ACCEPTED | XP_CANCELLED

text \<open>The row and its firm-internal half, which is written with it and never changes.\<close>

record problem =
  xp_id :: int
  xp_tenant :: int
  xp_client :: int
  xp_cycle :: int
  xp_reason :: string
  xp_subject :: int
  xp_owner :: int
  xp_due_on :: "date option"
  xp_review_on :: "date option"
  xp_blocks_completion :: bool
  xp_client_visible :: bool
  xp_client_message :: string
  xp_state :: problem_state
  xp_version :: int
  xp_next_action :: string
  xp_evidence :: "int list"

record desk =
  dk_practice :: practice
  dk_reasons :: "(string \<times> reason) list"
  dk_problems :: "problem list"

definition ACTIVE_STATES :: "problem_state list" where
  "ACTIVE_STATES = [XP_OPEN, XP_HANDLING]"

fun EXCEPTION_TRANSITIONS :: "problem_state \<Rightarrow> problem_state list" where
  "EXCEPTION_TRANSITIONS XP_OPEN = [XP_HANDLING]"
| "EXCEPTION_TRANSITIONS XP_HANDLING = [XP_RESOLVED, XP_RISK_ACCEPTED]"
| "EXCEPTION_TRANSITIONS _ = []"

definition NOTE_REQUIRED :: "problem_state list" where
  "NOTE_REQUIRED = [XP_RESOLVED, XP_RISK_ACCEPTED]"

definition PROBLEM_NOTE_MAX :: nat where "PROBLEM_NOTE_MAX = 2000"

fun problem_slug :: "problem_state \<Rightarrow> string" where
  "problem_slug XP_OPEN = ''aberta''"
| "problem_slug XP_HANDLING = ''em_tratamento''"
| "problem_slug XP_RESOLVED = ''resolvida''"
| "problem_slug XP_RISK_ACCEPTED = ''aceita_como_risco''"
| "problem_slug XP_CANCELLED = ''cancelada''"

section \<open>Opening\<close>

definition active_problem :: "desk \<Rightarrow> int \<Rightarrow> string \<Rightarrow> int \<Rightarrow> problem option" where
  "active_problem s cid code subject =
     find (\<lambda>x. xp_cycle x = cid \<and> xp_reason x = code \<and> xp_subject x = subject \<and>
               xp_state x \<in> set ACTIVE_STATES) (dk_problems s)"

text \<open>The cycle of a trusted opener is read in the tenant context; a person goes through the portfolio.\<close>

definition opening_cycle :: "authz_ctx \<Rightarrow> int \<Rightarrow> practice \<Rightarrow> account option \<Rightarrow> int \<Rightarrow> service_cycle res" where
  "opening_cycle ctx now p actor cid =
     (case actor of
        None \<Rightarrow> the_row (find (\<lambda>c. cy_id c = cid) (scoped ctx cy_tenant (pr_cycles p))) DoesNotExist
      | Some u \<Rightarrow>
          res_bind (load_cycle ctx now p u cid) (\<lambda>c.
          res_bind (require_actor ctx now p u CYCLES_OPERATE) (\<lambda>_. Inr c)))"

definition owner_on_team :: "practice \<Rightarrow> bool \<Rightarrow> int \<Rightarrow> int \<Rightarrow> bool" where
  "owner_on_team p active_only tid owner =
     list_ex (\<lambda>m. ms_tenant m = tid \<and> ms_user m = owner \<and> ms_client m = None \<and> (active_only \<longrightarrow> ms_active m))
       (ad_memberships (pr_authz p))"

definition open_problem ::
  "string \<Rightarrow> int \<Rightarrow> authz_ctx \<Rightarrow> int \<Rightarrow> account option \<Rightarrow> int \<Rightarrow> int \<Rightarrow> int \<Rightarrow> date option \<Rightarrow> date option \<Rightarrow>
   int list \<Rightarrow> (desk, problem) tx" where
  "open_problem code subject ctx now actor cid expected owner due_on review_on evidence s =
     (let p = dk_practice s in
      if due_on = None \<and> review_on = None then Inl (ValidationError ''motivo_e_prazo'')
      else
        res_bind (the_row (map_of (dk_reasons s) code) (ValidationError ''motivo_e_prazo'')) (\<lambda>reason.
        res_bind (opening_cycle ctx now p actor cid) (\<lambda>cycle.
        case active_problem s (cy_id cycle) code subject of
          Some existing \<Rightarrow> Inr (existing, s)
        | None \<Rightarrow>
            res_bind (check_version (cy_version cycle) expected) (\<lambda>_.
            if \<not> owner_on_team p (actor \<noteq> None) (cy_tenant cycle) owner then Inl (ValidationError ''responsavel'')
            else
              (let problem = \<lparr>xp_id = pr_next p, xp_tenant = cy_tenant cycle, xp_client = cy_client cycle,
                     xp_cycle = cy_id cycle, xp_reason = code, xp_subject = subject, xp_owner = owner,
                     xp_due_on = due_on, xp_review_on = review_on,
                     xp_blocks_completion = rs_blocks_completion reason,
                     xp_client_visible = rs_client_visible reason,
                     xp_client_message = rs_client_message reason, xp_state = XP_OPEN, xp_version = 1,
                     xp_next_action = rs_next_action reason, xp_evidence = evidence\<rparr>;
                   bumped = cycle\<lparr>cy_version := cy_version cycle + 1\<rparr>;
                   p1 = save_cycle bumped (p\<lparr>pr_next := pr_next p + 1\<rparr>)
               in Inr (problem, s\<lparr>dk_problems := dk_problems s @ [problem],
                    dk_practice := emit bumped (case actor of None \<Rightarrow> None | Some u \<Rightarrow> Some (u_id u))
                      ''exception.opened'' Cycle_Aggregate (cy_id bumped) (cy_version bumped)
                      [(''exception_id'', str_int (xp_id problem)), (''reason_code'', code)] p1\<rparr>))))))"

section \<open>Triage\<close>

definition locked ::
  "authz_ctx \<Rightarrow> int \<Rightarrow> account \<Rightarrow> int \<Rightarrow> int \<Rightarrow> string \<Rightarrow> desk \<Rightarrow> (service_cycle \<times> problem) res" where
  "locked ctx now actor xid expected capability s =
     res_bind (the_row (find (\<lambda>x. xp_id x = xid) (scoped ctx xp_tenant (dk_problems s))) Http404) (\<lambda>problem.
     res_bind (load_cycle ctx now (dk_practice s) actor (xp_cycle problem)) (\<lambda>cycle.
     res_bind (check_version (xp_version problem) expected) (\<lambda>_.
     res_bind (require_actor ctx now (dk_practice s) actor capability) (\<lambda>_.
       Inr (cycle, problem)))))"

definition eligible_owner :: "authz_ctx \<Rightarrow> int \<Rightarrow> practice \<Rightarrow> service_cycle \<Rightarrow> account \<Rightarrow> bool res" where
  "eligible_owner ctx now p cycle user =
     (if \<not> owner_on_team p True (cy_tenant cycle) (u_id user) then Inr False
      else res_bind (visible_clients ctx (pr_authz p) now (Account user) (Some (cy_tenant cycle))) (\<lambda>clients.
        Inr (list_ex (\<lambda>c. c_id c = cy_client cycle) clients)))"

definition save_problem :: "problem \<Rightarrow> practice \<Rightarrow> desk \<Rightarrow> desk" where
  "save_problem x p s = s\<lparr>dk_problems := row_put xp_id x (dk_problems s), dk_practice := p\<rparr>"

definition assign_exception ::
  "authz_ctx \<Rightarrow> int \<Rightarrow> account \<Rightarrow> int \<Rightarrow> int \<Rightarrow> int \<Rightarrow> (desk, problem) tx" where
  "assign_exception ctx now actor xid owner_id expected s =
     res_bind (locked ctx now actor xid expected CYCLES_OPERATE s) (\<lambda>(cycle, problem).
     if xp_state problem \<notin> set ACTIVE_STATES then Inl IllegalTransition
     else
       (let p = dk_practice s in
        res_bind (the_row (find (\<lambda>u. u_id u = owner_id) (ad_users (pr_authz p))) (ValidationError ''responsavel'')) (\<lambda>owner.
        res_bind (eligible_owner ctx now p cycle owner) (\<lambda>ok.
        if \<not> ok then Inl (ValidationError ''responsavel'')
        else if u_id owner = xp_owner problem then Inr (problem, s)
        else
          (let moved = problem\<lparr>xp_owner := u_id owner, xp_version := xp_version problem + 1\<rparr>
           in Inr (moved, save_problem moved
                (emit cycle (Some (u_id actor)) ''exception.assigned'' Problem_Aggregate (xp_id moved) (xp_version moved)
                   [(''owner_id'', str_int (u_id owner))] p) s))))))"

definition transition_exception ::
  "authz_ctx \<Rightarrow> int \<Rightarrow> account \<Rightarrow> int \<Rightarrow> problem_state \<Rightarrow> int \<Rightarrow> string \<Rightarrow> (desk, problem) tx" where
  "transition_exception ctx now actor xid to_state expected text s =
     (let note = strip text; p = dk_practice s in
      res_bind (locked ctx now actor xid expected
          (if to_state = XP_RISK_ACCEPTED then CYCLES_REVIEW else CYCLES_OPERATE) s) (\<lambda>(cycle, problem).
      if to_state \<notin> set (EXCEPTION_TRANSITIONS (xp_state problem)) then Inl IllegalTransition
      else if to_state = XP_RISK_ACCEPTED \<and> \<not> is_waivable (dk_reasons s) (xp_reason problem) then Inl IllegalTransition
      else if to_state \<in> set NOTE_REQUIRED \<and> note = [] then Inl IllegalTransition
      else if PROBLEM_NOTE_MAX < length note then Inl (ValidationError ''nota'')
      else
        (let moved = problem\<lparr>xp_state := to_state, xp_version := xp_version problem + 1\<rparr>;
             p1 = (if note = [] then p else write_note cycle (u_id actor) note p);
             payload = [(''from'', problem_slug (xp_state problem)), (''to'', problem_slug to_state)] @
               (if note = [] then [] else [(''note_id'', str_int (pr_next p))])
         in Inr (moved, save_problem moved
              (emit cycle (Some (u_id actor)) ''exception.transitioned'' Problem_Aggregate (xp_id moved) (xp_version moved)
                 payload p1) s))))"

end
