(* ===== verification/Exception_Properties.thy ===== *)
theory Exception_Properties
  imports Cycle_Exceptions
begin

text \<open>
  What the exceptions of a cycle promise, over every history that interleaves triage with the
  playbook and cycle commands: an opener converges on one active exception, closed exceptions stay
  as they are, and only a waivable reason is ever accepted as risk.
\<close>

section \<open>Commands that leave the graphs alone\<close>

definition same_graphs :: "practice \<Rightarrow> practice \<Rightarrow> bool" where
  "same_graphs p p' =
     (pr_authz p' = pr_authz p \<and> pr_flags p' = pr_flags p \<and> pr_engagements p' = pr_engagements p \<and>
      pr_versions p' = pr_versions p \<and> pr_steps p' = pr_steps p \<and> pr_playbooks p' = pr_playbooks p \<and>
      pr_tasks p' = pr_tasks p \<and> pr_next p \<le> pr_next p')"

lemma same_graphs_tables:
  assumes "same_graphs p p'"
  shows "authoring_ok p \<Longrightarrow> authoring_ok p'" "versions_ok p \<Longrightarrow> versions_ok p'" "graph_of p' = graph_of p"
    "pr_versions p' = pr_versions p"
proof -
  have f: "pr_versions p' = pr_versions p" "pr_steps p' = pr_steps p" "pr_playbooks p' = pr_playbooks p"
    and n: "pr_next p \<le> pr_next p'"
    using assms by (simp_all add: same_graphs_def)
  have up: "x < pr_next p \<Longrightarrow> x < pr_next p'" for x using n by simp
  show "authoring_ok p \<Longrightarrow> authoring_ok p'" unfolding authoring_ok_def f using up by blast
  show "versions_ok p \<Longrightarrow> versions_ok p'" unfolding versions_ok_def f using up by blast
  show "graph_of p' = graph_of p" by (rule ext) (simp add: graph_of_def version_steps_cong[OF f(2)])
  show "pr_versions p' = pr_versions p" by (rule f)
qed

lemma practice_sound_rewrite:
  assumes sound: "practice_sound p" and c: "c \<in> set (pr_cycles p)" "cy_id c' = cy_id c"
    "cy_playbook_version c' = cy_playbook_version c"
    and p': "same_graphs p p'" "pr_cycles p' = row_put cy_id c' (pr_cycles p)"
  shows "practice_sound p'"
proof -
  have "cycles_sound p'"
    by (rule cycles_sound_rewrite[OF _ c p'(2)]) (use sound p'(1) in \<open>simp_all add: practice_sound_def same_graphs_def\<close>)
  moreover have "authoring_ok p'" "versions_ok p'"
    using sound same_graphs_tables(1,2)[OF p'(1)] by (auto simp: practice_sound_def)
  moreover note same_graphs_tables(3,4)[OF p'(1)]
  moreover have "\<exists>v \<in> set (pr_versions p'). pv_id v = cy_playbook_version x \<and> pv_state v \<noteq> DRAFT"
    if "x \<in> set (pr_cycles p')" for x
  proof -
    have "\<exists>y \<in> set (pr_cycles p). cy_playbook_version x = cy_playbook_version y"
      using that p'(2) c by (auto simp: row_put_def)
    then show ?thesis using sound same_graphs_tables(4)[OF p'(1)] by (auto simp: practice_sound_def)
  qed
  ultimately show ?thesis using sound by (auto simp: practice_sound_def)
qed

lemma practice_sound_same:
  assumes "practice_sound p" "same_graphs p p'" "pr_cycles p' = pr_cycles p"
  shows "practice_sound p'"
proof -
  have "cycles_sound p'"
    using assms unfolding practice_sound_def cycles_sound_def rows_ok_def same_graphs_def
    by (auto simp: tasks_of_def enabled_steps_cong[of p' p])
  moreover have "authoring_ok p'" "versions_ok p'"
    using assms same_graphs_tables(1,2)[OF assms(2)] by (auto simp: practice_sound_def)
  moreover note same_graphs_tables(3,4)[OF assms(2)]
  ultimately show ?thesis using assms(1,3) by (auto simp: practice_sound_def)
qed

lemma practice_step_next:
  assumes "practice_sound p" "practice_step digest p p'"
  shows "pr_next p \<le> pr_next p'"
  using assms
proof (cases rule: practice_step_cases)
  case command
  then show ?thesis using run_command_books by (auto simp: same_books_def)
next
  case written
  then show ?thesis by (simp add: writes_version_def)
qed

section \<open>What the commands do\<close>

lemma opening_cycle_Inr:
  "opening_cycle ctx now p actor cid = Inr c \<Longrightarrow> c \<in> set (pr_cycles p) \<and> cy_id c = cid"
  by (cases actor) (auto simp: opening_cycle_def res_iff dest: load_cycle_Inr dest!: find_scoped)

lemma open_problem_Inr:
  assumes "open_problem code subject ctx now actor cid expected owner due_on review_on evidence s = Inr (r, s')"
  obtains (existing) cycle where "opening_cycle ctx now (dk_practice s) actor cid = Inr cycle"
      "map_of (dk_reasons s) code \<noteq> None" "active_problem s cid code subject = Some r" "s' = s"
    | (opened) cycle where "opening_cycle ctx now (dk_practice s) actor cid = Inr cycle"
      "map_of (dk_reasons s) code \<noteq> None" "active_problem s cid code subject = None"
      "dk_problems s' = dk_problems s @ [r]" "dk_reasons s' = dk_reasons s"
      "xp_id r = pr_next (dk_practice s)" "xp_state r = XP_OPEN" "xp_cycle r = cid" "xp_reason r = code" "xp_subject r = subject"
      "same_graphs (dk_practice s) (dk_practice s')" "pr_next (dk_practice s') = pr_next (dk_practice s) + 1"
      "pr_cycles (dk_practice s') =
        row_put cy_id (cycle\<lparr>cy_version := cy_version cycle + 1\<rparr>) (pr_cycles (dk_practice s))"
proof -
  from assms obtain reason cycle where cycle: "opening_cycle ctx now (dk_practice s) actor cid = Inr cycle"
    and reason: "map_of (dk_reasons s) code = Some reason"
    by (auto simp: open_problem_def Let_def res_iff split: if_splits)
  have cid: "cy_id cycle = cid" using opening_cycle_Inr[OF cycle] by simp
  show ?thesis
  proof (cases "active_problem s cid code subject")
    case (Some x)
    then show ?thesis
      using assms cycle reason cid existing[OF cycle]
      by (auto simp: open_problem_def Let_def res_iff split: if_splits)
  next
    case None
    show ?thesis
      by (rule opened[OF cycle])
        (use assms cycle reason cid None in \<open>auto simp: open_problem_def Let_def res_iff same_graphs_def split: if_splits\<close>)
  qed
qed

lemma locked_Inr:
  "locked ctx now actor xid expected capability s = Inr (cycle, x) \<Longrightarrow>
     x \<in> set (dk_problems s) \<and> xp_id x = xid \<and> xp_version x = expected"
  by (auto simp: locked_def res_iff check_version_def dest!: find_scoped)

text \<open>A triage command rewrites one active exception, keeping what identifies it.\<close>

definition triaged :: "desk \<Rightarrow> desk \<Rightarrow> problem \<Rightarrow> problem \<Rightarrow> bool" where
  "triaged s s' x y =
     (x \<in> set (dk_problems s) \<and> xp_state x \<in> set ACTIVE_STATES \<and> xp_id y = xp_id x \<and>
      xp_cycle y = xp_cycle x \<and> xp_reason y = xp_reason x \<and> xp_subject y = xp_subject x \<and>
      (xp_state y = xp_state x \<or> xp_state y \<in> set (EXCEPTION_TRANSITIONS (xp_state x))) \<and>
      (xp_state y = XP_RISK_ACCEPTED \<longrightarrow> is_waivable (dk_reasons s) (xp_reason x)) \<and>
      dk_problems s' = row_put xp_id y (dk_problems s) \<and> dk_reasons s' = dk_reasons s \<and>
      same_graphs (dk_practice s) (dk_practice s') \<and> pr_cycles (dk_practice s') = pr_cycles (dk_practice s))"

lemma triaged_save:
  assumes "x \<in> set (dk_problems s)" "xp_state x \<in> set ACTIVE_STATES" "xp_id y = xp_id x" "xp_cycle y = xp_cycle x"
    "xp_reason y = xp_reason x" "xp_subject y = xp_subject x"
    and "xp_state y = xp_state x \<or> xp_state y \<in> set (EXCEPTION_TRANSITIONS (xp_state x))"
    and "xp_state y = XP_RISK_ACCEPTED \<Longrightarrow> is_waivable (dk_reasons s) (xp_reason x)"
    and "same_graphs (dk_practice s) p" "pr_cycles p = pr_cycles (dk_practice s)"
  shows "triaged s (save_problem y p s) x y"
  using assms by (simp add: triaged_def save_problem_def)

lemma same_graphs_refl [simp]: "same_graphs p p"
  by (simp add: same_graphs_def)

lemma same_graphs_ops [simp]:
  "same_graphs p (emit c a e g i v l p') \<longleftrightarrow> same_graphs p p'"
  "same_graphs p (write_note c w b p') \<longleftrightarrow> same_graphs p (p'\<lparr>pr_next := pr_next p' + 1\<rparr>)"
  by (simp_all add: same_graphs_def)

lemma same_graphs_next [simp]: "same_graphs p (p\<lparr>pr_next := pr_next p + 1\<rparr>)"
  by (simp add: same_graphs_def)

lemma assign_exception_effect:
  assumes "assign_exception ctx now actor xid owner_id expected s = Inr (r, s')"
  shows "s' = s \<or> (\<exists>x y. triaged s s' x y)"
proof -
  from assms obtain cycle x where x: "locked ctx now actor xid expected CYCLES_OPERATE s = Inr (cycle, x)"
    by (auto simp: assign_exception_def res_bind_eq_Inr)
  have run: "xp_state x \<in> set ACTIVE_STATES \<and> (s' = s \<or> (\<exists>owner who payload.
      s' = save_problem (x\<lparr>xp_owner := owner, xp_version := xp_version x + 1\<rparr>)
        (emit cycle who ''exception.assigned'' Problem_Aggregate (xp_id x) (xp_version x + 1) payload (dk_practice s)) s))"
    using assms x by (auto simp: assign_exception_def res_bind_eq_Inr Let_def split: if_splits)
  show ?thesis
  proof (cases "s' = s")
    case False
    then obtain owner who payload where s': "s' = save_problem (x\<lparr>xp_owner := owner, xp_version := xp_version x + 1\<rparr>)
        (emit cycle who ''exception.assigned'' Problem_Aggregate (xp_id x) (xp_version x + 1) payload (dk_practice s)) s"
      using run by blast
    have "triaged s s' x (x\<lparr>xp_owner := owner, xp_version := xp_version x + 1\<rparr>)"
      unfolding s' by (rule triaged_save) (use run locked_Inr[OF x] in \<open>auto simp: ACTIVE_STATES_def\<close>)
    then show ?thesis by blast
  qed simp
qed

lemma EXCEPTION_TRANSITIONS_active: "y \<in> set (EXCEPTION_TRANSITIONS x) \<Longrightarrow> x \<in> set ACTIVE_STATES"
  by (cases x) (auto simp: ACTIVE_STATES_def)

lemma transition_exception_effect:
  assumes "transition_exception ctx now actor xid to_state expected text s = Inr (r, s')"
  shows "\<exists>x. triaged s s' x r"
proof -
  from assms obtain cycle x where
    x: "locked ctx now actor xid expected (if to_state = XP_RISK_ACCEPTED then CYCLES_REVIEW else CYCLES_OPERATE) s =
      Inr (cycle, x)"
    by (auto simp: transition_exception_def res_bind_eq_Inr Let_def)
  define p1 where "p1 = (if strip text = [] then dk_practice s else write_note cycle (u_id actor) (strip text) (dk_practice s))"
  have run: "to_state \<in> set (EXCEPTION_TRANSITIONS (xp_state x)) \<and>
      (to_state = XP_RISK_ACCEPTED \<longrightarrow> is_waivable (dk_reasons s) (xp_reason x)) \<and>
      r = x\<lparr>xp_state := to_state, xp_version := xp_version x + 1\<rparr> \<and>
      s' = save_problem r (emit cycle (Some (u_id actor)) ''exception.transitioned'' Problem_Aggregate (xp_id r) (xp_version r)
        ([(''from'', problem_slug (xp_state x)), (''to'', problem_slug to_state)] @
          (if strip text = [] then [] else [(''note_id'', str_int (pr_next (dk_practice s)))])) p1) s"
    using assms x unfolding p1_def
    by (auto simp: transition_exception_def res_bind_eq_Inr Let_def split del: if_split split: if_split_asm)
  then obtain who payload where s': "s' = save_problem r
      (emit cycle who ''exception.transitioned'' Problem_Aggregate (xp_id r) (xp_version r) payload p1) s" by blast
  have "triaged s s' x r"
    unfolding s'
    by (rule triaged_save)
      (use run locked_Inr[OF x] EXCEPTION_TRANSITIONS_active[of to_state "xp_state x"] in \<open>auto simp: p1_def\<close>)
  then show ?thesis by blast
qed

section \<open>Histories of a desk\<close>

inductive desk_step :: "(string \<Rightarrow> string) \<Rightarrow> desk \<Rightarrow> desk \<Rightarrow> bool" for digest s where
  by_practice: "practice_step digest (dk_practice s) p \<Longrightarrow> desk_step digest s (s\<lparr>dk_practice := p\<rparr>)"
| by_open: "open_problem code subject ctx now actor cid expected owner due_on review_on evidence s = Inr (r, s') \<Longrightarrow>
    desk_step digest s s'"
| by_assign: "assign_exception ctx now person xid owner_id expected s = Inr (r, s') \<Longrightarrow> desk_step digest s s'"
| by_triage: "transition_exception ctx now person xid to_state expected note s = Inr (r, s') \<Longrightarrow> desk_step digest s s'"

definition same_subject :: "problem \<Rightarrow> problem \<Rightarrow> bool" where
  "same_subject x y = (xp_cycle x = xp_cycle y \<and> xp_reason x = xp_reason y \<and> xp_subject x = xp_subject y)"

definition desk_ok :: "desk \<Rightarrow> bool" where
  "desk_ok s =
     (practice_sound (dk_practice s) \<and> distinct (map xp_id (dk_problems s)) \<and>
      (\<forall>x \<in> set (dk_problems s). xp_id x < pr_next (dk_practice s)) \<and>
      (\<forall>x \<in> set (dk_problems s). \<forall>y \<in> set (dk_problems s).
         xp_state x \<in> set ACTIVE_STATES \<longrightarrow> xp_state y \<in> set ACTIVE_STATES \<longrightarrow> same_subject x y \<longrightarrow> x = y) \<and>
      (\<forall>x \<in> set (dk_problems s). xp_state x = XP_RISK_ACCEPTED \<longrightarrow> is_waivable (dk_reasons s) (xp_reason x)))"

lemma triaged_rows:
  assumes "desk_ok s" "triaged s s' x y"
  shows "dk_problems s' = map (\<lambda>r. if r = x then y else r) (dk_problems s)"
  using assms row_put_map[of xp_id "dk_problems s" x y] by (simp add: desk_ok_def triaged_def)

lemma desk_ok_triaged:
  assumes ok: "desk_ok s" and t: "triaged s s' x y"
  shows "desk_ok s'"
proof -
  note rows = triaged_rows[OF ok t]
  have y: "xp_id y = xp_id x" "xp_cycle y = xp_cycle x" "xp_reason y = xp_reason x" "xp_subject y = xp_subject x"
    and x: "x \<in> set (dk_problems s)" "xp_state x \<in> set ACTIVE_STATES"
    and r: "dk_reasons s' = dk_reasons s" "xp_state y = XP_RISK_ACCEPTED \<longrightarrow> is_waivable (dk_reasons s) (xp_reason x)"
    and p: "same_graphs (dk_practice s) (dk_practice s')" "pr_cycles (dk_practice s') = pr_cycles (dk_practice s)"
    using t by (simp_all add: triaged_def)
  have "practice_sound (dk_practice s')" using ok p by (auto simp: desk_ok_def intro: practice_sound_same)
  moreover have "map xp_id (dk_problems s') = map xp_id (dk_problems s)" using y(1) by (simp add: rows)
  then have "distinct (map xp_id (dk_problems s'))" using ok by (simp only: desk_ok_def)
  moreover have "\<forall>z \<in> set (dk_problems s'). xp_id z < pr_next (dk_practice s')"
    using ok p(1) y(1) x(1) by (fastforce simp: rows desk_ok_def same_graphs_def)
  moreover have "u = v" if uv: "u \<in> set (dk_problems s')" "v \<in> set (dk_problems s')"
    "xp_state u \<in> set ACTIVE_STATES" "xp_state v \<in> set ACTIVE_STATES" "same_subject u v" for u v
  proof -
    have old: "\<exists>w \<in> set (dk_problems s). xp_state w \<in> set ACTIVE_STATES \<and> same_subject w z \<and>
        z = (if w = x then y else w)" if "z \<in> set (dk_problems s')" "xp_state z \<in> set ACTIVE_STATES" for z
      using that x y by (auto simp: rows same_subject_def)
    obtain a b where "a \<in> set (dk_problems s)" "xp_state a \<in> set ACTIVE_STATES" "same_subject a u" "u = (if a = x then y else a)"
      "b \<in> set (dk_problems s)" "xp_state b \<in> set ACTIVE_STATES" "same_subject b v" "v = (if b = x then y else b)"
      using old[OF uv(1,3)] old[OF uv(2,4)] by blast
    moreover from this have "same_subject a b" using uv(5) by (simp add: same_subject_def)
    ultimately show ?thesis using ok by (auto simp: desk_ok_def)
  qed
  moreover have "\<forall>z \<in> set (dk_problems s'). xp_state z = XP_RISK_ACCEPTED \<longrightarrow> is_waivable (dk_reasons s') (xp_reason z)"
    using ok r y(3) by (auto simp: rows desk_ok_def)
  ultimately show ?thesis unfolding desk_ok_def by blast
qed

lemma desk_ok_opened:
  assumes ok: "desk_ok s"
    and run: "open_problem code subject ctx now actor cid expected owner due_on review_on evidence s = Inr (r, s')"
  shows "desk_ok s'"
  using run
proof (cases rule: open_problem_Inr)
  case existing
  then show ?thesis using ok by simp
next
  case (opened cycle)
  note c = opening_cycle_Inr[OF opened(1)]
  have "practice_sound (dk_practice s')"
    using ok c by (intro practice_sound_rewrite[OF _ _ _ _ opened(11,13)]) (auto simp: desk_ok_def)
  moreover have "\<not> (xp_state x \<in> set ACTIVE_STATES \<and> same_subject x r)" if "x \<in> set (dk_problems s)" for x
    using that opened(3,8-10) by (auto simp: active_problem_def find_None_iff same_subject_def)
  ultimately show ?thesis
    using ok opened(4-7,12) unfolding desk_ok_def by (auto simp: same_subject_def) fastforce+
qed

lemma desk_step_ok:
  assumes ok: "desk_ok s" and step: "desk_step digest s s'"
  shows "desk_ok s'"
  using step
proof cases
  case (by_practice p)
  then have "practice_sound p" "pr_next (dk_practice s) \<le> pr_next p"
    using ok practice_step_sound practice_step_next by (auto simp: desk_ok_def)
  then show ?thesis using ok by_practice(1) by (fastforce simp: desk_ok_def)
next
  case by_open
  then show ?thesis by (rule desk_ok_opened[OF ok])
next
  case by_assign
  from assign_exception_effect[OF this] show ?thesis using ok desk_ok_triaged by blast
next
  case by_triage
  from transition_exception_effect[OF this] show ?thesis using ok desk_ok_triaged by blast
qed

lemma desk_history_ok: "(desk_step digest)\<^sup>*\<^sup>* s0 s \<Longrightarrow> desk_ok s0 \<Longrightarrow> desk_ok s"
  by (induction rule: rtranclp_induct) (auto intro: desk_step_ok)

section \<open>Properties\<close>

lemma find_append_None: "find P xs = None \<Longrightarrow> P y \<Longrightarrow> find P (xs @ [y]) = Some y"
  by (induction xs) (auto split: if_splits)

lemma opening_cycle_put:
  assumes "opening_cycle ctx now p actor cid = Inr c" "same_graphs p p'" "pr_cycles p' = row_put cy_id c' (pr_cycles p)"
    and c': "cy_id c' = cy_id c" "cy_tenant c' = cy_tenant c" "cy_client c' = cy_client c"
  shows "opening_cycle ctx now p' actor cid = Inr c'"
proof -
  have g: "pr_flags p' = pr_flags p" "pr_authz p' = pr_authz p" "pr_engagements p' = pr_engagements p"
    using assms(2) by (simp_all add: same_graphs_def)
  have "find (\<lambda>x. cy_id x = cid) (filter (\<lambda>x. cy_tenant x = tid) (row_put cy_id c' rows)) = Some c'"
    if "find (\<lambda>x. cy_id x = cid) (filter (\<lambda>x. cy_tenant x = tid) rows) = Some c" for tid rows
    using that c'(1,2) by (induction rows) (auto split: if_splits)
  then have found: "find (\<lambda>x. cy_id x = cid) (scoped ctx cy_tenant (pr_cycles p')) = Some c'"
    if "find (\<lambda>x. cy_id x = cid) (scoped ctx cy_tenant (pr_cycles p)) = Some c"
    using that by (auto simp: scoped_def assms(3) split: option.splits)
  show ?thesis
    using assms(1) found c'(3)
    by (cases actor) (auto simp: opening_cycle_def load_cycle_def res_iff require_actor_def guards_frame[OF g] g)
qed


text \<open>C38: One active exception: in every state a desk can reach, two exceptions that are open or in handling
  for the same cycle, reason and subject are the same row.\<close>

theorem one_active_exception:
  assumes "desk_ok s0" "(desk_step digest)\<^sup>*\<^sup>* s0 s"
    and "x \<in> set (dk_problems s)" "xp_state x \<in> {XP_OPEN, XP_HANDLING}"
    and "y \<in> set (dk_problems s)" "xp_state y \<in> {XP_OPEN, XP_HANDLING}"
    and "xp_cycle x = xp_cycle y" "xp_reason x = xp_reason y" "xp_subject x = xp_subject y"
  shows "x = y"
  using desk_history_ok[OF assms(2,1)] assms(3-) by (auto simp: desk_ok_def same_subject_def ACTIVE_STATES_def)

text \<open>C39: Uncertainty is never waved through: whatever happens at a desk, an exception accepted as risk has one
  of the three waivable reasons, so none about an uncertain or refused delivery is.\<close>

theorem risk_acceptance_only_waivable:
  assumes "desk_ok s0" "(desk_step digest)\<^sup>*\<^sup>* s0 s"
    and "x \<in> set (dk_problems s)" "xp_state x = XP_RISK_ACCEPTED"
  shows "xp_reason x \<in> set WAIVABLE_REASONS \<and> xp_reason x \<notin> {''delivery_unknown'', ''delivery_rejected''}"
proof -
  have "is_waivable (dk_reasons s) (xp_reason x)"
    using desk_history_ok[OF assms(2,1)] assms(3,4) by (simp add: desk_ok_def)
  then show ?thesis by (auto simp: is_waivable_def WAIVABLE_REASONS_def)
qed

lemma closed_exception_step:
  assumes "desk_ok s" "desk_step digest s s'" "x \<in> set (dk_problems s)" "xp_state x \<notin> set ACTIVE_STATES"
  shows "x \<in> set (dk_problems s')"
proof -
  have t: "x \<in> set (dk_problems s')" if "triaged s s' a b" for a b
  proof -
    have "x \<noteq> a" using that assms(4) by (auto simp: triaged_def)
    then show ?thesis using assms(3) unfolding triaged_rows[OF assms(1) that] by force
  qed
  show ?thesis
    using assms(2)
  proof cases
    case by_open
    then show ?thesis by (cases rule: open_problem_Inr) (use assms(3) in auto)
  next
    case by_assign
    from assign_exception_effect[OF this] show ?thesis using t assms(3) by auto
  next
    case by_triage
    from transition_exception_effect[OF this] show ?thesis using t by auto
  qed (use assms(3) in simp)
qed

text \<open>Closed is final: an exception that was resolved or accepted as risk keeps its row unchanged through
  everything that happens at the desk afterwards.\<close>

theorem closed_exceptions_are_final:
  assumes "desk_ok s0" "x \<in> set (dk_problems s0)" "xp_state x \<notin> {XP_OPEN, XP_HANDLING}"
    and "(desk_step digest)\<^sup>*\<^sup>* s0 s"
  shows "x \<in> set (dk_problems s)"
  using assms(4)
proof (induction rule: rtranclp_induct)
  case base
  show ?case by (rule assms(2))
next
  case (step s s')
  show ?case
    using closed_exception_step[OF desk_history_ok[OF step(1) assms(1)] step(2,3)] assms(3)
    by (simp add: ACTIVE_STATES_def)
qed

section \<open>A concrete desk\<close>

definition demo_desk :: desk where
  "demo_desk = \<lparr>dk_practice = demo_worked,
     dk_reasons = [(''delivery_unknown'', \<lparr>rs_next_action = ''Verifique o envio'', rs_blocks_completion = True,
         rs_client_visible = False, rs_label = '''', rs_client_message = ''''\<rparr>),
       (''solicitacao_atrasada'', \<lparr>rs_next_action = ''Cobre o cliente'', rs_blocks_completion = True,
         rs_client_visible = False, rs_label = '''', rs_client_message = ''''\<rparr>)],
     dk_problems = []\<rparr>"

definition demo_late :: "problem \<times> desk" where
  "demo_late = projr (open_problem ''solicitacao_atrasada'' 7 demo_ctx 0 (Some (demo_account 1)) 100 1 1
     None (Some (Date 2026 5 9)) [] demo_desk)"

definition demo_handled :: "problem \<times> desk" where
  "demo_handled = projr (transition_exception demo_ctx 0 (demo_account 1) (xp_id (fst demo_late)) XP_HANDLING 1 '''' (snd demo_late))"

definition demo_accepted :: "problem \<times> desk" where
  "demo_accepted = projr (transition_exception demo_ctx 0 (demo_account 1) (xp_id (fst demo_late)) XP_RISK_ACCEPTED 2 ''ciente'' (snd demo_handled))"

definition demo_reopened :: "problem \<times> desk" where
  "demo_reopened = projr (open_problem ''solicitacao_atrasada'' 7 demo_ctx 0 None 100 2 1
     None (Some (Date 2026 5 9)) [] (snd demo_accepted))"

lemma demo_desk_ran:
  "ran (open_problem ''solicitacao_atrasada'' 7 demo_ctx 0 (Some (demo_account 1)) 100 1 1
     None (Some (Date 2026 5 9)) [] demo_desk)"
  "ran (transition_exception demo_ctx 0 (demo_account 1) (xp_id (fst demo_late)) XP_HANDLING 1 '''' (snd demo_late))"
  "ran (transition_exception demo_ctx 0 (demo_account 1) (xp_id (fst demo_late)) XP_RISK_ACCEPTED 2 ''ciente'' (snd demo_handled))"
  "ran (open_problem ''solicitacao_atrasada'' 7 demo_ctx 0 None 100 2 1
     None (Some (Date 2026 5 9)) [] (snd demo_accepted))"
  by code_simp+

lemma demo_desk_ok: "desk_ok demo_desk"
proof -
  have "practice_sound demo_worked" by (rule practice_history_sound[OF demo_worked_history demo_firm_sound])
  then show ?thesis by (simp add: desk_ok_def demo_desk_def)
qed

lemma demo_desk_history:
  "(desk_step id)\<^sup>*\<^sup>* demo_desk (snd demo_late)" "(desk_step id)\<^sup>*\<^sup>* demo_desk (snd demo_accepted)"
  "(desk_step id)\<^sup>*\<^sup>* (snd demo_accepted) (snd demo_reopened)"
proof -
  have s: "desk_step id demo_desk (snd demo_late)"
    unfolding demo_late_def by (rule by_open[OF ran_Inr[OF demo_desk_ran(1)]])
  have h: "desk_step id (snd demo_late) (snd demo_handled)"
    unfolding demo_handled_def by (rule by_triage[OF ran_Inr[OF demo_desk_ran(2)]])
  have a: "desk_step id (snd demo_handled) (snd demo_accepted)"
    unfolding demo_accepted_def by (rule by_triage[OF ran_Inr[OF demo_desk_ran(3)]])
  have r: "desk_step id (snd demo_accepted) (snd demo_reopened)"
    unfolding demo_reopened_def by (rule by_open[OF ran_Inr[OF demo_desk_ran(4)]])
  show "(desk_step id)\<^sup>*\<^sup>* demo_desk (snd demo_late)" "(desk_step id)\<^sup>*\<^sup>* (snd demo_accepted) (snd demo_reopened)"
    by (rule r_into_rtranclp, rule s, rule r_into_rtranclp, rule r)
  show "(desk_step id)\<^sup>*\<^sup>* demo_desk (snd demo_accepted)"
    by (rule rtranclp.rtrancl_into_rtrancl, rule rtranclp.rtrancl_into_rtrancl, rule r_into_rtranclp)
      (rule s, rule h, rule a)
qed

definition demo_desk_facts :: bool where
  "demo_desk_facts =
     (let late = fst demo_late; taken = fst demo_accepted; again = fst demo_reopened in
      list_ex (\<lambda>x. x = late) (dk_problems (snd demo_late)) \<and> xp_state late = XP_OPEN \<and>
      list_ex (\<lambda>x. x = taken) (dk_problems (snd demo_accepted)) \<and> xp_state taken = XP_RISK_ACCEPTED \<and>
      xp_id again \<noteq> xp_id taken)"

lemma demo_desk_facts: demo_desk_facts
  by code_simp


theorem one_active_exception_witness:
  "find (\<lambda>x. xp_reason x = ''solicitacao_atrasada'' \<and> xp_state x = XP_OPEN) (dk_problems (snd demo_late)) = Some (fst demo_late)"
proof -
  let ?P = "\<lambda>x. xp_reason x = ''solicitacao_atrasada'' \<and> xp_state x = XP_OPEN"
  have f: "find ?P (dk_problems (snd demo_late)) \<noteq> None" "xp_cycle (fst demo_late) = 100"
    "list_all (\<lambda>x. xp_cycle x = 100 \<and> xp_subject x = 7) (dk_problems (snd demo_late))" "xp_subject (fst demo_late) = 7"
    "xp_reason (fst demo_late) = ''solicitacao_atrasada''"
    by code_simp+
  then obtain x where x: "find ?P (dk_problems (snd demo_late)) = Some x" by blast
  have "x = fst demo_late"
    using demo_desk_facts f x
    by (intro one_active_exception[OF demo_desk_ok demo_desk_history(1)])
      (auto simp: demo_desk_facts_def Let_def list_ex_iff list_all_iff dest!: find_Some_iff_first)
  then show ?thesis using x by simp
qed

theorem risk_acceptance_only_waivable_witness:
  "xp_reason (fst demo_accepted) \<in> set WAIVABLE_REASONS \<and> xp_reason (fst demo_accepted) \<notin> {''delivery_unknown'', ''delivery_rejected''}"
  using demo_desk_facts
  by (intro risk_acceptance_only_waivable[OF demo_desk_ok demo_desk_history(2)])
    (auto simp: demo_desk_facts_def Let_def list_ex_iff)

theorem closed_exceptions_are_final_witness:
  "fst demo_accepted \<in> set (dk_problems (snd demo_reopened))"
  using demo_desk_facts
  by (intro closed_exceptions_are_final[OF desk_history_ok[OF demo_desk_history(2) demo_desk_ok] _ _ demo_desk_history(3)])
    (auto simp: demo_desk_facts_def Let_def list_ex_iff)

end
