(* ===== verification/Delivery_Outbox.thy ===== *)
theory Delivery_Outbox
  imports Cycle_Exceptions
begin

text \<open>
  The e-mail outbox of \<^verbatim>\<open>apps/delivery\<close>: the message rows and their receipts (\<^verbatim>\<open>models.py\<close>), the
  versioned firm commands and the dispatcher's short database phases (\<^verbatim>\<open>services.py\<close>), the pre-send
  re-evaluation (\<^verbatim>\<open>policy.py\<close>), the single egress (\<^verbatim>\<open>gateway.py\<close>) and the cancellation of reminders.
  Each phase is one transaction: between a worker's claim, its send and its finalization anything
  may happen.

  A firm's outbox sits on its desk; \<open>bx_versions\<close> is the version column of its client rows.  The registered message kinds with their hooks, the notice
  authority and the digests are arguments, gathered in \<open>delivery_env\<close>.
\<close>

section \<open>Rows\<close>

text \<open>
  \<open>INTENT_STARTED\<close> is no member of \<^verbatim>\<open>MessageState\<close>: it is the journal's start marker, a string the
  state column would take, and only the replay of a journal could put it there.
\<close>

datatype message_state =
    QUEUED | SENDING | ACCEPTED | TEMPORARY | REJECTED | SEND_UNKNOWN | MSG_CANCELLED | MANUAL_SENT | MANUAL_NOT_SENT
  | INTENT_STARTED

record message =
  mg_id :: int
  mg_tenant :: int
  mg_client :: int
  mg_contact :: int
  mg_cycle :: "int option"
  mg_created_by :: int
  mg_kind :: string
  mg_idempotency :: string
  mg_intent :: string
  mg_digest :: string
  mg_authorization :: string
  mg_recipients :: "string list"
  mg_subject :: string
  mg_body_ref :: string
  mg_portal_url :: string
  mg_invite :: "int option"
  mg_request :: "int option"
  mg_proposal :: "int option"
  mg_retry_of :: "int option"
  mg_state :: message_state
  mg_attempts :: nat
  mg_next_at :: int
  mg_error :: string
  mg_owner :: "int option"
  mg_until :: "int option"
  mg_fence :: int
  mg_send_started :: "int option"
  mg_version :: int
  mg_note :: string

record attempt =
  at_message :: int
  at_owner :: "int option"
  at_fence :: int
  at_outcome :: message_state
  at_code :: string
  at_actor :: "int option"
  at_note :: string

record delivery_effect =
  ef_tenant :: int
  ef_client :: int
  ef_message :: "int option"
  ef_intent :: string
  ef_digest :: string
  ef_outcome :: message_state

record automation_pause =
  pz_id :: int
  pz_tenant :: int
  pz_paused :: bool
  pz_version :: int
  pz_quota_day :: date
  pz_reserved_today :: int

record client_contact =
  cc_id :: int
  cc_tenant :: int
  cc_client :: int
  cc_active :: bool
  cc_email_allowed :: bool
  cc_email :: string

record outbox =
  bx_desk :: desk
  bx_contacts :: "client_contact list"
  bx_messages :: "message list"
  bx_attempts :: "attempt list"
  bx_effects :: "delivery_effect list"
  bx_controls :: "automation_pause list"
  bx_audit :: "(string \<times> int \<times> int) list"
  bx_versions :: "(int \<times> int) list"
  bx_next :: int

record delivery_claim =
  cl_tenant :: int
  cl_message :: int
  cl_fence :: int
  cl_owner :: int

record reply =
  rp_state :: message_state
  rp_code :: string

text \<open>A registered kind: template and hooks.  The hooks read live rows of the desk; a refused invitation's
  own terminal hook writes there.\<close>

record message_kind =
  mk_subject :: string
  mk_template :: string
  mk_still_valid :: "message \<Rightarrow> desk \<Rightarrow> bool \<times> string"
  mk_prepare :: "(message \<Rightarrow> desk \<Rightarrow> string + (string \<times> string) list) option"
  mk_on_rejected :: "(message \<Rightarrow> desk \<Rightarrow> desk res) option"

text \<open>The natural identity of an effect (\<^verbatim>\<open>intents.py\<close>).\<close>

record business_intent =
  bi_engagement :: int
  bi_playbook :: int
  bi_period_start :: date
  bi_period_end :: date
  bi_amendment :: int
  bi_step_key :: string
  bi_action_kind :: string
  bi_occurrence :: int

record delivery_env =
  de_paused :: bool
  de_daily_cap :: int
  de_kinds :: "(string \<times> message_kind) list"
  de_validate_notice :: "message \<Rightarrow> desk \<Rightarrow> bool \<times> string"
  de_render :: "string \<Rightarrow> string \<Rightarrow> (string \<times> string) list \<Rightarrow> string"
  de_content_digest :: "int \<Rightarrow> string list \<Rightarrow> string \<Rightarrow> string \<Rightarrow> string \<Rightarrow> string"
  de_note_digest :: "string \<Rightarrow> string"
  de_valid_email :: "string \<Rightarrow> bool"
  de_idna :: "string \<Rightarrow> string"
  de_notice_mode :: "string \<Rightarrow> string"
  de_portal_url :: "int \<Rightarrow> string"
  de_intent_key :: "int \<Rightarrow> business_intent \<Rightarrow> string"
  de_key_digest :: "string \<Rightarrow> string"
  de_amendment :: "int \<Rightarrow> int"

definition SEND_ATTEMPTS :: nat where "SEND_ATTEMPTS = 6"
definition CLAIM_LIMIT :: int where "CLAIM_LIMIT = 50"
definition SEND_LEASE_SECONDS :: int where "SEND_LEASE_SECONDS = 120"
definition RETRY_MINUTES :: "int list" where "RETRY_MINUTES = [1, 5, 15, 60, 60]"
definition AUTOMATIONS_MANAGE :: string where "AUTOMATIONS_MANAGE = ''automations.manage''"

fun DELIVERY_TRANSITIONS :: "message_state \<Rightarrow> message_state list" where
  "DELIVERY_TRANSITIONS QUEUED = [SENDING, MSG_CANCELLED]"
| "DELIVERY_TRANSITIONS TEMPORARY = [SENDING, MSG_CANCELLED]"
| "DELIVERY_TRANSITIONS SENDING = [ACCEPTED, TEMPORARY, REJECTED, SEND_UNKNOWN, MSG_CANCELLED]"
| "DELIVERY_TRANSITIONS SEND_UNKNOWN = [MANUAL_SENT, MANUAL_NOT_SENT]"
| "DELIVERY_TRANSITIONS _ = []"

fun message_slug :: "message_state \<Rightarrow> string" where
  "message_slug QUEUED = ''na_fila''"
| "message_slug SENDING = ''enviando''"
| "message_slug ACCEPTED = ''aceita_pelo_provedor''"
| "message_slug TEMPORARY = ''falhou_temporario''"
| "message_slug REJECTED = ''recusada_pelo_provedor''"
| "message_slug SEND_UNKNOWN = ''resultado_incerto''"
| "message_slug MSG_CANCELLED = ''cancelada''"
| "message_slug MANUAL_SENT = ''informada_enviada''"
| "message_slug MANUAL_NOT_SENT = ''informada_nao_enviada''"
| "message_slug INTENT_STARTED = ''intent_started''"

section \<open>Policy\<close>

definition office :: "outbox \<Rightarrow> practice" where
  "office s = dk_practice (bx_desk s)"

definition enabled_kinds :: "delivery_env \<Rightarrow> authz_ctx \<Rightarrow> outbox \<Rightarrow> string list res" where
  "enabled_kinds env ctx s =
     res_bind (feature_on ctx (office s) ''cycles_r1'') (\<lambda>cycles.
     res_bind (feature_on ctx (office s) ''import_r1'') (\<lambda>importing.
       Inr (filter (\<lambda>k. if k = ''contact_portal_invite'' then importing else cycles) (map fst (de_kinds env)))))"

text \<open>The identifier arrives parsed; a text that is no identifier is refused like an unknown one.\<close>

definition resolve_recipient :: "delivery_env \<Rightarrow> authz_ctx \<Rightarrow> outbox \<Rightarrow> int \<Rightarrow> int \<Rightarrow> client_contact res" where
  "resolve_recipient env ctx s cid contact_id =
     res_bind (the_row (find (\<lambda>c. cc_id c = contact_id \<and> cc_client c = cid \<and> cc_active c \<and> cc_email_allowed c)
         (scoped ctx cc_tenant (bx_contacts s))) (ValidationError ''contato'')) (\<lambda>c.
     if \<not> de_valid_email env (cc_email c) then Inl (ValidationError ''email'')
     else if CHR 0x0A \<in> set (cc_email c) \<or> CHR 0x0D \<in> set (cc_email c) then Inl (ValidationError ''email'')
     else Inr c)"

definition approved_kind :: "string \<Rightarrow> bool" where
  "approved_kind k = (k = ''approved_email'' \<or> k = ''approved_publication_notice'')"

definition render_body :: "delivery_env \<Rightarrow> message \<Rightarrow> (string \<times> string) list \<Rightarrow> string res" where
  "render_body env m secrets =
     (if approved_kind (mg_kind m) then Inr ''''
      else res_bind (the_row (map_of (de_kinds env) (mg_kind m)) KeyError) (\<lambda>k.
        Inr (de_render env (mk_template k) (mg_portal_url m) secrets)))"

definition content_digest :: "delivery_env \<Rightarrow> message \<Rightarrow> string res" where
  "content_digest env m =
     res_bind (render_body env m []) (\<lambda>body.
       Inr (de_content_digest env (mg_contact m) (mg_recipients m) (mg_subject m) (mg_body_ref m) body))"

text \<open>\<^verbatim>\<open>normalize_email\<close>: the text after the last at sign is the domain.\<close>

definition normalize_email :: "delivery_env \<Rightarrow> string \<Rightarrow> string res" where
  "normalize_email env address =
     (let domain = rev (takeWhile (\<lambda>c. c \<noteq> CHR ''@'') (rev address));
          rest = rev (dropWhile (\<lambda>c. c \<noteq> CHR ''@'') (rev address));
          local_part = butlast rest
      in if rest = [] \<or> local_part = [] \<or> domain = [] then Inl ValueError
         else Inr (local_part @ ''@'' @ de_idna env domain))"

definition still_valid :: "delivery_env \<Rightarrow> authz_ctx \<Rightarrow> outbox \<Rightarrow> message \<Rightarrow> (bool \<times> string) res" where
  "still_valid env ctx s m =
     (case map_of (de_kinds env) (mg_kind m) of
        None \<Rightarrow> Inr (False, ''unregistered_kind'')
      | Some k \<Rightarrow>
          (let approved = approved_kind (mg_kind m);
               (valid, reason) = (if approved then mk_still_valid k m (bx_desk s)
                                  else de_validate_notice env m (bx_desk s))
           in if \<not> valid then Inr (False, reason)
              else
                (case resolve_recipient env ctx s (mg_client m) (mg_contact m) of
                   Inl _ \<Rightarrow> Inr (False, ''recipient_not_allowed'')
                 | Inr contact \<Rightarrow>
                     res_bind (if approved then normalize_email env (cc_email contact) else Inr (cc_email contact)) (\<lambda>address.
                     if mg_recipients m \<noteq> [address] then Inr (False, ''recipient_changed'')
                     else if list_ex (\<lambda>c. Some (cy_id c) = mg_cycle m \<and> cy_state c \<notin> set OPEN_STATES)
                               (scoped ctx cy_tenant (pr_cycles (office s)))
                     then Inr (False, ''cycle_closed'')
                     else res_bind (content_digest env m) (\<lambda>d.
                       if mg_digest m \<noteq> d then Inr (False, ''content_changed'')
                       else Inr (if approved then (True, '''') else mk_still_valid k m (bx_desk s)))))))"

section \<open>Receipts and state changes\<close>

definition record_attempt ::
  "delivery_env \<Rightarrow> message \<Rightarrow> message_state \<Rightarrow> string \<Rightarrow> int option \<Rightarrow> string \<Rightarrow> outbox \<Rightarrow> outbox" where
  "record_attempt env m outcome code actor note s =
     (let row = \<lparr>at_message = mg_id m, at_owner = mg_owner m, at_fence = mg_fence m, at_outcome = outcome,
            at_code = code, at_actor = actor, at_note = (if note = [] then [] else de_note_digest env note)\<rparr>;
          p = office s;
          p' = (case mg_cycle m of None \<Rightarrow> p | Some cid \<Rightarrow>
            p\<lparr>pr_cycle_events := pr_cycle_events p @ [\<lparr>ce_cycle = cid, ce_actor = actor, ce_type = ''delivery.observed'',
               ce_aggregate = Message_Aggregate, ce_aggregate_id = mg_id m, ce_aggregate_version = mg_version m,
               ce_payload = [(''state'', message_slug outcome), (''code'', code)]\<rparr>]\<rparr>)
      in s\<lparr>bx_attempts := bx_attempts s @ [row], bx_desk := (bx_desk s)\<lparr>dk_practice := p'\<rparr>\<rparr>)"

definition save_message :: "message \<Rightarrow> outbox \<Rightarrow> outbox" where
  "save_message m s = s\<lparr>bx_messages := row_put mg_id m (bx_messages s)\<rparr>"

text \<open>The message object as the caller holds it afterwards, whether it moved, and the new tables.\<close>

definition transition ::
  "delivery_env \<Rightarrow> message \<Rightarrow> reply \<Rightarrow> int option \<Rightarrow> string \<Rightarrow> outbox \<Rightarrow> (bool \<times> message) \<times> outbox" where
  "transition env m reply actor note s =
     (if rp_state reply \<in> set (DELIVERY_TRANSITIONS (mg_state m)) then
        (let moved = m\<lparr>mg_state := rp_state reply, mg_error := rp_code reply, mg_version := mg_version m + 1,
                       mg_note := (if note = [] then mg_note m else note)\<rparr>
         in ((True, moved), record_attempt env moved (rp_state reply) (rp_code reply) actor note (save_message moved s)))
      else ((False, m), record_attempt env m (rp_state reply) ''late_observation'' actor note s))"

definition recorded_effect :: "authz_ctx \<Rightarrow> outbox \<Rightarrow> message \<Rightarrow> delivery_effect option" where
  "recorded_effect ctx s m =
     find (\<lambda>e. ef_client e = mg_client m \<and> ef_intent e = mg_intent m) (scoped ctx ef_tenant (bx_effects s))"

definition record_effect :: "authz_ctx \<Rightarrow> message \<Rightarrow> outbox \<Rightarrow> outbox res" where
  "record_effect ctx m s =
     (case recorded_effect ctx s m of
        Some e \<Rightarrow> if ef_digest e \<noteq> mg_digest m then Inl IntentConflict else Inr s
      | None \<Rightarrow>
          if list_ex (\<lambda>e. ef_tenant e = mg_tenant m \<and> ef_client e = mg_client m \<and> ef_message e = Some (mg_id m)) (bx_effects s)
          then Inl IntegrityError
          else Inr (s\<lparr>bx_effects := bx_effects s @
            [\<lparr>ef_tenant = mg_tenant m, ef_client = mg_client m, ef_message = Some (mg_id m), ef_intent = mg_intent m,
              ef_digest = mg_digest m, ef_outcome = mg_state m\<rparr>]\<rparr>))"

definition report_problem :: "delivery_env \<Rightarrow> authz_ctx \<Rightarrow> clock \<Rightarrow> message \<Rightarrow> outbox \<Rightarrow> outbox res" where
  "report_problem env ctx ck m s =
     res_bind (case map_of (de_kinds env) (mg_kind m) of
         None \<Rightarrow> Inr (bx_desk s)
       | Some k \<Rightarrow> (case mk_on_rejected k of
           None \<Rightarrow> Inr (bx_desk s)
         | Some hook \<Rightarrow> if mg_state m = REJECTED then hook m (bx_desk s) else Inr (bx_desk s))) (\<lambda>d.
     case mg_cycle m of
       None \<Rightarrow> Inr (s\<lparr>bx_desk := d\<rparr>)
     | Some cid \<Rightarrow>
         res_bind (the_row (find (\<lambda>c. cy_id c = cid) (scoped ctx cy_tenant (pr_cycles (dk_practice d)))) DoesNotExist) (\<lambda>cycle.
         res_bind (open_problem (if mg_state m = SEND_UNKNOWN then ''delivery_unknown'' else ''delivery_rejected'')
             (mg_id m) ctx (ck_now ck) None (cy_id cycle) (cy_version cycle)
             (case cy_owner cycle of Some u \<Rightarrow> u | None \<Rightarrow> mg_created_by m) None (Some (ck_today ck)) [] d)
           (\<lambda>(_, d'). Inr (s\<lparr>bx_desk := d'\<rparr>))))"

section \<open>Claiming\<close>

text \<open>One coordination row per firm, made on first use and locked for the transaction.\<close>

definition lock_control :: "authz_ctx \<Rightarrow> clock \<Rightarrow> (outbox, automation_pause) tx" where
  "lock_control ctx ck s =
     res_bind (current_tenant ctx) (\<lambda>tid.
     case find (\<lambda>c. pz_tenant c = tid) (scoped ctx pz_tenant (bx_controls s)) of
       Some c \<Rightarrow> Inr (c, s)
     | None \<Rightarrow>
         (let c = \<lparr>pz_id = bx_next s, pz_tenant = tid, pz_paused = False, pz_version = 1,
                   pz_quota_day = ck_today ck, pz_reserved_today = 0\<rparr>
          in Inr (c, s\<lparr>bx_controls := bx_controls s @ [c], bx_next := bx_next s + 1\<rparr>)))"

definition remaining_quota :: "delivery_env \<Rightarrow> authz_ctx \<Rightarrow> clock \<Rightarrow> outbox \<Rightarrow> int res" where
  "remaining_quota env ctx ck s =
     res_bind (current_tenant ctx) (\<lambda>tid.
       Inr (max 0 (de_daily_cap env -
         (case find (\<lambda>c. pz_tenant c = tid) (scoped ctx pz_tenant (bx_controls s)) of
            None \<Rightarrow> 0
          | Some c \<Rightarrow> if pz_quota_day c = ck_today ck then pz_reserved_today c else 0))))"

definition lease_expired :: "int \<Rightarrow> message \<Rightarrow> bool" where
  "lease_expired now m = (mg_state m = SENDING \<and> (case mg_until m of None \<Rightarrow> False | Some u \<Rightarrow> u \<le> now))"

definition due :: "int \<Rightarrow> message \<Rightarrow> bool" where
  "due now m = ((mg_state m = QUEUED \<or> mg_state m = TEMPORARY) \<and> mg_next_at m \<le> now \<and> mg_attempts m < SEND_ATTEMPTS)"

fun expire_all :: "delivery_env \<Rightarrow> authz_ctx \<Rightarrow> clock \<Rightarrow> message list \<Rightarrow> outbox \<Rightarrow> outbox res" where
  "expire_all env ctx ck [] s = Inr s"
| "expire_all env ctx ck (m # ms) s =
     (let ((_, m1), s1) = transition env m \<lparr>rp_state = SEND_UNKNOWN, rp_code = ''lease_expired''\<rparr> None '''' s in
      res_bind (record_effect ctx m1 s1) (\<lambda>s2.
      res_bind (report_problem env ctx ck m1 s2) (\<lambda>s3.
        expire_all env ctx ck ms s3)))"

definition leased :: "clock \<Rightarrow> int \<Rightarrow> message \<Rightarrow> message" where
  "leased ck owner m =
     m\<lparr>mg_fence := mg_fence m + 1, mg_owner := Some owner, mg_until := Some (ck_now ck + SEND_LEASE_SECONDS),
       mg_send_started := None, mg_attempts := mg_attempts m + 1\<rparr>"

fun claim_all :: "delivery_env \<Rightarrow> authz_ctx \<Rightarrow> clock \<Rightarrow> int \<Rightarrow> message list \<Rightarrow> (outbox, delivery_claim list) tx" where
  "claim_all env ctx ck tid [] s = Inr ([], s)"
| "claim_all env ctx ck tid (m # ms) s =
     (case recorded_effect ctx s m of
        Some e \<Rightarrow>
          if ef_digest e \<noteq> mg_digest m then Inl IntentConflict
          else
            (let m1 = m\<lparr>mg_state := ef_outcome e, mg_version := mg_version m + 1\<rparr>
             in claim_all env ctx ck tid ms
                  (record_attempt env m1 (ef_outcome e) ''effect_replayed'' None '''' (save_message m1 s)))
      | None \<Rightarrow>
          (let owner = bx_next s;
               ((_, m1), s1) = transition env (leased ck owner m) \<lparr>rp_state = SENDING, rp_code = ''''\<rparr> None ''''
                 (s\<lparr>bx_next := bx_next s + 1\<rparr>)
           in res_bind (claim_all env ctx ck tid ms s1) (\<lambda>(claims, s2).
                Inr (\<lparr>cl_tenant = tid, cl_message = mg_id m1, cl_fence = mg_fence m1, cl_owner = owner\<rparr> # claims, s2))))"

text \<open>\<open>skipped\<close> are the rows other transactions hold, which \<^verbatim>\<open>SKIP LOCKED\<close> passes over.\<close>

definition expired_messages :: "authz_ctx \<Rightarrow> clock \<Rightarrow> int list \<Rightarrow> string list \<Rightarrow> outbox \<Rightarrow> message list" where
  "expired_messages ctx ck skipped kinds s =
     take (nat CLAIM_LIMIT) (sort_key mg_id (filter (\<lambda>m. mg_kind m \<in> set kinds \<and> lease_expired (ck_now ck) m \<and>
       mg_id m \<notin> set skipped) (scoped ctx mg_tenant (bx_messages s))))"

definition due_messages :: "authz_ctx \<Rightarrow> clock \<Rightarrow> int list \<Rightarrow> string list \<Rightarrow> int \<Rightarrow> outbox \<Rightarrow> message list" where
  "due_messages ctx ck skipped kinds limit s =
     take (nat limit) (sort_key mg_next_at (sort_key mg_id (filter (\<lambda>m. mg_kind m \<in> set kinds \<and> due (ck_now ck) m \<and>
       mg_id m \<notin> set skipped) (scoped ctx mg_tenant (bx_messages s)))))"

definition quota_row :: "clock \<Rightarrow> automation_pause \<Rightarrow> automation_pause" where
  "quota_row ck c =
     (if pz_quota_day c \<noteq> ck_today ck then c\<lparr>pz_quota_day := ck_today ck, pz_reserved_today := 0\<rparr> else c)"

definition claim_batch ::
  "delivery_env \<Rightarrow> authz_ctx \<Rightarrow> clock \<Rightarrow> int list \<Rightarrow> int \<Rightarrow> (outbox, delivery_claim list) tx" where
  "claim_batch env ctx0 ck skipped tid s =
     (let ctx = in_tenant ctx0 tid in
      res_bind (enabled_kinds env ctx s) (\<lambda>kinds.
      if kinds = [] then Inr ([], s)
      else
        res_bind (lock_control ctx ck s) (\<lambda>(control0, s0).
          (let expired = expired_messages ctx ck skipped kinds s0;
               paused = (de_paused env \<or> pz_paused control0);
               control = (if paused then control0 else quota_row ck control0);
               limit = min CLAIM_LIMIT (max 0 (de_daily_cap env - pz_reserved_today control));
               rows = (if paused then [] else due_messages ctx ck skipped kinds limit s0)
           in res_bind (expire_all env ctx ck expired s0) (\<lambda>s1.
              if paused then Inr ([], s1)
              else res_bind (claim_all env ctx ck tid rows s1) (\<lambda>(claims, s2).
                Inr (claims, s2\<lparr>bx_controls := row_put pz_id
                  (control\<lparr>pz_reserved_today := pz_reserved_today control + int (length claims)\<rparr>) (bx_controls s2)\<rparr>)))))))"

section \<open>Sending\<close>

definition message_of :: "authz_ctx \<Rightarrow> outbox \<Rightarrow> int \<Rightarrow> message option" where
  "message_of ctx s mid = find (\<lambda>m. mg_id m = mid) (scoped ctx mg_tenant (bx_messages s))"

definition locked_claim :: "authz_ctx \<Rightarrow> int \<Rightarrow> delivery_claim \<Rightarrow> outbox \<Rightarrow> message res" where
  "locked_claim ctx now claim s =
     res_bind (the_row (message_of ctx s (cl_message claim)) DoesNotExist) (\<lambda>m.
     if mg_fence m \<noteq> cl_fence claim \<or> mg_owner m \<noteq> Some (cl_owner claim) \<or> mg_state m \<noteq> SENDING \<or>
        (case mg_until m of None \<Rightarrow> True | Some u \<Rightarrow> u \<le> now)
     then Inl StaleFence else Inr m)"

text \<open>The preparation hook of a kind and its refusal; no hook prepares nothing.\<close>

definition run_prepare :: "delivery_env \<Rightarrow> message \<Rightarrow> desk \<Rightarrow> (string + (string \<times> string) list) res" where
  "run_prepare env m d =
     res_bind (the_row (map_of (de_kinds env) (mg_kind m)) KeyError) (\<lambda>k.
       case mk_prepare k of
         None \<Rightarrow> Inr (Inr [])
       | Some hook \<Rightarrow> Inr (case hook m d of
           Inl refusal \<Rightarrow> Inl (if refusal = [] then ''prepare_refused'' else refusal)
         | Inr secrets \<Rightarrow> Inr secrets))"

text \<open>\<open>later\<close> is the clock after the locks were taken.\<close>

definition prepare_claim ::
  "delivery_env \<Rightarrow> authz_ctx \<Rightarrow> clock \<Rightarrow> int \<Rightarrow> delivery_claim \<Rightarrow> (outbox, message \<times> (string \<times> string) list) tx" where
  "prepare_claim env ctx ck later claim s =
     res_bind (current_tenant ctx) (\<lambda>tid.
     if tid \<noteq> cl_tenant claim then Inl Http404
     else
       res_bind (lock_control ctx ck s) (\<lambda>(control, s0).
       res_bind (locked_claim ctx (ck_now ck) claim s0) (\<lambda>m.
       if mg_send_started m \<noteq> None then Inl StaleFence
       else
         res_bind (if de_paused env \<or> pz_paused control then Inr (False, ''delivery_paused'')
             else res_bind (enabled_kinds env ctx s0) (\<lambda>kinds.
               if mg_kind m \<notin> set kinds then Inr (False, ''delivery_paused'') else still_valid env ctx s0 m)) (\<lambda>(valid0, reason0).
         res_bind (if valid0 then run_prepare env m (bx_desk s0) else Inr (Inr [])) (\<lambda>p.
           (let (valid1, reason1, secrets) = (case p of Inl refusal \<Rightarrow> (False, refusal, []) | Inr sec \<Rightarrow> (valid0, reason0, sec));
                late = (case mg_until m of None \<Rightarrow> True | Some u \<Rightarrow> u \<le> later);
                valid = (valid1 \<and> \<not> late);
                reason = (if late then ''lease_expired_before_dispatch'' else reason1)
            in if \<not> valid then
                 (let ((_, m1), s1) = transition env m \<lparr>rp_state = MSG_CANCELLED, rp_code = reason\<rparr> None '''' s0
                  in Inr ((m1, secrets), s1))
               else
                 (let m1 = m\<lparr>mg_send_started := Some later\<rparr>;
                      s1 = save_message m1 s0;
                      p0 = office s1;
                      p1 = (case (mg_proposal m, mg_cycle m) of
                          (Some pid, Some cid) \<Rightarrow> p0\<lparr>pr_cycle_events := pr_cycle_events p0 @
                            [\<lparr>ce_cycle = cid, ce_actor = None, ce_type = ''proposal.dispatch_started'',
                              ce_aggregate = Proposal_Aggregate, ce_aggregate_id = pid, ce_aggregate_version = mg_fence m,
                              ce_payload = [(''message_id'', str_int (mg_id m)), (''digest'', mg_body_ref m)]\<rparr>]\<rparr>
                        | _ \<Rightarrow> p0)
                  in Inr ((m1, secrets), s1\<lparr>bx_desk := (bx_desk s1)\<lparr>dk_practice := p1\<rparr>\<rparr>))))))))"

text \<open>What the mail library reports, and the reply it becomes.\<close>

datatype smtp_result =
    Sent nat | Recipients_Refused | Smtp_Response int | Connection_Refused | Os_Error

definition SMTP_TEMPORARY_MIN :: int where "SMTP_TEMPORARY_MIN = 400"
definition SMTP_PERMANENT_MIN :: int where "SMTP_PERMANENT_MIN = 500"

fun smtp_reply :: "smtp_result \<Rightarrow> reply" where
  "smtp_reply Recipients_Refused = \<lparr>rp_state = REJECTED, rp_code = ''smtp_recipients_refused''\<rparr>"
| "smtp_reply (Smtp_Response code) =
     \<lparr>rp_state = (if SMTP_TEMPORARY_MIN \<le> code \<and> code < SMTP_PERMANENT_MIN then TEMPORARY else REJECTED),
      rp_code = ''smtp_'' @ str_int code\<rparr>"
| "smtp_reply Connection_Refused = \<lparr>rp_state = TEMPORARY, rp_code = ''smtp_unavailable''\<rparr>"
| "smtp_reply Os_Error = \<lparr>rp_state = SEND_UNKNOWN, rp_code = ''smtp_connection_lost''\<rparr>"
| "smtp_reply (Sent n) =
     (if n = 1 then \<lparr>rp_state = ACCEPTED, rp_code = ''''\<rparr>
      else \<lparr>rp_state = TEMPORARY, rp_code = ''smtp_no_acceptance''\<rparr>)"

text \<open>
  The egress after authorization: whether a message was handed to the mail library, and the reply
  or the journal failure that ends the phase.  The journal is written before and after.
\<close>

definition egress :: "delivery_env \<Rightarrow> message \<Rightarrow> bool \<Rightarrow> bool \<Rightarrow> smtp_result \<Rightarrow> bool \<times> reply res" where
  "egress env m start_journaled end_journaled smtp =
     (if mg_state m \<noteq> SENDING then (False, Inr \<lparr>rp_state = mg_state m, rp_code = mg_error m\<rparr>)
      else case content_digest env m of
        Inl e \<Rightarrow> (False, Inl e)
      | Inr d \<Rightarrow>
          if d \<noteq> mg_digest m then (False, Inr \<lparr>rp_state = MSG_CANCELLED, rp_code = ''content_changed''\<rparr>)
          else if \<not> start_journaled then (False, Inl JournalError)
          else if \<not> end_journaled then (True, Inl JournalError)
          else (True, Inr (smtp_reply smtp)))"

section \<open>Finalizing\<close>

definition retry_minutes :: "nat \<Rightarrow> int" where
  "retry_minutes attempts = (if attempts = 0 then last RETRY_MINUTES else RETRY_MINUTES ! (attempts - 1))"

definition settled_reply :: "message \<Rightarrow> reply \<Rightarrow> reply" where
  "settled_reply m reply =
     (if rp_state reply = TEMPORARY \<and> SEND_ATTEMPTS \<le> mg_attempts m
      then \<lparr>rp_state = REJECTED, rp_code = ''retry_exhausted''\<rparr> else reply)"

definition finalize_send :: "delivery_env \<Rightarrow> authz_ctx \<Rightarrow> clock \<Rightarrow> delivery_claim \<Rightarrow> reply \<Rightarrow> (outbox, bool) tx" where
  "finalize_send env ctx0 ck claim reply0 s =
     (let ctx = in_tenant ctx0 (cl_tenant claim) in
      res_bind (the_row (message_of ctx s (cl_message claim)) DoesNotExist) (\<lambda>m0.
      if mg_fence m0 \<noteq> cl_fence claim \<or> mg_owner m0 \<noteq> Some (cl_owner claim) then
        Inr (False, s\<lparr>bx_attempts := bx_attempts s @
          [\<lparr>at_message = mg_id m0, at_owner = Some (cl_owner claim), at_fence = cl_fence claim,
            at_outcome = rp_state reply0, at_code = ''stale_fence'', at_actor = None, at_note = ''''\<rparr>]\<rparr>)
      else
        (let reply = settled_reply m0 reply0;
             m = (if rp_state reply = TEMPORARY
                  then m0\<lparr>mg_next_at := ck_now ck + 60 * retry_minutes (mg_attempts m0)\<rparr> else m0);
             ((changed, m1), s1) = transition env m reply None '''' s
         in if changed \<and> rp_state reply = ACCEPTED then
              res_bind (record_effect ctx m1 s1) (\<lambda>s2. Inr (changed, s2))
            else if changed \<and> (rp_state reply = SEND_UNKNOWN \<or> rp_state reply = REJECTED) then
              res_bind (record_effect ctx m1 s1) (\<lambda>s2.
              res_bind (report_problem env ctx ck m1 s2) (\<lambda>s3. Inr (changed, s3)))
            else Inr (changed, s1))))"

section \<open>The firm's own commands\<close>

fun decision_target :: "string \<Rightarrow> message_state option" where
  "decision_target action =
     (if action = ''cancel'' then Some MSG_CANCELLED
      else if action = ''sent'' then Some MANUAL_SENT
      else if action = ''not_sent'' then Some MANUAL_NOT_SENT else None)"

definition decide ::
  "delivery_env \<Rightarrow> authz_ctx \<Rightarrow> int \<Rightarrow> account \<Rightarrow> int \<Rightarrow> int \<Rightarrow> string \<Rightarrow> string \<Rightarrow> (outbox, message) tx" where
  "decide env ctx now actor mid expected action note s =
     res_bind (require_enabled ctx (office s)) (\<lambda>_.
     res_bind (the_row (message_of ctx s mid) Http404) (\<lambda>m.
     res_bind (current_tenant ctx) (\<lambda>tid.
     res_bind (load_client ctx now (office s) actor tid (mg_client m)) (\<lambda>_.
     res_bind (require_actor ctx now (office s) actor CYCLES_OPERATE) (\<lambda>_.
     res_bind (check_version (mg_version m) expected) (\<lambda>_.
     case decision_target action of
       None \<Rightarrow> Inl (ValidationError ''acao'')
     | Some target \<Rightarrow>
         if target \<notin> set (DELIVERY_TRANSITIONS (mg_state m)) \<or> mg_state m = SENDING \<or>
            (action \<noteq> ''cancel'' \<and> strip note = [])
         then Inl (ValidationError ''acao'')
         else
           (let ((_, m1), s1) = transition env m \<lparr>rp_state = target, rp_code = ''staff_decision''\<rparr>
                  (Some (u_id actor)) (strip note) s
            in Inr (m1, s1))))))))"

definition set_pause :: "authz_ctx \<Rightarrow> clock \<Rightarrow> account \<Rightarrow> bool \<Rightarrow> int \<Rightarrow> (outbox, automation_pause) tx" where
  "set_pause ctx ck actor paused expected s =
     res_bind (feature_on ctx (office s) ''cycles_r1'') (\<lambda>cycles.
     res_bind (if cycles then Inr True else feature_on ctx (office s) ''import_r1'') (\<lambda>on.
     res_bind (require on Http404) (\<lambda>_.
     res_bind (lock_control ctx ck s) (\<lambda>(control, s0).
     res_bind (current_tenant ctx) (\<lambda>tid.
     res_bind (the_row (map_of (lock_authorities ctx (pr_authz (office s0)) [u_id actor] tid [AUTOMATIONS_MANAGE]) (u_id actor)) KeyError)
       (\<lambda>authority.
     res_bind (require (u_active (au_user authority)) PermissionDenied) (\<lambda>_.
     res_bind (require_actor ctx (ck_now ck) (office s0) (au_user authority) AUTOMATIONS_MANAGE) (\<lambda>_.
     res_bind (check_version (pz_version control) expected) (\<lambda>_.
       (let control' = control\<lparr>pz_paused := paused, pz_version := pz_version control + 1\<rparr>
        in Inr (control', s0\<lparr>bx_controls := row_put pz_id control' (bx_controls s0),
             bx_audit := bx_audit s0 @ [(''delivery.pause_changed'', u_id (au_user authority), pz_id control)]\<rparr>)))))))))))"

section \<open>Obsolete reminders\<close>

definition CANCELLATION_LIMIT :: nat where "CANCELLATION_LIMIT = 50"

definition pending_message :: "message \<Rightarrow> bool" where
  "pending_message m = (mg_state m = QUEUED \<or> mg_state m = TEMPORARY)"

definition reminder_candidates :: "delivery_env \<Rightarrow> authz_ctx \<Rightarrow> outbox \<Rightarrow> int list" where
  "reminder_candidates env ctx s =
     take CANCELLATION_LIMIT (map mg_id (sort_key mg_id (filter (\<lambda>m. mg_kind m = ''request_reminder'' \<and> pending_message m \<and>
       de_notice_mode env (mg_authorization m) = ''automatic'') (scoped ctx mg_tenant (bx_messages s)))))"

definition cancel_reminder :: "delivery_env \<Rightarrow> authz_ctx \<Rightarrow> clock \<Rightarrow> int list \<Rightarrow> int \<Rightarrow> (outbox, nat) tx" where
  "cancel_reminder env ctx ck skipped mid s =
     res_bind (lock_control ctx ck s) (\<lambda>(control, s0).
     case find (\<lambda>m. mg_id m = mid \<and> pending_message m \<and> mg_id m \<notin> set skipped) (scoped ctx mg_tenant (bx_messages s0)) of
       None \<Rightarrow> Inr (0, s0)
     | Some m \<Rightarrow>
         res_bind (if de_paused env \<or> pz_paused control then Inr (False, ''delivery_paused'')
             else res_bind (enabled_kinds env ctx s0) (\<lambda>kinds.
               if mg_kind m \<notin> set kinds then Inr (False, ''delivery_paused'') else still_valid env ctx s0 m)) (\<lambda>(valid, reason).
         if valid then Inr (0, s0)
         else (let (_, s1) = transition env m \<lparr>rp_state = MSG_CANCELLED, rp_code = reason\<rparr> None '''' s0
               in Inr (1, s1))))"

text \<open>One transaction per row; a failed one ends the sweep, the rows before it stay cancelled.\<close>

fun cancel_each :: "delivery_env \<Rightarrow> authz_ctx \<Rightarrow> clock \<Rightarrow> int list \<Rightarrow> int list \<Rightarrow> outbox \<Rightarrow> nat res \<times> outbox" where
  "cancel_each env ctx ck skipped [] s = (Inr 0, s)"
| "cancel_each env ctx ck skipped (mid # mids) s =
     (case cancel_reminder env ctx ck skipped mid s of
        Inl e \<Rightarrow> (Inl e, s)
      | Inr (n, s1) \<Rightarrow>
          (case cancel_each env ctx ck skipped mids s1 of
             (Inl e, s2) \<Rightarrow> (Inl e, s2)
           | (Inr k, s2) \<Rightarrow> (Inr (n + k), s2)))"

definition cancel_obsolete_reminders ::
  "delivery_env \<Rightarrow> authz_ctx \<Rightarrow> clock \<Rightarrow> int list \<Rightarrow> int \<Rightarrow> outbox \<Rightarrow> nat res \<times> outbox" where
  "cancel_obsolete_reminders env ctx0 ck skipped tid s =
     (let ctx = in_tenant ctx0 tid in cancel_each env ctx ck skipped (reminder_candidates env ctx s) s)"

end
