(* ===== verification/Delivery_Enqueue.thy ===== *)
theory Delivery_Enqueue
  imports Delivery_Outbox
begin

text \<open>
  Entering the outbox (\<^verbatim>\<open>apps/delivery/outbox.py\<close>): one row per business intent, or per portal
  invitation.  A repeated request converges on the row it already made; the same intent with other
  content is refused; an effect already on record settles the new row at once.

  The notice scope, with everything it locked, arrives as the answer of the notice authority, and so
  does the authorization it binds to a row.
\<close>

section \<open>What the notice authority answers\<close>

record notice_scope =
  sc_actor :: account
  sc_client :: client
  sc_cycle :: "service_cycle option"
  sc_reminder :: bool
  sc_bind :: "message \<Rightarrow> string res"

record invitation =
  iv_id :: int
  iv_tenant :: int
  iv_client :: "int option"
  iv_email :: string

section \<open>Rows to be written\<close>

definition idempotency_digest :: "delivery_env \<Rightarrow> string \<Rightarrow> string" where
  "idempotency_digest env key = de_key_digest env key"

definition new_message ::
  "int \<Rightarrow> int \<Rightarrow> int \<Rightarrow> account \<Rightarrow> client_contact \<Rightarrow> int \<Rightarrow> int option \<Rightarrow> string \<Rightarrow> message_kind \<Rightarrow> string \<Rightarrow> string \<Rightarrow>
   string \<Rightarrow> int option \<Rightarrow> int option \<Rightarrow> message" where
  "new_message now mid tid actor contact cid cycle kind k intent caller url invite request =
     \<lparr>mg_id = mid, mg_tenant = tid, mg_client = cid, mg_contact = cc_id contact, mg_cycle = cycle,
      mg_created_by = u_id actor, mg_kind = kind, mg_idempotency = caller, mg_intent = intent, mg_digest = '''',
      mg_authorization = '''', mg_recipients = [cc_email contact], mg_subject = mk_subject k, mg_body_ref = mk_template k,
      mg_portal_url = url, mg_invite = invite, mg_request = request, mg_proposal = None, mg_retry_of = None,
      mg_state = QUEUED, mg_attempts = 0, mg_next_at = now, mg_error = '''', mg_owner = None, mg_until = None,
      mg_fence = 0, mg_send_started = None, mg_version = 1, mg_note = ''''\<rparr>"

definition intent_matches :: "delivery_env \<Rightarrow> int \<Rightarrow> business_intent \<Rightarrow> service_cycle \<Rightarrow> bool" where
  "intent_matches env cid intent c =
     (cy_client c = cid \<and> cy_engagement c = bi_engagement intent \<and> cy_playbook c = bi_playbook intent \<and>
      cy_period_start c = bi_period_start intent \<and> cy_period_end c = bi_period_end intent \<and>
      de_amendment env (cy_id c) = bi_amendment intent)"

text \<open>A request is given by its identifier and its client.\<close>

definition require_same_client :: "int \<Rightarrow> invitation option \<Rightarrow> (int \<times> int) option \<Rightarrow> unit res" where
  "require_same_client cid invite request =
     res_bind (case request of None \<Rightarrow> Inr () | Some (_, rc) \<Rightarrow> require (rc = cid) (ValidationError ''evidence_request'')) (\<lambda>_.
       case invite of None \<Rightarrow> Inr () | Some i \<Rightarrow> require (iv_client i = Some cid) (ValidationError ''invite''))"

definition bump_client :: "int \<Rightarrow> outbox \<Rightarrow> outbox" where
  "bump_client cid s = s\<lparr>bx_versions := map (\<lambda>(k, v). if k = cid then (k, v + 1) else (k, v)) (bx_versions s)\<rparr>"

text \<open>The insert, with the two unique keys of the table.\<close>

definition insert_message :: "message \<Rightarrow> outbox \<Rightarrow> outbox res" where
  "insert_message m s =
     (if list_ex (\<lambda>r. mg_tenant r = mg_tenant m \<and> mg_client r = mg_client m \<and>
          (mg_intent r = mg_intent m \<or> mg_idempotency r = mg_idempotency m)) (bx_messages s)
      then Inl IntegrityError
      else Inr (s\<lparr>bx_messages := bx_messages s @ [m], bx_next := bx_next s + 1\<rparr>))"

section \<open>Enqueue\<close>

text \<open>The caller's cycle must be the one the intent names; a reminder's scope has it locked already.\<close>

definition check_intent ::
  "delivery_env \<Rightarrow> authz_ctx \<Rightarrow> int \<Rightarrow> notice_scope \<Rightarrow> business_intent \<Rightarrow> int option \<Rightarrow> outbox \<Rightarrow> unit res" where
  "check_intent env ctx now scope intent cycle_id s =
     (case cycle_id of
        None \<Rightarrow> Inr ()
      | Some yid \<Rightarrow>
          res_bind (if sc_reminder scope then Inr (sc_cycle scope)
                    else res_bind (load_cycle ctx now (office s) (sc_actor scope) yid) (\<lambda>c. Inr (Some c))) (\<lambda>cycle.
            require (case cycle of None \<Rightarrow> False | Some c \<Rightarrow> intent_matches env (c_id (sc_client scope)) intent c)
              (ValidationError ''intencao'')))"

text \<open>The exact row a request stands for, before anything is looked up or written.\<close>

definition draft_message ::
  "delivery_env \<Rightarrow> authz_ctx \<Rightarrow> int \<Rightarrow> notice_scope \<Rightarrow> int \<Rightarrow> business_intent \<Rightarrow> string \<Rightarrow> int option \<Rightarrow> string \<Rightarrow>
   invitation option \<Rightarrow> (int \<times> int) option \<Rightarrow> outbox \<Rightarrow> message res" where
  "draft_message env ctx now scope contact_id intent kind cycle_id idem invite request s =
     res_bind (resolve_recipient env ctx s (c_id (sc_client scope)) contact_id) (\<lambda>contact.
     res_bind (the_row (map_of (de_kinds env) kind) (ValidationError ''tipo'')) (\<lambda>k.
     res_bind (check_intent env ctx now scope intent cycle_id s) (\<lambda>_.
     res_bind (current_tenant ctx) (\<lambda>tid.
       (let key = de_intent_key env tid intent;
            caller = (if idem = [] then key else idempotency_digest env idem);
            m0 = new_message now (bx_next s) tid (sc_actor scope) contact (c_id (sc_client scope)) cycle_id kind k key caller
                   (de_portal_url env (c_tenant (sc_client scope))) (map_option iv_id invite) (map_option fst request)
        in
     res_bind (require_same_client (c_id (sc_client scope)) invite request) (\<lambda>_.
     res_bind (content_digest env m0) (\<lambda>d.
     res_bind (sc_bind scope (m0\<lparr>mg_digest := d\<rparr>)) (\<lambda>authorization.
       Inr (m0\<lparr>mg_digest := d, mg_authorization := authorization\<rparr>)))))))))"

text \<open>An effect already on record settles the row: it is written in the outcome's state.\<close>

definition settled_draft :: "authz_ctx \<Rightarrow> outbox \<Rightarrow> message \<Rightarrow> message res" where
  "settled_draft ctx s m =
     (case recorded_effect ctx s m of
        None \<Rightarrow> Inr m
      | Some e \<Rightarrow> if ef_digest e \<noteq> mg_digest m then Inl IntentConflict else Inr (m\<lparr>mg_state := ef_outcome e\<rparr>))"

definition enqueue ::
  "delivery_env \<Rightarrow> authz_ctx \<Rightarrow> int \<Rightarrow> notice_scope res \<Rightarrow> int \<Rightarrow> business_intent \<Rightarrow> int \<Rightarrow> string \<Rightarrow> int option \<Rightarrow> string \<Rightarrow>
   invitation option \<Rightarrow> (int \<times> int) option \<Rightarrow> (outbox, message) tx" where
  "enqueue env ctx now locked_scope contact_id intent expected kind cycle_id idem invite request s =
     res_bind (require_enabled ctx (office s)) (\<lambda>_.
     res_bind locked_scope (\<lambda>scope.
     res_bind (draft_message env ctx now scope contact_id intent kind cycle_id idem invite request s) (\<lambda>m.
     case find (\<lambda>r. mg_client r = mg_client m \<and> (mg_intent r = mg_intent m \<or> mg_idempotency r = mg_idempotency m))
         (scoped ctx mg_tenant (bx_messages s)) of
       Some previous \<Rightarrow>
         if mg_digest previous \<noteq> mg_digest m \<or> mg_intent previous \<noteq> mg_intent m \<or>
            mg_authorization previous \<noteq> mg_authorization m
         then Inl IntentConflict else Inr (previous, s)
     | None \<Rightarrow>
         res_bind (the_row (map_of (bx_versions s) (mg_client m)) DoesNotExist) (\<lambda>version.
         res_bind (check_version version expected) (\<lambda>_.
         res_bind (settled_draft ctx s m) (\<lambda>m1.
         res_bind (insert_message m1 s) (\<lambda>s1.
           Inr (m1, record_attempt env m1 (mg_state m1) ''enqueued''
             (if sc_reminder scope then None else Some (u_id (sc_actor scope))) '''' (bump_client (mg_client m1) s1)))))))))"

section \<open>The message of a portal invitation\<close>

text \<open>Inside the transaction that issues the invitation.  \<open>lower\<close> is \<^verbatim>\<open>str.lower\<close>.\<close>

definition draft_invite ::
  "delivery_env \<Rightarrow> authz_ctx \<Rightarrow> int \<Rightarrow> notice_scope \<Rightarrow> (string \<Rightarrow> string) \<Rightarrow> int \<Rightarrow> invitation \<Rightarrow> int \<Rightarrow> client_contact \<Rightarrow> string \<Rightarrow>
   outbox \<Rightarrow> message res" where
  "draft_invite env ctx now scope lower tid invite cid contact kind s =
     res_bind (the_row (map_of (de_kinds env) kind) KeyError) (\<lambda>k.
     if cc_client contact \<noteq> cid \<or> lower (cc_email contact) \<noteq> lower (iv_email invite) then Inl (ValidationError ''contato'')
     else
     res_bind (resolve_recipient env ctx s (cc_client contact) (cc_id contact)) (\<lambda>recipient.
       (let key = de_key_digest env (''portal_invite:'' @ str_int tid @ '':'' @ str_int (iv_id invite));
            m0 = new_message now (bx_next s) tid (sc_actor scope) recipient cid None kind k key key
                   (de_portal_url env (iv_tenant invite)) (Some (iv_id invite)) None
        in
     res_bind (content_digest env m0) (\<lambda>d.
     res_bind (sc_bind scope (m0\<lparr>mg_digest := d\<rparr>)) (\<lambda>authorization.
       Inr (m0\<lparr>mg_digest := d, mg_authorization := authorization\<rparr>))))))"

definition enqueue_portal_invite ::
  "delivery_env \<Rightarrow> authz_ctx \<Rightarrow> int \<Rightarrow> notice_scope res \<Rightarrow> (string \<Rightarrow> string) \<Rightarrow> invitation \<Rightarrow> client_contact \<Rightarrow> string \<Rightarrow>
   (outbox, message) tx" where
  "enqueue_portal_invite env ctx now locked_scope lower invite contact kind s =
     (if kind \<noteq> ''portal_invite'' \<and> kind \<noteq> ''contact_portal_invite'' then Inl Http404
      else
     res_bind (current_tenant ctx) (\<lambda>tid.
     res_bind (enabled_kinds env ctx s) (\<lambda>kinds.
     if kind \<notin> set kinds then Inl Http404
     else
     res_bind (the_row (iv_client invite) (ValidationError ''invite'')) (\<lambda>cid.
     res_bind locked_scope (\<lambda>scope.
     res_bind (draft_invite env ctx now scope lower tid invite cid contact kind s) (\<lambda>m.
     case find (\<lambda>r. mg_client r = cid \<and> mg_intent r = mg_intent m) (scoped ctx mg_tenant (bx_messages s)) of
       Some previous \<Rightarrow>
         if mg_authorization previous \<noteq> mg_authorization m \<or> mg_digest previous \<noteq> mg_digest m then Inl IntentConflict
         else Inr (previous, s)
     | None \<Rightarrow>
         res_bind (insert_message m s) (\<lambda>s1.
           Inr (m, record_attempt env m (mg_state m) ''enqueued'' (Some (u_id (sc_actor scope))) '''' s1))))))))"

end
