(* ===== verification/Delivery_Recovery.thy ===== *)
theory Delivery_Recovery
  imports Delivery_Enqueue
begin

text \<open>
  Two ways a message moves outside the dispatcher.  A manager retries or closes a definite refusal
  (\<^verbatim>\<open>automations.py\<close>, \<^verbatim>\<open>retries.py\<close>).  After a restore, while dispatch is paused, the independent
  journal of effects is replayed over the restored rows (\<^verbatim>\<open>replay.py\<close>).
\<close>

section \<open>Dead letters\<close>

definition retry_key :: "delivery_env \<Rightarrow> string \<Rightarrow> string" where
  "retry_key env parent = de_key_digest env (''manual-retry:v1:'' @ parent)"

text \<open>The manager as the locks found him: by the authority union of a retried notice, or alone.\<close>

definition fresh_manager :: "delivery_env \<Rightarrow> authz_ctx \<Rightarrow> account \<Rightarrow> bool \<Rightarrow> message \<Rightarrow> outbox \<Rightarrow> account res" where
  "fresh_manager env ctx actor for_retry m s =
     (if for_retry \<and> \<not> approved_kind (mg_kind m) then
        (let (valid, reason) = de_validate_notice env m (bx_desk s) in
         if \<not> valid then Inl (ValidationError reason)
         else the_row (find (\<lambda>u. u_id u = u_id actor) (ad_users (pr_authz (office s)))) DoesNotExist)
      else
        res_bind (current_tenant ctx) (\<lambda>tid.
        res_bind (the_row (map_of (lock_authorities ctx (pr_authz (office s)) [u_id actor] tid [AUTOMATIONS_MANAGE]) (u_id actor)) KeyError)
          (\<lambda>authority. Inr (au_user authority))))"

definition locked_dead_letter ::
  "delivery_env \<Rightarrow> authz_ctx \<Rightarrow> clock \<Rightarrow> account \<Rightarrow> int \<Rightarrow> int \<Rightarrow> bool \<Rightarrow> (outbox, account \<times> message) tx" where
  "locked_dead_letter env ctx ck actor mid expected for_retry s =
     res_bind (require_enabled ctx (office s)) (\<lambda>_.
     res_bind (lock_control ctx ck s) (\<lambda>(_, s0).
     res_bind (the_row (message_of ctx s0 mid) Http404) (\<lambda>m.
     res_bind (fresh_manager env ctx actor for_retry m s0) (\<lambda>fresh.
     res_bind (require (u_active fresh) PermissionDenied) (\<lambda>_.
     res_bind (current_tenant ctx) (\<lambda>tid.
     res_bind (load_client ctx (ck_now ck) (office s0) fresh tid (mg_client m)) (\<lambda>_.
     res_bind (require_actor ctx (ck_now ck) (office s0) fresh AUTOMATIONS_MANAGE) (\<lambda>_.
     res_bind (check_version (mg_version m) expected) (\<lambda>_.
     if mg_state m \<noteq> REJECTED \<or>
        (case recorded_effect ctx s0 m of
           None \<Rightarrow> True | Some e \<Rightarrow> ef_outcome e \<noteq> REJECTED \<or> ef_digest e \<noteq> mg_digest m) \<or>
        list_ex (\<lambda>r. mg_retry_of r = Some (mg_id m)) (scoped ctx mg_tenant (bx_messages s0))
     then Inl (ValidationError ''recusa'')
     else Inr ((fresh, m), s0))))))))))"

definition closed_message :: "string \<Rightarrow> message \<Rightarrow> message" where
  "closed_message code m = m\<lparr>mg_state := MSG_CANCELLED, mg_error := code, mg_version := mg_version m + 1\<rparr>"

definition close_rejection :: "delivery_env \<Rightarrow> message \<Rightarrow> account \<Rightarrow> string \<Rightarrow> outbox \<Rightarrow> outbox" where
  "close_rejection env m actor code s =
     record_attempt env (closed_message code m) MSG_CANCELLED code (Some (u_id actor)) '''' (save_message (closed_message code m) s)"

text \<open>The row of the second try: the first one's content under the derived key.\<close>

definition successor_message :: "int \<Rightarrow> int \<Rightarrow> string \<Rightarrow> message_state \<Rightarrow> message \<Rightarrow> message" where
  "successor_message now mid key st m =
     m\<lparr>mg_id := mid, mg_retry_of := Some (mg_id m), mg_idempotency := key, mg_intent := key, mg_state := st,
       mg_attempts := 0, mg_next_at := now, mg_error := '''', mg_owner := None, mg_until := None, mg_fence := 0,
       mg_send_started := None, mg_version := 1, mg_note := ''''\<rparr>"

definition retry_dead_letter ::
  "delivery_env \<Rightarrow> authz_ctx \<Rightarrow> clock \<Rightarrow> account \<Rightarrow> int \<Rightarrow> int \<Rightarrow> (outbox, message) tx" where
  "retry_dead_letter env ctx ck actor mid expected s =
     res_bind (locked_dead_letter env ctx ck actor mid expected True s) (\<lambda>((fresh, m), s0).
     res_bind (still_valid env ctx s0 m) (\<lambda>(valid, reason).
     res_bind (require valid (ValidationError reason)) (\<lambda>_.
       (let key = retry_key env (mg_intent m);
            receipt = find (\<lambda>e. ef_client e = mg_client m \<and> ef_intent e = key) (scoped ctx ef_tenant (bx_effects s0))
        in
     res_bind (require (case receipt of None \<Rightarrow> True | Some e \<Rightarrow> ef_digest e = mg_digest m) IntentConflict) (\<lambda>_.
       (let successor = successor_message (ck_now ck) (bx_next s0) key
              (case receipt of None \<Rightarrow> QUEUED | Some e \<Rightarrow> ef_outcome e) m
        in
     res_bind (insert_message successor s0) (\<lambda>s1.
       (let s2 = record_attempt env successor (mg_state successor) ''enqueued'' (Some (u_id fresh)) ''''
              (close_rejection env m fresh ''staff_retry'' s1)
        in Inr (successor, s2\<lparr>bx_audit := bx_audit s2 @ [(''delivery.dead_letter_retried'', u_id fresh, mg_id m)]\<rparr>)))))))))"

definition cancel_dead_letter ::
  "delivery_env \<Rightarrow> authz_ctx \<Rightarrow> clock \<Rightarrow> account \<Rightarrow> int \<Rightarrow> int \<Rightarrow> (outbox, message) tx" where
  "cancel_dead_letter env ctx ck actor mid expected s =
     res_bind (locked_dead_letter env ctx ck actor mid expected False s) (\<lambda>((fresh, m), s0).
       (let s1 = close_rejection env m fresh ''staff_cancel'' s0
        in Inr (closed_message ''staff_cancel'' m,
             s1\<lparr>bx_audit := bx_audit s1 @ [(''delivery.dead_letter_cancelled'', u_id fresh, mg_id m)]\<rparr>)))"

section \<open>Restore replay\<close>

text \<open>A journal record; its instant orders as the stored timestamp does.\<close>

record effect_record =
  jr_client :: int
  jr_intent :: string
  jr_digest :: string
  jr_attempt :: int
  jr_outcome :: message_state
  jr_at :: int

definition BARRIERS :: "message_state list" where
  "BARRIERS = [ACCEPTED, SEND_UNKNOWN, REJECTED]"

text \<open>\<^verbatim>\<open>max\<close> keeps the first of equal keys.\<close>

fun latest :: "effect_record \<Rightarrow> effect_record list \<Rightarrow> effect_record" where
  "latest best [] = best"
| "latest best (r # rs) = latest (if jr_at best < jr_at r then r else best) rs"

definition journal_outcome :: "effect_record list \<Rightarrow> message_state res" where
  "journal_outcome rows =
     (if list_ex (\<lambda>r. jr_outcome r = ACCEPTED) rows then Inr ACCEPTED
      else if list_ex (\<lambda>r. jr_outcome r = INTENT_STARTED \<and>
          \<not> list_ex (\<lambda>c. jr_attempt c = jr_attempt r \<and> jr_outcome c \<noteq> INTENT_STARTED) rows) rows
      then Inr SEND_UNKNOWN
      else case rows of [] \<Rightarrow> Inl ValueError | r # rs \<Rightarrow> Inr (jr_outcome (latest r rs)))"

text \<open>Kept as they are: settled rows, rows that already say so, and refusals closed by a manager.\<close>

definition keeps_state :: "message \<Rightarrow> message_state \<Rightarrow> bool" where
  "keeps_state m outcome =
     (mg_state m \<in> {ACCEPTED, MANUAL_SENT, MANUAL_NOT_SENT} \<or> mg_state m = outcome \<or>
      mg_state m = MSG_CANCELLED \<and> (mg_error m = ''staff_cancel'' \<or> mg_error m = ''staff_retry'') \<and>
        (outcome = REJECTED \<or> outcome = TEMPORARY))"

definition capped_outcome :: "message \<Rightarrow> message_state \<Rightarrow> message_state" where
  "capped_outcome m outcome = (if outcome = TEMPORARY \<and> SEND_ATTEMPTS \<le> mg_attempts m then REJECTED else outcome)"

definition restore_intent ::
  "delivery_env \<Rightarrow> authz_ctx \<Rightarrow> clock \<Rightarrow> int \<Rightarrow> effect_record list \<Rightarrow> (outbox, nat) tx" where
  "restore_intent env ctx ck tid rows s =
     (case rows of
        [] \<Rightarrow> Inl ValueError
      | first # _ \<Rightarrow>
          if list_ex (\<lambda>r. jr_digest r \<noteq> jr_digest first) rows then Inl IntentConflict
          else
     res_bind (journal_outcome rows) (\<lambda>outcome0.
     case find (\<lambda>m. mg_client m = jr_client first \<and> mg_intent m = jr_intent first) (scoped ctx mg_tenant (bx_messages s)) of
       None \<Rightarrow>
         if outcome0 \<notin> set BARRIERS then Inr (0, s)
         else (case find (\<lambda>e. ef_tenant e = tid \<and> ef_client e = jr_client first \<and> ef_intent e = jr_intent first)
                   (scoped ctx ef_tenant (bx_effects s)) of
             Some e \<Rightarrow> if ef_digest e \<noteq> jr_digest first then Inl IntentConflict else Inr (0, s)
           | None \<Rightarrow> Inr (1, s\<lparr>bx_effects := bx_effects s @
               [\<lparr>ef_tenant = tid, ef_client = jr_client first, ef_message = None, ef_intent = jr_intent first,
                 ef_digest = jr_digest first, ef_outcome = outcome0\<rparr>]\<rparr>))
     | Some m \<Rightarrow>
         if mg_digest m \<noteq> jr_digest first then Inl IntentConflict
         else
           (let outcome = capped_outcome m outcome0 in
            if keeps_state m outcome then Inr (0, s)
            else
              (let m1 = m\<lparr>mg_state := outcome, mg_version := mg_version m + 1, mg_error := ''journal_replayed''\<rparr>;
                   s1 = record_attempt env m1 outcome ''journal_replayed'' None '''' (save_message m1 s)
               in res_bind (if outcome \<in> set BARRIERS then record_effect ctx m1 s1 else Inr s1) (\<lambda>s2.
                  res_bind (if outcome = SEND_UNKNOWN \<or> outcome = REJECTED then report_problem env ctx ck m1 s2 else Inr s2) (\<lambda>s3.
                    Inr (1, s3)))))))"

text \<open>The records of a firm by client and intent, in order of first appearance; one transaction.\<close>

definition journal_groups :: "effect_record list \<Rightarrow> effect_record list list" where
  "journal_groups rows =
     map (\<lambda>(c, i). filter (\<lambda>r. jr_client r = c \<and> jr_intent r = i) rows)
       (dict_fromkeys (map (\<lambda>r. (jr_client r, jr_intent r)) rows))"

fun restore_groups ::
  "delivery_env \<Rightarrow> authz_ctx \<Rightarrow> clock \<Rightarrow> int \<Rightarrow> effect_record list list \<Rightarrow> (outbox, nat) tx" where
  "restore_groups env ctx ck tid [] s = Inr (0, s)"
| "restore_groups env ctx ck tid (g # gs) s =
     res_bind (restore_intent env ctx ck tid g s) (\<lambda>(n, s1).
     res_bind (restore_groups env ctx ck tid gs s1) (\<lambda>(k, s2). Inr (n + k, s2)))"

definition restore_tenant ::
  "delivery_env \<Rightarrow> authz_ctx \<Rightarrow> clock \<Rightarrow> int \<Rightarrow> effect_record list \<Rightarrow> (outbox, nat) tx" where
  "restore_tenant env ctx0 ck tid rows s =
     restore_groups env (in_tenant ctx0 tid) ck tid (journal_groups rows) s"

end
