(* ===== verification/Delivery_Guarantees.thy ===== *)
theory Delivery_Guarantees
  imports Delivery_Recovery Exception_Properties
begin

text \<open>
  The outbox against an abstract life of its messages.  \<open>outbox_path\<close> is the specification: rows enter,
  are claimed, authorized, moved, replayed or closed, one write at a time, and a log collects the sends that
  were authorized.  Every phase of the dispatcher, run in any order by any number of workers with
  any clocks, is such a path; the promises are proved on paths.
\<close>

section \<open>The life of a message\<close>

definition same_content :: "message \<Rightarrow> message \<Rightarrow> bool" where
  "same_content m m' =
     (m' = m\<lparr>mg_state := mg_state m', mg_attempts := mg_attempts m', mg_next_at := mg_next_at m',
             mg_error := mg_error m', mg_owner := mg_owner m', mg_until := mg_until m', mg_fence := mg_fence m',
             mg_send_started := mg_send_started m', mg_version := mg_version m', mg_note := mg_note m'\<rparr>)"

definition claimed :: "message \<Rightarrow> message \<Rightarrow> bool" where
  "claimed m m' =
     (mg_state m \<in> {QUEUED, TEMPORARY} \<and> mg_attempts m < SEND_ATTEMPTS \<and> mg_state m' = SENDING \<and>
      mg_fence m' = mg_fence m + 1 \<and> mg_send_started m' = None \<and> mg_attempts m' = mg_attempts m + 1)"

definition authorized :: "message \<Rightarrow> message \<Rightarrow> bool" where
  "authorized m m' =
     (mg_state m = SENDING \<and> mg_send_started m = None \<and> mg_state m' = SENDING \<and> mg_fence m' = mg_fence m \<and>
      mg_send_started m' \<noteq> None \<and> mg_attempts m' = mg_attempts m)"

definition moved :: "message \<Rightarrow> message \<Rightarrow> bool" where
  "moved m m' =
     (mg_state m' \<in> set (DELIVERY_TRANSITIONS (mg_state m)) \<and> mg_state m' \<noteq> SENDING \<and> mg_fence m' = mg_fence m \<and>
      mg_send_started m' = mg_send_started m \<and> mg_attempts m' = mg_attempts m)"

definition replayed :: "message \<Rightarrow> message \<Rightarrow> bool" where
  "replayed m m' =
     (mg_state m \<in> {QUEUED, TEMPORARY} \<and> mg_state m' \<in> {ACCEPTED, REJECTED, SEND_UNKNOWN} \<and>
      mg_fence m' = mg_fence m \<and> mg_send_started m' = mg_send_started m \<and> mg_attempts m' = mg_attempts m)"

definition closed :: "message \<Rightarrow> message \<Rightarrow> bool" where
  "closed m m' =
     (mg_state m = REJECTED \<and> mg_state m' = MSG_CANCELLED \<and> mg_fence m' = mg_fence m \<and>
      mg_send_started m' = mg_send_started m \<and> mg_attempts m' = mg_attempts m)"

definition life :: "message \<Rightarrow> message \<Rightarrow> bool" where
  "life m m' = (same_content m m' \<and> (claimed m m' \<or> authorized m m' \<or> moved m m' \<or> replayed m m' \<or> closed m m'))"

text \<open>A receipt that the attempt of a fence was refused for now, taken under that fence.\<close>

definition observation_codes :: "string list" where
  "observation_codes = [''late_observation'', ''stale_fence'']"

definition refused_for_now :: "outbox \<Rightarrow> int \<Rightarrow> int \<Rightarrow> bool" where
  "refused_for_now s mid fence =
     (\<exists>a \<in> set (bx_attempts s). at_message a = mid \<and> at_fence a = fence \<and> at_outcome a = TEMPORARY \<and>
        at_code a \<notin> set observation_codes)"

definition grows :: "outbox \<Rightarrow> outbox \<Rightarrow> bool" where
  "grows s s' =
     (bx_next s \<le> bx_next s' \<and> set (bx_attempts s) \<subseteq> set (bx_attempts s') \<and> set (bx_effects s) \<subseteq> set (bx_effects s') \<and>
      (\<forall>e \<in> set (bx_effects s') - set (bx_effects s). ef_outcome e \<in> {ACCEPTED, REJECTED, SEND_UNKNOWN}))"

definition quiet :: "outbox \<Rightarrow> outbox \<Rightarrow> bool" where
  "quiet s s' = (bx_messages s' = bx_messages s \<and> grows s s')"

definition entered :: "outbox \<Rightarrow> message \<Rightarrow> outbox \<Rightarrow> bool" where
  "entered s m s' =
     (bx_next s \<le> mg_id m \<and> mg_id m < bx_next s' \<and> mg_attempts m = 0 \<and> mg_send_started m = None \<and>
      mg_state m \<in> {QUEUED, ACCEPTED, REJECTED, SEND_UNKNOWN} \<and>
      bx_messages s' = bx_messages s @ [m] \<and> grows s s')"

definition wrote :: "outbox \<Rightarrow> message \<Rightarrow> message \<Rightarrow> outbox \<Rightarrow> bool" where
  "wrote s m m' s' =
     (m \<in> set (bx_messages s) \<and> life m m' \<and> bx_messages s' = row_put mg_id m' (bx_messages s) \<and> grows s s' \<and>
      (mg_state m' = TEMPORARY \<longrightarrow> refused_for_now s' (mg_id m) (mg_fence m)))"

inductive outbox_path :: "outbox \<Rightarrow> (int \<times> int) list \<Rightarrow> outbox \<Rightarrow> bool" for s0 where
  path_refl: "outbox_path s0 [] s0"
| path_quiet: "outbox_path s0 sends s \<Longrightarrow> quiet s s' \<Longrightarrow> outbox_path s0 sends s'"
| path_enter: "outbox_path s0 sends s \<Longrightarrow> entered s m s' \<Longrightarrow> outbox_path s0 sends s'"
| path_write: "outbox_path s0 sends s \<Longrightarrow> wrote s m m' s' \<Longrightarrow> \<not> authorized m m' \<Longrightarrow> outbox_path s0 sends s'"
| path_send: "outbox_path s0 sends s \<Longrightarrow> wrote s m m' s' \<Longrightarrow> authorized m m' \<Longrightarrow>
    outbox_path s0 (sends @ [(mg_id m, mg_fence m)]) s'"

lemma path_trans:
  assumes "outbox_path s0 sends s" "outbox_path s sends' s'"
  shows "outbox_path s0 (sends @ sends') s'"
  using assms(2)
proof (induction rule: outbox_path.induct)
  case path_refl
  then show ?case using assms(1) by simp
next
  case (path_send sends s m m' s')
  then show ?case using outbox_path.path_send[of s0 _ s m m' s'] by (simp flip: append_assoc)
qed (auto intro: outbox_path.intros)

lemma grows_refl [simp]: "grows s s"
  by (simp add: grows_def)

lemma grows_trans: "grows a b \<Longrightarrow> grows b c \<Longrightarrow> grows a c"
  by (auto simp: grows_def)

lemma quiet_refl [simp]: "quiet s s"
  by (simp add: quiet_def)

lemma quiet_trans: "quiet a b \<Longrightarrow> quiet b c \<Longrightarrow> quiet a c"
  by (auto simp: quiet_def intro: grows_trans)

lemma wrote_quiet: "wrote s m m' s1 \<Longrightarrow> quiet s1 s2 \<Longrightarrow> wrote s m m' s2"
  by (auto simp: wrote_def quiet_def refused_for_now_def grows_def)

lemma quiet_path: "quiet s s' \<Longrightarrow> outbox_path s [] s'"
  by (rule path_quiet[OF path_refl])

lemma write_path: "wrote s m m' s' \<Longrightarrow> \<not> authorized m m' \<Longrightarrow> outbox_path s [] s'"
  by (rule path_write[OF path_refl])

section \<open>What every path keeps\<close>

definition outbox_ok :: "outbox \<Rightarrow> bool" where
  "outbox_ok s =
     (distinct (map mg_id (bx_messages s)) \<and> (\<forall>m \<in> set (bx_messages s). mg_id m < bx_next s) \<and>
      (\<forall>e \<in> set (bx_effects s). ef_outcome e \<in> {ACCEPTED, REJECTED, SEND_UNKNOWN}) \<and>
      (\<forall>m \<in> set (bx_messages s). mg_attempts m \<le> SEND_ATTEMPTS \<and> (mg_state m = SENDING \<longrightarrow> 0 < mg_attempts m)))"

lemma same_content_id: "same_content m m' \<Longrightarrow> mg_id m' = mg_id m"
  by (cases m; cases m') (simp add: same_content_def)

lemma same_content_refl [simp]: "same_content m m"
  by (simp add: same_content_def)

lemma same_content_trans: "same_content a b \<Longrightarrow> same_content b c \<Longrightarrow> same_content a c"
  by (cases a; cases b; cases c) (simp add: same_content_def)

lemma wrote_rows:
  assumes "outbox_ok s" "wrote s m m' s'"
  shows "bx_messages s' = map (\<lambda>r. if r = m then m' else r) (bx_messages s)"
  using assms row_put_map[of mg_id "bx_messages s" m m'] same_content_id[of m m']
  by (auto simp: outbox_ok_def wrote_def life_def)

lemma grows_effects: "outbox_ok s \<Longrightarrow> grows s s' \<Longrightarrow> \<forall>e \<in> set (bx_effects s'). ef_outcome e \<in> {ACCEPTED, REJECTED, SEND_UNKNOWN}"
  by (auto simp: outbox_ok_def grows_def)

lemma outbox_ok_quiet: "outbox_ok s \<Longrightarrow> quiet s s' \<Longrightarrow> outbox_ok s'"
  using grows_effects[of s s'] by (auto simp: outbox_ok_def quiet_def grows_def dest!: bspec)

lemma outbox_ok_entered:
  assumes ok: "outbox_ok s" and e: "entered s m s'"
  shows "outbox_ok s'"
proof -
  have m: "bx_next s \<le> mg_id m" "mg_id m < bx_next s'" "bx_messages s' = bx_messages s @ [m]" "bx_next s \<le> bx_next s'"
      "grows s s'" "mg_attempts m = 0" "mg_state m \<noteq> SENDING"
    using e by (auto simp: entered_def grows_def)
  have below: "\<forall>x \<in> set (bx_messages s). mg_id x < bx_next s" using ok by (simp add: outbox_ok_def)
  then have "mg_id m \<notin> mg_id ` set (bx_messages s)" using m(1) by auto
  moreover have "\<forall>x \<in> set (bx_messages s'). mg_id x < bx_next s'" using m below by auto
  ultimately show ?thesis using ok m(3,6,7) grows_effects[OF ok m(5)] by (simp add: outbox_ok_def)
qed

lemma outbox_ok_wrote:
  assumes ok: "outbox_ok s" and w: "wrote s m m' s'"
  shows "outbox_ok s'"
proof -
  have id: "mg_id m' = mg_id m" using w same_content_id by (auto simp: wrote_def life_def)
  have m: "m \<in> set (bx_messages s)" "life m m'" "grows s s'" using w by (simp_all add: wrote_def)
  have "map mg_id (bx_messages s') = map mg_id (bx_messages s)" using id by (simp add: wrote_rows[OF ok w])
  then have keys: "distinct (map mg_id (bx_messages s'))" using ok by (simp only: outbox_ok_def)
  have below: "\<forall>x \<in> set (bx_messages s). mg_id x < bx_next s'" using ok m(3) by (auto simp: outbox_ok_def grows_def dest!: bspec)
  have new: "mg_attempts m' \<le> SEND_ATTEMPTS \<and> (mg_state m' = SENDING \<longrightarrow> 0 < mg_attempts m')"
    using ok m by (auto simp: outbox_ok_def life_def claimed_def authorized_def moved_def replayed_def closed_def)
  have sub: "set (bx_messages s') \<subseteq> insert m' (set (bx_messages s))" by (auto simp: wrote_rows[OF ok w])
  then have "\<forall>x \<in> set (bx_messages s'). mg_attempts x \<le> SEND_ATTEMPTS \<and> (mg_state x = SENDING \<longrightarrow> 0 < mg_attempts x)"
    using ok new unfolding outbox_ok_def by blast
  moreover have "\<forall>x \<in> set (bx_messages s'). mg_id x < bx_next s'" using below sub m(1) id by fastforce
  ultimately show ?thesis using keys grows_effects[OF ok m(3)] by (simp only: outbox_ok_def)
qed

lemma path_ok: "outbox_path s0 sends s \<Longrightarrow> outbox_ok s0 \<Longrightarrow> outbox_ok s"
  by (induction rule: outbox_path.induct) (auto intro: outbox_ok_quiet outbox_ok_wrote outbox_ok_entered)

text \<open>Sent under a fence: superseded after a refusal, or the current one, already started.\<close>

definition sent_under :: "outbox \<Rightarrow> message \<Rightarrow> int \<Rightarrow> bool" where
  "sent_under s m f =
     (f < mg_fence m \<and> refused_for_now s (mg_id m) f \<or>
      f = mg_fence m \<and> mg_send_started m \<noteq> None \<and> mg_state m \<noteq> QUEUED \<and>
        (mg_state m = TEMPORARY \<longrightarrow> refused_for_now s (mg_id m) f))"

definition sends_ok :: "outbox \<Rightarrow> (int \<times> int) list \<Rightarrow> bool" where
  "sends_ok s sends =
     (distinct sends \<and> (\<forall>p \<in> set sends. \<exists>m \<in> set (bx_messages s). mg_id m = fst p \<and> sent_under s m (snd p)))"

lemma sends_okD: "sends_ok s sends \<Longrightarrow> p \<in> set sends \<Longrightarrow> \<exists>m \<in> set (bx_messages s). mg_id m = fst p \<and> sent_under s m (snd p)"
  by (simp add: sends_ok_def)

lemma refused_grows: "refused_for_now s i f \<Longrightarrow> grows s s' \<Longrightarrow> refused_for_now s' i f"
  by (auto simp: refused_for_now_def grows_def)

lemma QUEUED_unreachable: "QUEUED \<notin> set (DELIVERY_TRANSITIONS st)" "TEMPORARY \<in> set (DELIVERY_TRANSITIONS st) \<Longrightarrow> st = SENDING"
  by (cases st; simp)+

lemma sent_under_life:
  assumes "sent_under s m f" "wrote s m m' s'"
  shows "sent_under s' m' f"
proof -
  have w: "life m m'" "grows s s'" "mg_state m' = TEMPORARY \<longrightarrow> refused_for_now s' (mg_id m) (mg_fence m)"
    using assms(2) by (simp_all add: wrote_def)
  have id: "mg_id m' = mg_id m" using w(1) same_content_id by (simp add: life_def)
  show ?thesis
  proof (cases "f < mg_fence m")
    case True
    then have "refused_for_now s' (mg_id m') f" using assms(1) refused_grows[OF _ w(2)] id by (auto simp: sent_under_def)
    moreover have "mg_fence m \<le> mg_fence m'"
      using w(1) by (auto simp: life_def claimed_def authorized_def moved_def replayed_def closed_def)
    ultimately show ?thesis using True by (auto simp: sent_under_def)
  next
    case False
    then have f: "f = mg_fence m" "mg_send_started m \<noteq> None" "mg_state m \<noteq> QUEUED"
        "mg_state m = TEMPORARY \<longrightarrow> refused_for_now s' (mg_id m) f"
      using assms(1) refused_grows[OF _ w(2)] by (auto simp: sent_under_def)
    then show ?thesis
      using w(1,3) id QUEUED_unreachable(1)[of "mg_state m"]
      by (auto simp: sent_under_def life_def claimed_def authorized_def moved_def replayed_def closed_def)
  qed
qed

lemma sends_ok_wrote:
  assumes ok: "outbox_ok s" and sends: "sends_ok s sends" and w: "wrote s m m' s'"
  shows "sends_ok s' sends"
proof -
  have id: "mg_id m' = mg_id m" using w same_content_id by (auto simp: wrote_def life_def)
  have g: "grows s s'" using w by (simp add: wrote_def)
  have "\<exists>x \<in> set (bx_messages s'). mg_id x = fst p \<and> sent_under s' x (snd p)" if p: "p \<in> set sends" for p
  proof -
    obtain x where x: "x \<in> set (bx_messages s)" "mg_id x = fst p" "sent_under s x (snd p)"
      using sends_okD[OF sends p] by blast
    let ?x = "if x = m then m' else x"
    have "sent_under s' ?x (snd p)"
    proof (cases "x = m")
      case True
      then show ?thesis using x(3) sent_under_life[OF _ w] by simp
    next
      case False
      then show ?thesis using x(3) refused_grows[OF _ g] unfolding sent_under_def by auto
    qed
    moreover have "?x \<in> set (bx_messages s')" using x(1) by (simp add: wrote_rows[OF ok w])
    moreover have "mg_id ?x = fst p" using x(2) id by (cases "x = m") simp_all
    ultimately show ?thesis by (intro bexI[of _ ?x] conjI)
  qed
  then show ?thesis using sends by (simp add: sends_ok_def)
qed

lemma path_sends_ok:
  assumes "outbox_path s0 sends s" "outbox_ok s0"
  shows "sends_ok s sends"
  using assms(1)
proof (induction rule: outbox_path.induct)
  case path_refl
  show ?case by (simp add: sends_ok_def)
next
  case (path_quiet sends s s')
  then have "sent_under s' m f" if "sent_under s m f" for m f
    using that refused_grows[of s _ f s'] by (auto simp: sent_under_def quiet_def)
  then show ?case using path_quiet by (fastforce simp: sends_ok_def quiet_def)
next
  case (path_enter sends s m s')
  then have "sent_under s' x f" if "sent_under s x f" for x f
    using that refused_grows[of s _ f s'] by (auto simp: sent_under_def entered_def)
  then show ?case using path_enter unfolding sends_ok_def entered_def by fastforce
next
  case (path_write sends s m m' s')
  then show ?case using sends_ok_wrote path_ok assms(2) by blast
next
  case (path_send sends s m m' s')
  have ok: "outbox_ok s" using path_ok[OF path_send(1) assms(2)] .
  have old: "sends_ok s' sends" by (rule sends_ok_wrote[OF ok path_send(4,2)])
  have "mg_id m' = mg_id m" using path_send(2) same_content_id by (simp add: wrote_def life_def)
  have m: "m \<in> set (bx_messages s)" "mg_send_started m = None" using path_send(2,3) by (simp_all add: wrote_def authorized_def)
  have "(mg_id m, mg_fence m) \<notin> set sends"
  proof
    assume "(mg_id m, mg_fence m) \<in> set sends"
    then obtain x where x: "x \<in> set (bx_messages s)" "mg_id x = mg_id m" "sent_under s x (mg_fence m)"
      using sends_okD[OF path_send(4)] by fastforce
    then have "x = m" using ok m(1) by (auto simp: outbox_ok_def distinct_map inj_on_def)
    then show False using x(3) m(2) by (simp add: sent_under_def)
  qed
  moreover have "m' \<in> set (bx_messages s')"
    using m(1) by (auto simp: wrote_rows[OF ok path_send(2)] intro!: image_eqI[of _ _ m])
  moreover have "sent_under s' m' (mg_fence m)"
    using path_send(3) by (simp add: sent_under_def authorized_def)
  ultimately show ?case using old \<open>mg_id m' = mg_id m\<close> unfolding sends_ok_def by auto
qed

end
