(* ===== verification/Delivery_Runs.thy ===== *)
theory Delivery_Runs
  imports Delivery_Guarantees
begin

text \<open>
  Every phase of the dispatcher and every command of the firm is a path of the abstract life of
  messages.  Each lemma takes the phase whole, as the code commits it; \<open>outbox_run\<close> interleaves
  them, with the desk's own steps in between.
\<close>

section \<open>Frames\<close>

lemma in_scope: "x \<in> set (scoped ctx f xs) \<Longrightarrow> x \<in> set xs"
  by (auto simp: scoped_def split: option.splits if_splits)

lemma message_of_Some: "message_of ctx s mid = Some m \<Longrightarrow> m \<in> set (bx_messages s) \<and> mg_id m = mid"
  using in_scope by (fastforce simp: message_of_def dest: find_Some_iff_first)

lemma record_attempt_frame [simp]:
  "bx_messages (record_attempt env m st code actor note s) = bx_messages s"
  "bx_effects (record_attempt env m st code actor note s) = bx_effects s"
  "bx_next (record_attempt env m st code actor note s) = bx_next s"
  "bx_controls (record_attempt env m st code actor note s) = bx_controls s"
  "bx_attempts (record_attempt env m st code actor note s) = bx_attempts s @
     [\<lparr>at_message = mg_id m, at_owner = mg_owner m, at_fence = mg_fence m, at_outcome = st,
       at_code = code, at_actor = actor, at_note = (if note = [] then [] else de_note_digest env note)\<rparr>]"
  by (simp_all add: record_attempt_def Let_def)

lemma save_message_frame [simp]:
  "bx_messages (save_message m s) = row_put mg_id m (bx_messages s)"
  "bx_effects (save_message m s) = bx_effects s"
  "bx_next (save_message m s) = bx_next s"
  "bx_controls (save_message m s) = bx_controls s"
  "bx_attempts (save_message m s) = bx_attempts s"
  by (simp_all add: save_message_def)

text \<open>The object a transition leaves in the caller's hands.\<close>

definition transitioned :: "message \<Rightarrow> reply \<Rightarrow> string \<Rightarrow> message" where
  "transitioned m reply note =
     (if rp_state reply \<in> set (DELIVERY_TRANSITIONS (mg_state m))
      then m\<lparr>mg_state := rp_state reply, mg_error := rp_code reply, mg_version := mg_version m + 1,
             mg_note := (if note = [] then mg_note m else note)\<rparr>
      else m)"

lemma transition_result:
  "fst (transition env m reply actor note s) =
     (rp_state reply \<in> set (DELIVERY_TRANSITIONS (mg_state m)), transitioned m reply note)"
  by (simp add: transition_def transitioned_def Let_def)

lemma transition_quiet:
  "rp_state reply \<notin> set (DELIVERY_TRANSITIONS (mg_state m)) \<Longrightarrow> quiet s (snd (transition env m reply actor note s))"
  by (auto simp: transition_def Let_def quiet_def grows_def)

lemma transition_wrote:
  assumes allowed: "rp_state reply \<in> set (DELIVERY_TRANSITIONS (mg_state m))"
    and row: "m0 \<in> set (bx_messages s)" and life: "life m0 (transitioned m reply note)"
    and receipt: "rp_state reply = TEMPORARY \<longrightarrow> rp_code reply \<notin> set observation_codes \<and> mg_fence m = mg_fence m0"
  shows "wrote s m0 (transitioned m reply note) (snd (transition env m reply actor note s))"
proof -
  have "mg_id m = mg_id m0"
    using life same_content_id[of m0 "transitioned m reply note"] allowed by (simp add: life_def transitioned_def)
  then show ?thesis
    using assms by (auto simp: wrote_def transition_def transitioned_def Let_def grows_def refused_for_now_def)
qed

lemma same_content_transitioned: "same_content m0 m \<Longrightarrow> same_content m0 (transitioned m reply note)"
  by (cases m; cases m0) (simp add: same_content_def transitioned_def)

lemma transitioned_fields [simp]:
  "mg_fence (transitioned m reply note) = mg_fence m" "mg_send_started (transitioned m reply note) = mg_send_started m"
  "mg_attempts (transitioned m reply note) = mg_attempts m" "mg_id (transitioned m reply note) = mg_id m"
  "mg_owner (transitioned m reply note) = mg_owner m" "mg_cycle (transitioned m reply note) = mg_cycle m"
  by (simp_all add: transitioned_def)

text \<open>A transition that claims nothing is a move of the row, or nothing but a receipt.\<close>

lemma transition_path:
  assumes row: "m0 \<in> set (bx_messages s)" and same: "same_content m0 m" "mg_state m = mg_state m0" "mg_fence m = mg_fence m0"
      "mg_send_started m = mg_send_started m0" "mg_attempts m = mg_attempts m0"
    and reply: "rp_state reply \<noteq> SENDING" "rp_state reply = TEMPORARY \<longrightarrow> rp_code reply \<notin> set observation_codes"
  shows "outbox_path s [] (snd (transition env m reply actor note s))"
proof (cases "rp_state reply \<in> set (DELIVERY_TRANSITIONS (mg_state m))")
  case False
  then show ?thesis by (rule quiet_path[OF transition_quiet])
next
  case True
  have "moved m0 (transitioned m reply note)" using True same reply by (auto simp: moved_def transitioned_def)
  moreover have "\<not> authorized m0 (transitioned m reply note)"
    using True reply by (auto simp: authorized_def transitioned_def)
  moreover have "same_content m0 (transitioned m reply note)" by (rule same_content_transitioned[OF same(1)])
  ultimately show ?thesis
    using transition_wrote[OF True row, of "note" env actor] same reply by (auto simp: life_def intro: write_path)
qed

section \<open>What only reads, or writes elsewhere\<close>

lemma recorded_effect_Some: "recorded_effect ctx s m = Some e \<Longrightarrow> e \<in> set (bx_effects s)"
  using in_scope by (fastforce simp: recorded_effect_def dest: find_Some_iff_first)

lemma record_effect_quiet:
  "record_effect ctx m s = Inr s' \<Longrightarrow> mg_state m \<in> {ACCEPTED, REJECTED, SEND_UNKNOWN} \<Longrightarrow> quiet s s'"
  by (auto simp: record_effect_def quiet_def grows_def split: option.splits if_splits)

lemma report_problem_quiet: "report_problem env ctx ck m s = Inr s' \<Longrightarrow> quiet s s'"
  by (auto simp: report_problem_def quiet_def grows_def res_bind_eq_Inr split: option.splits if_splits)

lemma lock_control_quiet: "lock_control ctx ck s = Inr (c, s') \<Longrightarrow> quiet s s'"
  by (auto simp: lock_control_def res_iff Let_def quiet_def grows_def split: option.splits)

lemma set_pause_quiet: "set_pause ctx ck actor paused expected s = Inr (c, s') \<Longrightarrow> quiet s s'"
  by (auto simp: set_pause_def res_iff Let_def dest!: lock_control_quiet) (auto simp: quiet_def grows_def)

section \<open>Claiming\<close>

lemma wrote_keeps: "wrote s m m' s' \<Longrightarrow> x \<in> set (bx_messages s) \<Longrightarrow> mg_id x \<noteq> mg_id m \<Longrightarrow> x \<in> set (bx_messages s')"
  using same_content_id[of m m'] by (force simp: wrote_def life_def row_put_def)

lemma quiet_keeps: "quiet s s' \<Longrightarrow> x \<in> set (bx_messages s) \<Longrightarrow> x \<in> set (bx_messages s')"
  by (simp add: quiet_def)

text \<open>A path that leaves the rows outside a set of identifiers alone.\<close>

definition path_within :: "int set \<Rightarrow> outbox \<Rightarrow> outbox \<Rightarrow> bool" where
  "path_within ids s s' =
     (outbox_path s [] s' \<and> (\<forall>x \<in> set (bx_messages s). mg_id x \<notin> ids \<longrightarrow> x \<in> set (bx_messages s')))"

lemma within_refl [simp]: "path_within ids s s"
  by (simp add: path_within_def path_refl)

lemma within_trans:
  assumes "path_within A a b" "path_within B b c"
  shows "path_within (A \<union> B) a c"
  using assms path_trans[of a "[]" b "[]" c] by (auto simp: path_within_def)

lemma within_quiet: "quiet s s' \<Longrightarrow> path_within {} s s'"
  by (auto simp: path_within_def quiet_path quiet_keeps)

lemma within_wrote: "wrote s m m' s' \<Longrightarrow> \<not> authorized m m' \<Longrightarrow> path_within {mg_id m} s s'"
  by (auto simp: path_within_def write_path wrote_keeps)

lemma expire_one:
  assumes row: "m \<in> set (bx_messages s)" "mg_state m = SENDING"
    and run: "transition env m \<lparr>rp_state = SEND_UNKNOWN, rp_code = code\<rparr> None '''' s = ((b, m1), s1)"
      "record_effect ctx m1 s1 = Inr s2" "report_problem env ctx ck m1 s2 = Inr s3"
  shows "path_within {mg_id m} s s3"
proof -
  let ?r = "\<lparr>rp_state = SEND_UNKNOWN, rp_code = code\<rparr>"
  have m1: "m1 = transitioned m ?r ''''" "snd (transition env m ?r None '''' s) = s1"
    using run(1) transition_result[of env m ?r None "''''" s] by simp_all
  have st: "mg_state m1 = SEND_UNKNOWN" using row(2) by (simp add: m1 transitioned_def)
  have "life m m1" using row(2) same_content_transitioned[of m m ?r "''''"] by (auto simp: life_def moved_def m1 transitioned_def)
  then have "wrote s m m1 s1" using transition_wrote[of ?r m m s "''''" env None] row by (simp add: m1)
  moreover have "\<not> authorized m m1" using st by (simp add: authorized_def)
  ultimately have "path_within {mg_id m} s s1" by (rule within_wrote)
  moreover have "quiet s1 s2" using record_effect_quiet[OF run(2)] st by simp
  then have "quiet s1 s3" using report_problem_quiet[OF run(3)] quiet_trans by blast
  ultimately show ?thesis using within_trans[OF _ within_quiet] by fastforce
qed

lemma within_ok: "path_within ids s s' \<Longrightarrow> outbox_ok s \<Longrightarrow> outbox_ok s'"
  using path_ok by (auto simp: path_within_def)

lemma within_rest:
  assumes "path_within {mg_id m} s s'" "set (m # ms) \<subseteq> set (bx_messages s)" "distinct (map mg_id (m # ms))"
  shows "set ms \<subseteq> set (bx_messages s')"
proof
  fix x assume x: "x \<in> set ms"
  moreover have "mg_id m \<notin> mg_id ` set ms" using assms(3) by simp
  ultimately have "mg_id x \<noteq> mg_id m" by (metis imageI)
  then show "x \<in> set (bx_messages s')" using x assms(1,2) by (auto simp: path_within_def)
qed

lemma expire_all_within:
  assumes "expire_all env ctx ck ms s = Inr s'" "set ms \<subseteq> set (bx_messages s)" "distinct (map mg_id ms)"
    and "\<forall>m \<in> set ms. mg_state m = SENDING"
  shows "path_within (mg_id ` set ms) s s'"
  using assms
proof (induction ms arbitrary: s)
  case Nil
  then show ?case by simp
next
  case (Cons m ms)
  let ?r = "\<lparr>rp_state = SEND_UNKNOWN, rp_code = ''lease_expired''\<rparr>"
  obtain b m1 s1 where t: "transition env m ?r None '''' s = ((b, m1), s1)" by (metis prod.exhaust)
  then obtain s2 s3 where e: "record_effect ctx m1 s1 = Inr s2" "report_problem env ctx ck m1 s2 = Inr s3"
      "expire_all env ctx ck ms s3 = Inr s'"
    using Cons.prems(1) by (auto simp: res_iff)
  have one: "path_within {mg_id m} s s3" using expire_one[OF _ _ t e(1,2)] Cons.prems(2,4) by simp
  have "path_within (mg_id ` set ms) s3 s'"
    using Cons.prems by (intro Cons.IH[OF e(3)] within_rest[OF one]) auto
  then show ?case using within_trans[OF one] by simp
qed

text \<open>A claimed row as the batch leaves it.\<close>

definition claimable :: "message \<Rightarrow> bool" where
  "claimable m = ((mg_state m = QUEUED \<or> mg_state m = TEMPORARY) \<and> mg_attempts m < SEND_ATTEMPTS)"

lemma due_claimable: "due now m \<Longrightarrow> claimable m"
  by (auto simp: due_def claimable_def)

definition claimed_row :: "clock \<Rightarrow> int \<Rightarrow> message \<Rightarrow> message" where
  "claimed_row ck owner m = transitioned (leased ck owner m) \<lparr>rp_state = SENDING, rp_code = ''''\<rparr> ''''"

lemma claimed_row_fields:
  assumes "claimable m"
  shows "mg_state (claimed_row ck owner m) = SENDING" "mg_fence (claimed_row ck owner m) = mg_fence m + 1"
    "mg_owner (claimed_row ck owner m) = Some owner" "mg_until (claimed_row ck owner m) = Some (ck_now ck + SEND_LEASE_SECONDS)"
    "mg_send_started (claimed_row ck owner m) = None" "mg_attempts (claimed_row ck owner m) = mg_attempts m + 1"
    "mg_id (claimed_row ck owner m) = mg_id m"
  using assms by (auto simp: claimed_row_def transitioned_def leased_def claimable_def)

lemma same_content_leased: "same_content m (leased ck owner m)"
  by (cases m) (simp add: same_content_def leased_def)

lemma life_claimed_row: "claimable m \<Longrightarrow> life m (claimed_row ck owner m)"
  using claimed_row_fields[of m ck owner] same_content_transitioned[OF same_content_leased[of m ck owner]]
  by (simp add: life_def claimed_def claimed_row_def claimable_def del: claimed_row_fields)

lemma claim_one:
  assumes row: "m \<in> set (bx_messages s)" "claimable m"
    and run: "transition env (leased ck (bx_next s) m) \<lparr>rp_state = SENDING, rp_code = ''''\<rparr> None ''''
      (s\<lparr>bx_next := bx_next s + 1\<rparr>) = ((b, m1), s1)"
  shows "m1 = claimed_row ck (bx_next s) m \<and> wrote s m m1 s1"
proof -
  let ?r = "\<lparr>rp_state = SENDING, rp_code = ''''\<rparr>" let ?s = "s\<lparr>bx_next := bx_next s + 1\<rparr>"
  have ok: "rp_state ?r \<in> set (DELIVERY_TRANSITIONS (mg_state (leased ck (bx_next s) m)))"
    using row(2) by (auto simp: leased_def claimable_def)
  have m1: "m1 = claimed_row ck (bx_next s) m" "s1 = snd (transition env (leased ck (bx_next s) m) ?r None '''' ?s)"
    using run transition_result[of env "leased ck (bx_next s) m" ?r None "''''" ?s] by (simp_all add: claimed_row_def)
  have "wrote ?s m m1 s1"
    unfolding m1 using transition_wrote[OF ok, of m ?s "''''" env None] row life_claimed_row[OF row(2), of ck "bx_next s"]
    by (simp add: claimed_row_def)
  then have "wrote s m m1 s1" by (simp add: wrote_def grows_def)
  then show ?thesis using m1(1) by simp
qed

lemma replay_one:
  assumes row: "m \<in> set (bx_messages s)" "claimable m"
    and e: "recorded_effect ctx s m = Some e" and ok: "outbox_ok s"
  shows "path_within {mg_id m} s (record_attempt env (m\<lparr>mg_state := ef_outcome e, mg_version := mg_version m + 1\<rparr>)
    (ef_outcome e) ''effect_replayed'' None '''' (save_message (m\<lparr>mg_state := ef_outcome e, mg_version := mg_version m + 1\<rparr>) s))"
    (is "path_within _ s ?s")
proof -
  let ?m = "m\<lparr>mg_state := ef_outcome e, mg_version := mg_version m + 1\<rparr>"
  have out: "ef_outcome e \<in> {ACCEPTED, REJECTED, SEND_UNKNOWN}"
    using recorded_effect_Some[OF e] ok by (simp add: outbox_ok_def)
  then have "replayed m ?m" using row(2) by (auto simp: replayed_def claimable_def)
  moreover have "same_content m ?m" by (cases m) (simp add: same_content_def)
  ultimately have "wrote s m ?m ?s" using row out by (auto simp: wrote_def life_def grows_def)
  moreover have "\<not> authorized m ?m" using row(2) by (auto simp: authorized_def claimable_def)
  ultimately show ?thesis by (rule within_wrote)
qed

text \<open>What a batch of claims says of the rows it was given.\<close>

definition claims_for :: "clock \<Rightarrow> int \<Rightarrow> message list \<Rightarrow> outbox \<Rightarrow> delivery_claim list \<Rightarrow> bool" where
  "claims_for ck tid ms s' claims =
     (length claims \<le> length ms \<and> distinct (map cl_message claims) \<and>
      (\<forall>cl \<in> set claims. cl_tenant cl = tid \<and>
        (\<exists>m \<in> set ms. cl_message cl = mg_id m \<and> cl_fence cl = mg_fence m + 1 \<and> claimed_row ck (cl_owner cl) m \<in> set (bx_messages s'))))"

lemma claims_for_skip:
  "claims_for ck tid ms s' claims \<Longrightarrow> claims_for ck tid (m # ms) s' claims"
  by (auto simp: claims_for_def)

lemma claims_for_take:
  assumes "claims_for ck tid ms s' claims" "mg_id m \<notin> mg_id ` set ms" "claimable m"
    and "claimed_row ck owner m \<in> set (bx_messages s')"
  shows "claims_for ck tid (m # ms) s' (\<lparr>cl_tenant = tid, cl_message = mg_id m, cl_fence = mg_fence m + 1, cl_owner = owner\<rparr> # claims)"
  using assms by (force simp: claims_for_def)

lemma claim_all_within:
  assumes "claim_all env ctx ck tid ms s = Inr (claims, s')" "outbox_ok s" "set ms \<subseteq> set (bx_messages s)"
    and "distinct (map mg_id ms)" "\<forall>m \<in> set ms. claimable m"
  shows "path_within (mg_id ` set ms) s s' \<and> claims_for ck tid ms s' claims"
  using assms
proof (induction ms arbitrary: s claims)
  case Nil
  then show ?case by (simp add: claims_for_def)
next
  case (Cons m ms)
  have row: "m \<in> set (bx_messages s)" "claimable m" using Cons.prems(3,5) by simp_all
  show ?case
  proof (cases "recorded_effect ctx s m")
    case (Some e)
    let ?m = "m\<lparr>mg_state := ef_outcome e, mg_version := mg_version m + 1\<rparr>"
    let ?s = "record_attempt env ?m (ef_outcome e) ''effect_replayed'' None '''' (save_message ?m s)"
    have rest: "claim_all env ctx ck tid ms ?s = Inr (claims, s')"
      using Cons.prems(1) Some by (auto simp: Let_def split: if_splits)
    have one: "path_within {mg_id m} s ?s" by (rule replay_one[OF row Some Cons.prems(2)])
    have "path_within (mg_id ` set ms) ?s s' \<and> claims_for ck tid ms s' claims"
      using Cons.prems by (intro Cons.IH[OF rest within_ok[OF one] within_rest[OF one]]) auto
    then show ?thesis using within_trans[OF one] claims_for_skip by simp
  next
    case None
    obtain b m1 s1 where t: "transition env (leased ck (bx_next s) m) \<lparr>rp_state = SENDING, rp_code = ''''\<rparr> None ''''
        (s\<lparr>bx_next := bx_next s + 1\<rparr>) = ((b, m1), s1)" by (metis prod.exhaust)
    note w = conjunct1[OF claim_one[OF row t]] conjunct2[OF claim_one[OF row t]]
    obtain more where rest: "claim_all env ctx ck tid ms s1 = Inr (more, s')"
        "claims = \<lparr>cl_tenant = tid, cl_message = mg_id m1, cl_fence = mg_fence m1, cl_owner = bx_next s\<rparr> # more"
      using Cons.prems(1) None t by (auto simp: Let_def res_iff)
    have "\<not> authorized m m1" using row(2) by (auto simp: authorized_def claimable_def)
    then have one: "path_within {mg_id m} s s1" by (rule within_wrote[OF w(2)])
    have new: "mg_id m \<notin> mg_id ` set ms" using Cons.prems(4) by simp
    have IH: "path_within (mg_id ` set ms) s1 s' \<and> claims_for ck tid ms s' more"
      using Cons.prems by (intro Cons.IH[OF rest(1) within_ok[OF one] within_rest[OF one]]) auto
    have "m1 \<in> set (bx_messages s1)"
      using w row(1) same_content_id[of m m1] by (force simp: wrote_def life_def row_put_def)
    then have "m1 \<in> set (bx_messages s')" using IH new w(1) claimed_row_fields(7)[OF row(2)] by (simp add: path_within_def)
    then show ?thesis
      using within_trans[OF one conjunct1[OF IH]] claims_for_take[OF conjunct2[OF IH] new row(2)] claimed_row_fields[OF row(2)]
      by (simp add: rest(2) w(1))
  qed
qed

section \<open>The batch\<close>

lemma scoped_ids: "distinct (map f xs) \<Longrightarrow> distinct (map f (scoped ctx g xs))"
  by (auto simp: scoped_def distinct_map_filter split: option.splits)

lemma sorted_ids: "distinct (map f xs) \<Longrightarrow> distinct (map f (sort_key g xs))"
  by (simp add: distinct_map)

lemma taken_ids: "distinct (map f xs) \<Longrightarrow> distinct (map f (take n xs))"
  by (simp flip: take_map add: distinct_take)

lemma expired_rows:
  assumes "outbox_ok s"
  shows "set (expired_messages ctx ck skipped kinds s) \<subseteq> set (bx_messages s)"
    and "distinct (map mg_id (expired_messages ctx ck skipped kinds s))"
    and "\<forall>m \<in> set (expired_messages ctx ck skipped kinds s). mg_state m = SENDING"
proof -
  show "set (expired_messages ctx ck skipped kinds s) \<subseteq> set (bx_messages s)"
    by (auto simp: expired_messages_def dest!: in_set_takeD in_scope)
  show "distinct (map mg_id (expired_messages ctx ck skipped kinds s))"
    unfolding expired_messages_def
    by (intro taken_ids sorted_ids distinct_map_filter scoped_ids) (use assms in \<open>simp add: outbox_ok_def\<close>)
  show "\<forall>m \<in> set (expired_messages ctx ck skipped kinds s). mg_state m = SENDING"
    by (auto simp: expired_messages_def lease_expired_def dest!: in_set_takeD)
qed

lemma due_rows:
  assumes "outbox_ok s"
  shows "set (due_messages ctx ck skipped kinds limit s) \<subseteq> set (bx_messages s)"
    and "distinct (map mg_id (due_messages ctx ck skipped kinds limit s))"
    and "\<forall>m \<in> set (due_messages ctx ck skipped kinds limit s). due (ck_now ck) m \<and> mg_kind m \<in> set kinds \<and> mg_id m \<notin> set skipped"
    and "length (due_messages ctx ck skipped kinds limit s) \<le> nat limit"
proof -
  show "set (due_messages ctx ck skipped kinds limit s) \<subseteq> set (bx_messages s)"
    by (auto simp: due_messages_def dest!: in_set_takeD in_scope)
  show "distinct (map mg_id (due_messages ctx ck skipped kinds limit s))"
    unfolding due_messages_def
    by (intro taken_ids sorted_ids distinct_map_filter scoped_ids) (use assms in \<open>simp add: outbox_ok_def\<close>)
  show "\<forall>m \<in> set (due_messages ctx ck skipped kinds limit s). due (ck_now ck) m \<and> mg_kind m \<in> set kinds \<and> mg_id m \<notin> set skipped"
    by (auto simp: due_messages_def dest!: in_set_takeD)
  show "length (due_messages ctx ck skipped kinds limit s) \<le> nat limit" by (simp add: due_messages_def)
qed

lemma same_row: "outbox_ok s \<Longrightarrow> x \<in> set (bx_messages s) \<Longrightarrow> y \<in> set (bx_messages s) \<Longrightarrow> mg_id x = mg_id y \<Longrightarrow> x = y"
  by (auto simp: outbox_ok_def distinct_map inj_on_def)

text \<open>The rows due stay as they were read while the expired ones are settled.\<close>

lemma due_after_expiry:
  assumes ok: "outbox_ok s" and w: "path_within (mg_id ` set (expired_messages ctx ck skipped kinds s)) s s1"
  shows "set (due_messages ctx ck skipped kinds limit s) \<subseteq> set (bx_messages s1)"
proof
  fix m assume m: "m \<in> set (due_messages ctx ck skipped kinds limit s)"
  then have row: "m \<in> set (bx_messages s)" using due_rows(1)[OF ok] by blast
  have st: "mg_state m \<noteq> SENDING" using bspec[OF due_rows(3)[OF ok] m] by (auto simp: due_def)
  have "mg_id m \<notin> mg_id ` set (expired_messages ctx ck skipped kinds s)"
  proof
    assume "mg_id m \<in> mg_id ` set (expired_messages ctx ck skipped kinds s)"
    then obtain x where "x \<in> set (expired_messages ctx ck skipped kinds s)" "mg_id m = mg_id x" by blast
    then show False using same_row[OF ok row, of x] st expired_rows[OF ok, of ctx ck skipped kinds] by auto
  qed
  then show "m \<in> set (bx_messages s1)" using w row by (simp add: path_within_def)
qed

definition spent :: "automation_pause \<Rightarrow> nat \<Rightarrow> automation_pause" where
  "spent c n = c\<lparr>pz_reserved_today := pz_reserved_today c + int n\<rparr>"

definition batch_limit :: "delivery_env \<Rightarrow> automation_pause \<Rightarrow> int" where
  "batch_limit env c = min CLAIM_LIMIT (max 0 (de_daily_cap env - pz_reserved_today c))"

lemma claim_batch_cases:
  assumes "claim_batch env ctx0 ck skipped tid s = Inr (claims, s')"
  obtains (off) "claims = []" "s' = s"
  | (held) kinds c s0 where "lock_control (in_tenant ctx0 tid) ck s = Inr (c, s0)" "claims = []" "de_paused env \<or> pz_paused c"
      "expire_all env (in_tenant ctx0 tid) ck (expired_messages (in_tenant ctx0 tid) ck skipped kinds s0) s0 = Inr s'"
  | (ran) kinds c s0 s1 s2 where "enabled_kinds env (in_tenant ctx0 tid) s = Inr kinds"
      "lock_control (in_tenant ctx0 tid) ck s = Inr (c, s0)" "\<not> de_paused env" "\<not> pz_paused c"
      "expire_all env (in_tenant ctx0 tid) ck (expired_messages (in_tenant ctx0 tid) ck skipped kinds s0) s0 = Inr s1"
      "claim_all env (in_tenant ctx0 tid) ck tid
         (due_messages (in_tenant ctx0 tid) ck skipped kinds (batch_limit env (quota_row ck c)) s0) s1 = Inr (claims, s2)"
      "s' = s2\<lparr>bx_controls := row_put pz_id (spent (quota_row ck c) (length claims)) (bx_controls s2)\<rparr>"
proof -
  let ?ctx = "in_tenant ctx0 tid"
  obtain kinds where k: "enabled_kinds env ?ctx s = Inr kinds"
    using assms by (cases "enabled_kinds env ?ctx s") (simp_all add: claim_batch_def)
  show thesis
  proof (cases "kinds = []")
    case True
    then show thesis using assms k off by (simp add: claim_batch_def)
  next
    case False
    then obtain c s0 where c: "lock_control ?ctx ck s = Inr (c, s0)"
      using assms k by (cases "lock_control ?ctx ck s") (auto simp: claim_batch_def)
    show thesis
    proof (cases "de_paused env \<or> pz_paused c")
      case True
      then show thesis using assms k False c held[OF c _ True] by (auto simp: claim_batch_def Let_def res_iff)
    next
      case unpaused: False
      then show thesis using assms k False c ran[OF k c] by (auto simp: claim_batch_def Let_def res_iff spent_def batch_limit_def)
    qed
  qed
qed

lemma claim_batch_path:
  assumes "claim_batch env ctx0 ck skipped tid s = Inr (claims, s')" "outbox_ok s"
  shows "outbox_path s [] s'"
  using assms(1)
proof (cases rule: claim_batch_cases)
  case off
  then show ?thesis by (simp add: path_refl)
next
  case (held kinds c s0)
  have p: "outbox_path s [] s0" by (rule quiet_path[OF lock_control_quiet[OF held(1)]])
  show ?thesis
    using path_trans[OF p, of "[]" s'] expire_all_within[OF held(4) expired_rows[OF path_ok[OF p assms(2)]]]
    by (simp add: path_within_def)
next
  case (ran kinds c s0 s1 s2)
  have p: "outbox_path s [] s0" by (rule quiet_path[OF lock_control_quiet[OF ran(2)]])
  have ok: "outbox_ok s0" using path_ok[OF p assms(2)] .
  note e = expire_all_within[OF ran(5) expired_rows[OF ok]]
  have "path_within (mg_id ` set (due_messages (in_tenant ctx0 tid) ck skipped kinds (batch_limit env (quota_row ck c)) s0)) s1 s2"
    using claim_all_within[OF ran(6) within_ok[OF e ok] due_after_expiry[OF ok e] due_rows(2)[OF ok]]
      due_rows(3)[OF ok] due_claimable by blast
  then have "outbox_path s [] s2"
    using path_trans[OF path_trans[OF p], of "[]" s1 "[]" s2] e by (simp add: path_within_def)
  moreover have "quiet s2 s'" by (simp add: ran(7) quiet_def grows_def)
  ultimately show ?thesis by (rule path_quiet)
qed

section \<open>Sending and settling\<close>

lemma locked_claim_row:
  assumes "locked_claim ctx now claim s = Inr m"
  shows "m \<in> set (bx_messages s) \<and> mg_id m = cl_message claim \<and> mg_fence m = cl_fence claim \<and> mg_owner m = Some (cl_owner claim) \<and>
    mg_state m = SENDING"
  using assms message_of_Some by (auto simp: locked_claim_def res_iff split: if_splits)

text \<open>What the preparation of a claim can come to.\<close>

definition send_log :: "message \<Rightarrow> (int \<times> int) list" where
  "send_log m = (if mg_state m = SENDING then [(mg_id m, mg_fence m)] else [])"

lemma prepare_claim_cases:
  assumes "prepare_claim env ctx ck later claim s = Inr ((m1, secrets), s')"
  obtains (refused) c s0 m reason where "lock_control ctx ck s = Inr (c, s0)" "locked_claim ctx (ck_now ck) claim s0 = Inr m"
      "m1 = transitioned m \<lparr>rp_state = MSG_CANCELLED, rp_code = reason\<rparr> ''''"
      "s' = snd (transition env m \<lparr>rp_state = MSG_CANCELLED, rp_code = reason\<rparr> None '''' s0)"
  | (started) c s0 m kinds reason u d where "lock_control ctx ck s = Inr (c, s0)" "locked_claim ctx (ck_now ck) claim s0 = Inr m"
      "mg_send_started m = None" "\<not> de_paused env" "\<not> pz_paused c" "enabled_kinds env ctx s0 = Inr kinds"
      "mg_kind m \<in> set kinds" "still_valid env ctx s0 m = Inr (True, reason)" "mg_until m = Some u" "later < u"
      "m1 = m\<lparr>mg_send_started := Some later\<rparr>" "s' = (save_message m1 s0)\<lparr>bx_desk := d\<rparr>"
proof -
  let ?check = "\<lambda>c s0 m. if de_paused env \<or> pz_paused c then Inr (False, ''delivery_paused'')
      else res_bind (enabled_kinds env ctx s0) (\<lambda>kinds.
        if mg_kind m \<notin> set kinds then Inr (False, ''delivery_paused'') else still_valid env ctx s0 m)"
  obtain tid where tid: "current_tenant ctx = Inr tid" "tid = cl_tenant claim"
    using assms by (auto simp: prepare_claim_def res_iff split: if_splits)
  obtain c s0 where c: "lock_control ctx ck s = Inr (c, s0)"
    using assms tid by (cases "lock_control ctx ck s") (auto simp: prepare_claim_def)
  obtain m where m: "locked_claim ctx (ck_now ck) claim s0 = Inr m" "mg_send_started m = None"
    using assms tid c by (cases "locked_claim ctx (ck_now ck) claim s0") (auto simp: prepare_claim_def split: if_splits)
  obtain valid0 reason0 where v: "?check c s0 m = Inr (valid0, reason0)"
    using assms tid c m by (cases "?check c s0 m") (auto simp: prepare_claim_def)
  obtain p where p: "(if valid0 then run_prepare env m (bx_desk s0) else Inr (Inr [])) = Inr p"
    using assms tid c m v by (cases "if valid0 then run_prepare env m (bx_desk s0) else Inr (Inr [])") (auto simp: prepare_claim_def)
  obtain valid1 reason1 secrets1 where q:
      "(case p of Inl refusal \<Rightarrow> (False, refusal, []) | Inr sec \<Rightarrow> (valid0, reason0, sec)) = (valid1, reason1, secrets1)"
    by (metis prod.exhaust)
  let ?late = "case mg_until m of None \<Rightarrow> True | Some u \<Rightarrow> u \<le> later"
  show thesis
  proof (cases "valid1 \<and> \<not> ?late")
    case False
    let ?r = "\<lparr>rp_state = MSG_CANCELLED, rp_code = if ?late then ''lease_expired_before_dispatch'' else reason1\<rparr>"
    show thesis
      using assms tid c m v p q False transition_result[of env m ?r None "''''" s0]
        refused[OF c m(1), of "if ?late then ''lease_expired_before_dispatch'' else reason1"]
      by (simp add: prepare_claim_def Let_def split: prod.splits)
  next
    case True
    then have "valid0" using q by (cases p) auto
    then obtain kinds where k: "\<not> de_paused env" "\<not> pz_paused c" "enabled_kinds env ctx s0 = Inr kinds"
        "mg_kind m \<in> set kinds" "still_valid env ctx s0 m = Inr (True, reason0)"
      using v by (cases "enabled_kinds env ctx s0") (auto split: if_splits)
    obtain u where u: "mg_until m = Some u" "later < u" using True by (auto split: option.splits)
    show thesis
      using assms tid c m v p q True started[OF c m k u]
      by (auto simp: prepare_claim_def Let_def)
  qed
qed

lemma not_authorized_moved: "moved m m' \<Longrightarrow> \<not> authorized m m'"
  by (simp add: moved_def authorized_def)

lemma prepare_claim_path:
  assumes run: "prepare_claim env ctx ck later claim s = Inr ((m1, secrets), s')" and ok: "outbox_ok s"
  shows "outbox_path s (send_log m1) s'"
  using run
proof (cases rule: prepare_claim_cases)
  case (refused c s0 m reason)
  let ?r = "\<lparr>rp_state = MSG_CANCELLED, rp_code = reason\<rparr>"
  have p: "outbox_path s [] s0" by (rule quiet_path[OF lock_control_quiet[OF refused(1)]])
  have row: "m \<in> set (bx_messages s0)" "mg_state m = SENDING" using locked_claim_row[OF refused(2)] by simp_all
  have "outbox_path s0 [] s'"
    unfolding refused(4) by (rule transition_path[OF row(1)]) (simp_all add: observation_codes_def)
  moreover have "send_log m1 = []" using row(2) by (simp add: send_log_def refused(3) transitioned_def)
  ultimately show ?thesis using path_trans[OF p] by simp
next
  case (started c s0 m kinds reason u d)
  have p: "outbox_path s [] s0" by (rule quiet_path[OF lock_control_quiet[OF started(1)]])
  have row: "m \<in> set (bx_messages s0)" "mg_state m = SENDING" using locked_claim_row[OF started(2)] by simp_all
  have a: "authorized m m1" using row(2) started(3) by (simp add: authorized_def started(11))
  have "same_content m m1" by (cases m) (simp add: same_content_def started(11))
  then have w: "wrote s0 m m1 s'" using row a by (auto simp: wrote_def life_def grows_def started(11,12))
  have "send_log m1 = [(mg_id m, mg_fence m)]" using row(2) by (simp add: send_log_def started(11))
  then show ?thesis using path_trans[OF p path_send[OF path_refl w a]] by simp
qed

text \<open>What the gateway may report: never a claim, never the code of an observation.\<close>

definition gateway_reply :: "reply \<Rightarrow> bool" where
  "gateway_reply r = (rp_state r \<noteq> SENDING \<and> (rp_state r = TEMPORARY \<longrightarrow> rp_code r \<notin> set observation_codes))"

lemma smtp_gateway_reply: "gateway_reply (smtp_reply r)"
  by (cases r) (auto simp: gateway_reply_def observation_codes_def)

lemma egress_gateway_reply:
  assumes "egress env m b1 b2 smtp = (sent, Inr r)" "mg_state m = SENDING \<or> mg_state m = MSG_CANCELLED"
  shows "gateway_reply r"
  using assms smtp_gateway_reply[of smtp] by (auto simp: egress_def gateway_reply_def split: if_splits sum.splits)

lemma finalize_send_path:
  assumes run: "finalize_send env ctx0 ck claim reply s = Inr (changed, s')" and gw: "gateway_reply reply" and ok: "outbox_ok s"
  shows "outbox_path s [] s'"
proof -
  let ?ctx = "in_tenant ctx0 (cl_tenant claim)"
  obtain m0 where m0: "message_of ?ctx s (cl_message claim) = Some m0"
    using run by (auto simp: finalize_send_def Let_def res_iff)
  have row: "m0 \<in> set (bx_messages s)" using message_of_Some[OF m0] by simp
  show ?thesis
  proof (cases "mg_fence m0 \<noteq> cl_fence claim \<or> mg_owner m0 \<noteq> Some (cl_owner claim)")
    case True
    then show ?thesis using run m0
      by (auto simp: finalize_send_def Let_def quiet_def grows_def intro!: quiet_path)
  next
    case False
    let ?r = "settled_reply m0 reply"
    let ?m = "if rp_state ?r = TEMPORARY then m0\<lparr>mg_next_at := ck_now ck + 60 * retry_minutes (mg_attempts m0)\<rparr> else m0"
    obtain b m1 s1 where t: "transition env ?m ?r None '''' s = ((b, m1), s1)" by (metis prod.exhaust)
    have r: "rp_state ?r \<noteq> SENDING" "rp_state ?r = TEMPORARY \<longrightarrow> rp_code ?r \<notin> set observation_codes"
      using gw by (auto simp: settled_reply_def gateway_reply_def)
    have "same_content m0 ?m" by (cases m0) (simp add: same_content_def)
    then have p: "outbox_path s [] s1"
      using transition_path[OF row, of ?m ?r env None "''''"] r t by simp
    have m1: "m1 = transitioned ?m ?r ''''" "b = (rp_state ?r \<in> set (DELIVERY_TRANSITIONS (mg_state ?m)))"
      using t transition_result[of env ?m ?r None "''''" s] by simp_all
    have "quiet s1 s'"
      using run m0 False t m1 unfolding finalize_send_def
      by (auto simp: Let_def res_iff transitioned_def split: if_splits
        intro: record_effect_quiet quiet_trans dest!: report_problem_quiet dest: record_effect_quiet)
    then show ?thesis by (rule path_quiet[OF p])
  qed
qed

section \<open>The firm's commands, the reminder sweep, and entry\<close>

lemma decide_path:
  assumes "decide env ctx now actor mid expected action text s = Inr (m1, s')"
  shows "outbox_path s [] s'"
proof -
  obtain m target where m: "message_of ctx s mid = Some m" "decision_target action = Some target" "target \<noteq> SENDING"
      "s' = snd (transition env m \<lparr>rp_state = target, rp_code = ''staff_decision''\<rparr> (Some (u_id actor)) (strip text) s)"
    using assms by (auto simp: decide_def res_iff Let_def split: option.splits if_splits prod.splits)
  have "target \<noteq> TEMPORARY" using m(2) by (auto split: if_splits)
  then show ?thesis
    unfolding m(4) using m(3) message_of_Some[OF m(1)] by (intro transition_path[of m]) simp_all
qed

lemma cancel_reminder_path:
  assumes "cancel_reminder env ctx ck skipped mid s = Inr (n, s')" "outbox_ok s"
  shows "outbox_path s [] s'"
proof -
  obtain c s0 where c: "lock_control ctx ck s = Inr (c, s0)"
    using assms(1) by (cases "lock_control ctx ck s") (auto simp: cancel_reminder_def)
  have p: "outbox_path s [] s0" by (rule quiet_path[OF lock_control_quiet[OF c]])
  have "s' = s0 \<or> (\<exists>m reason. m \<in> set (bx_messages s0) \<and>
      s' = snd (transition env m \<lparr>rp_state = MSG_CANCELLED, rp_code = reason\<rparr> None '''' s0))"
    using assms(1) c in_scope[of _ ctx mg_tenant "bx_messages s0"]
    by (auto simp: cancel_reminder_def res_iff Let_def split: option.splits if_splits prod.splits
      dest!: find_Some_iff_first) (metis snd_conv)+
  then have "outbox_path s0 [] s'"
    by (auto simp: path_refl intro!: transition_path)
  then show ?thesis using path_trans[OF p] by simp
qed

lemma cancel_each_path:
  "cancel_each env ctx ck skipped mids s = (r, s') \<Longrightarrow> outbox_ok s \<Longrightarrow> outbox_path s [] s'"
proof (induction mids arbitrary: s r)
  case Nil
  then show ?case by (simp add: path_refl)
next
  case (Cons mid mids)
  show ?case
  proof (cases "cancel_reminder env ctx ck skipped mid s")
    case (Inl e)
    then show ?thesis using Cons.prems by (simp add: path_refl)
  next
    case (Inr p)
    obtain n s1 where n: "cancel_reminder env ctx ck skipped mid s = Inr (n, s1)" using Inr by (cases p) simp
    obtain r1 where r1: "cancel_each env ctx ck skipped mids s1 = (r1, s')"
      using Cons.prems(1) n by (auto split: prod.splits sum.splits)
    have one: "outbox_path s [] s1" by (rule cancel_reminder_path[OF n Cons.prems(2)])
    show ?thesis using path_trans[OF one Cons.IH[OF r1 path_ok[OF one Cons.prems(2)]]] by simp
  qed
qed

lemma new_message_fields [simp]:
  "mg_id (new_message now mid tid actor contact cid cycle kind k intent caller url invite request) = mid"
  "mg_tenant (new_message now mid tid actor contact cid cycle kind k intent caller url invite request) = tid"
  "mg_client (new_message now mid tid actor contact cid cycle kind k intent caller url invite request) = cid"
  "mg_state (new_message now mid tid actor contact cid cycle kind k intent caller url invite request) = QUEUED"
  "mg_attempts (new_message now mid tid actor contact cid cycle kind k intent caller url invite request) = 0"
  "mg_send_started (new_message now mid tid actor contact cid cycle kind k intent caller url invite request) = None"
  "mg_intent (new_message now mid tid actor contact cid cycle kind k intent caller url invite request) = intent"
  "mg_idempotency (new_message now mid tid actor contact cid cycle kind k intent caller url invite request) = caller"
  by (simp_all add: new_message_def)

lemma bump_client_frame [simp]:
  "bx_messages (bump_client cid s) = bx_messages s" "bx_effects (bump_client cid s) = bx_effects s"
  "bx_attempts (bump_client cid s) = bx_attempts s" "bx_next (bump_client cid s) = bx_next s" "bx_desk (bump_client cid s) = bx_desk s"
  by (simp_all add: bump_client_def)

lemma draft_message_row:
  assumes "draft_message env ctx now scope contact_id intent kind cycle_id idem invite request s = Inr m"
  shows "mg_id m = bx_next s \<and> mg_state m = QUEUED \<and> mg_attempts m = 0 \<and> mg_send_started m = None"
  using assms by (auto simp: draft_message_def Let_def res_iff split: if_splits)

lemma insert_message_entered:
  assumes "insert_message m s = Inr s1" "mg_id m = bx_next s" "mg_attempts m = 0" "mg_send_started m = None"
    and "mg_state m \<in> {QUEUED, ACCEPTED, REJECTED, SEND_UNKNOWN}" "quiet s1 s'"
  shows "entered s m s'"
  using assms by (auto simp: insert_message_def entered_def quiet_def grows_def split: if_splits)

lemma settled_draft_row:
  assumes "settled_draft ctx s m = Inr m1" "outbox_ok s" "mg_state m = QUEUED"
  shows "mg_id m1 = mg_id m \<and> mg_attempts m1 = mg_attempts m \<and> mg_send_started m1 = mg_send_started m \<and>
    mg_state m1 \<in> {QUEUED, ACCEPTED, REJECTED, SEND_UNKNOWN}"
  using assms recorded_effect_Some[of ctx s m]
  by (auto simp: settled_draft_def outbox_ok_def split: option.splits if_splits)

lemma scoped_find: "find P (scoped ctx f xs) = Some x \<Longrightarrow> x \<in> set xs"
  using in_scope find_Some_iff_first by metis

lemma enqueue_cases:
  assumes "enqueue env ctx now locked_scope contact_id intent expected kind cycle_id idem invite request s = Inr (m, s')"
  obtains (again) scope m0 where "locked_scope = Inr scope"
      "draft_message env ctx now scope contact_id intent kind cycle_id idem invite request s = Inr m0"
      "find (\<lambda>r. mg_client r = mg_client m0 \<and> (mg_intent r = mg_intent m0 \<or> mg_idempotency r = mg_idempotency m0))
         (scoped ctx mg_tenant (bx_messages s)) = Some m" "s' = s"
      "mg_digest m = mg_digest m0" "mg_intent m = mg_intent m0" "mg_authorization m = mg_authorization m0"
  | (fresh) scope m0 s1 actor where "locked_scope = Inr scope"
      "draft_message env ctx now scope contact_id intent kind cycle_id idem invite request s = Inr m0"
      "settled_draft ctx s m0 = Inr m" "insert_message m s = Inr s1"
      "s' = record_attempt env m (mg_state m) ''enqueued'' actor '''' (bump_client (mg_client m) s1)"
      "find (\<lambda>r. mg_client r = mg_client m0 \<and> (mg_intent r = mg_intent m0 \<or> mg_idempotency r = mg_idempotency m0))
         (scoped ctx mg_tenant (bx_messages s)) = None"
proof -
  obtain scope where sc: "locked_scope = Inr scope" using assms by (auto simp: enqueue_def res_iff)
  obtain m0 where m0: "draft_message env ctx now scope contact_id intent kind cycle_id idem invite request s = Inr m0"
    using assms sc by (auto simp: enqueue_def res_iff)
  show thesis
  proof (cases "find (\<lambda>r. mg_client r = mg_client m0 \<and> (mg_intent r = mg_intent m0 \<or> mg_idempotency r = mg_idempotency m0))
      (scoped ctx mg_tenant (bx_messages s))")
    case (Some previous)
    then show thesis using assms sc m0 again[OF sc m0] by (simp add: enqueue_def res_bind_eq_Inr split: if_splits)
  next
    case None
    then show thesis using assms sc m0 fresh[OF sc m0] by (auto simp: enqueue_def res_bind_eq_Inr)
  qed
qed

lemma enqueue_entered:
  assumes run: "enqueue env ctx now locked_scope contact_id intent expected kind cycle_id idem invite request s = Inr (m, s')"
    and ok: "outbox_ok s"
  shows "s' = s \<and> m \<in> set (bx_messages s) \<or> entered s m s'"
  using run
proof (cases rule: enqueue_cases)
  case (again scope m0)
  then show ?thesis using scoped_find[OF again(3)] by simp
next
  case (fresh scope m0 s1 actor)
  have "quiet s1 s'" by (auto simp: fresh(5) quiet_def grows_def)
  then show ?thesis
    using insert_message_entered[OF fresh(4)] settled_draft_row[OF fresh(3) ok] draft_message_row[OF fresh(2)] by simp
qed

lemma draft_invite_row:
  assumes "draft_invite env ctx now scope lower tid invite cid contact kind s = Inr m"
  shows "mg_id m = bx_next s \<and> mg_state m = QUEUED \<and> mg_attempts m = 0 \<and> mg_send_started m = None"
  using assms by (auto simp: draft_invite_def Let_def res_iff split: if_splits)

lemma enqueue_portal_invite_entered:
  assumes run: "enqueue_portal_invite env ctx now locked_scope lower invite contact kind s = Inr (m, s')"
  shows "s' = s \<and> m \<in> set (bx_messages s) \<or> entered s m s'"
proof -
  obtain tid kinds cid scope where "current_tenant ctx = Inr tid" "enabled_kinds env ctx s = Inr kinds"
      "iv_client invite = Some cid" "locked_scope = Inr scope"
    using run by (auto simp: enqueue_portal_invite_def res_iff split: if_splits)
  note sc = this
  obtain m0 where m0: "draft_invite env ctx now scope lower tid invite cid contact kind s = Inr m0"
    using run sc by (auto simp: enqueue_portal_invite_def res_iff split: if_splits)
  show ?thesis
  proof (cases "find (\<lambda>r. mg_client r = cid \<and> mg_intent r = mg_intent m0) (scoped ctx mg_tenant (bx_messages s))")
    case (Some previous)
    then have "m = previous" "s' = s" using run sc m0 by (auto simp: enqueue_portal_invite_def split: if_splits)
    then show ?thesis using scoped_find[OF Some] by simp
  next
    case None
    obtain s1 actor where s1: "insert_message m s = Inr s1" "m = m0" "s' = record_attempt env m (mg_state m) ''enqueued'' actor '''' s1"
      using run sc m0 None by (auto simp: enqueue_portal_invite_def res_bind_eq_Inr split: if_splits)
    have "quiet s1 s'" by (auto simp: s1(3) quiet_def grows_def)
    then show ?thesis using insert_message_entered[OF s1(1)] s1(2) draft_invite_row[OF m0] by simp
  qed
qed

section \<open>Dead letters\<close>

lemma locked_dead_letter_row:
  assumes "locked_dead_letter env ctx ck actor mid expected for_retry s = Inr ((fresh, m), s0)"
  shows "quiet s s0 \<and> m \<in> set (bx_messages s0) \<and> mg_id m = mid \<and> mg_state m = REJECTED"
proof -
  obtain c where c: "lock_control ctx ck s = Inr (c, s0)" "message_of ctx s0 mid = Some m" "mg_state m = REJECTED"
    using assms unfolding locked_dead_letter_def
    by (auto simp: res_bind_eq_Inr split: prod.splits if_splits)
  then show ?thesis using lock_control_quiet[OF c(1)] message_of_Some[OF c(2)] by simp
qed

lemma close_rejection_wrote:
  assumes "m \<in> set (bx_messages s)" "mg_state m = REJECTED"
  shows "wrote s m (closed_message code m) (close_rejection env m actor code s)"
proof -
  have "same_content m (closed_message code m)" by (cases m) (simp add: same_content_def closed_message_def)
  then have "life m (closed_message code m)" using assms(2) by (simp add: life_def closed_def closed_message_def)
  then show ?thesis using assms(1) by (auto simp: wrote_def close_rejection_def grows_def closed_message_def)
qed

lemma close_rejection_path:
  assumes "m \<in> set (bx_messages s)" "mg_state m = REJECTED"
  shows "outbox_path s [] (close_rejection env m actor code s)"
  using write_path[OF close_rejection_wrote[OF assms]] by (simp add: authorized_def closed_message_def)

lemma attempt_quiet: "quiet s (record_attempt env m st code actor remark s)"
  by (auto simp: quiet_def grows_def)

lemma audit_quiet: "quiet s (s\<lparr>bx_audit := au\<rparr>)"
  by (simp add: quiet_def grows_def)

lemma retry_dead_letter_parts:
  assumes "retry_dead_letter env ctx ck actor mid expected s = Inr (x, s')"
  obtains fresh m s0 s1 st where "locked_dead_letter env ctx ck actor mid expected True s = Inr ((fresh, m), s0)"
    "x = successor_message (ck_now ck) (bx_next s0) (retry_key env (mg_intent m)) st m" "st = QUEUED \<or> (\<exists>e \<in> set (bx_effects s0). st = ef_outcome e)"
    "insert_message x s0 = Inr s1"
    "quiet (close_rejection env m fresh ''staff_retry'' s1) s'"
proof -
  obtain fresh m s0 where l: "locked_dead_letter env ctx ck actor mid expected True s = Inr ((fresh, m), s0)"
    using assms by (auto simp: retry_dead_letter_def res_bind_eq_Inr)
  let ?receipt = "find (\<lambda>e. ef_client e = mg_client m \<and> ef_intent e = retry_key env (mg_intent m)) (scoped ctx ef_tenant (bx_effects s0))"
  let ?st = "case ?receipt of None \<Rightarrow> QUEUED | Some e \<Rightarrow> ef_outcome e"
  obtain s1 au a where s1: "x = successor_message (ck_now ck) (bx_next s0) (retry_key env (mg_intent m)) ?st m"
      "insert_message x s0 = Inr s1"
      "s' = (record_attempt env x (mg_state x) ''enqueued'' a '''' (close_rejection env m fresh ''staff_retry'' s1))\<lparr>bx_audit := au\<rparr>"
    using assms l by (auto simp: retry_dead_letter_def res_bind_eq_Inr Let_def)
  have q: "quiet (close_rejection env m fresh ''staff_retry'' s1) s'"
    unfolding s1(3) by (rule quiet_trans[OF attempt_quiet audit_quiet])
  have "?st = QUEUED \<or> (\<exists>e \<in> set (bx_effects s0). ?st = ef_outcome e)"
    using scoped_find[of _ ctx ef_tenant "bx_effects s0"] by (auto split: option.splits)
  then show thesis by (rule that[OF l s1(1) _ s1(2) q])
qed

lemma retry_dead_letter_path:
  assumes "retry_dead_letter env ctx ck actor mid expected s = Inr (x, s')" "outbox_ok s"
  shows "outbox_path s [] s'"
  using assms(1)
proof (rule retry_dead_letter_parts)
  fix fresh m s0 s1 st
  assume l: "locked_dead_letter env ctx ck actor mid expected True s = Inr ((fresh, m), s0)"
    and x: "x = successor_message (ck_now ck) (bx_next s0) (retry_key env (mg_intent m)) st m"
      "st = QUEUED \<or> (\<exists>e \<in> set (bx_effects s0). st = ef_outcome e)" "insert_message x s0 = Inr s1"
    and q: "quiet (close_rejection env m fresh ''staff_retry'' s1) s'"
  have row: "quiet s s0" "m \<in> set (bx_messages s0)" "mg_state m = REJECTED" using locked_dead_letter_row[OF l] by simp_all
  have "mg_state x \<in> {QUEUED, ACCEPTED, REJECTED, SEND_UNKNOWN}"
    using x(1,2) outbox_ok_quiet[OF assms(2) row(1)] by (auto simp: successor_message_def outbox_ok_def)
  then have "entered s0 x s1"
    using insert_message_entered[OF x(3)] by (simp add: x(1) successor_message_def)
  then have "outbox_path s [] s1" using path_enter[OF quiet_path[OF row(1)]] by blast
  moreover have "m \<in> set (bx_messages s1)" using row(2) x(3) by (auto simp: insert_message_def split: if_splits)
  ultimately have "outbox_path s [] (close_rejection env m fresh ''staff_retry'' s1)"
    using path_trans[of s "[]" s1] close_rejection_path[OF _ row(3)] by fastforce
  then show ?thesis by (rule path_quiet[OF _ q])
qed

lemma cancel_dead_letter_path:
  assumes "cancel_dead_letter env ctx ck actor mid expected s = Inr (x, s')"
  shows "outbox_path s [] s'"
proof -
  obtain fresh m s0 where l: "locked_dead_letter env ctx ck actor mid expected False s = Inr ((fresh, m), s0)"
      "quiet (close_rejection env m fresh ''staff_cancel'' s0) s'"
    using assms audit_quiet by (auto simp: cancel_dead_letter_def res_bind_eq_Inr Let_def)
  have row: "quiet s s0" "m \<in> set (bx_messages s0)" "mg_state m = REJECTED" using locked_dead_letter_row[OF l(1)] by simp_all
  show ?thesis
    using path_quiet[OF path_trans[OF quiet_path[OF row(1)] close_rejection_path[OF row(2,3)]] l(2)] by simp
qed

section \<open>Runs\<close>

text \<open>
  Any interleaving of committed phases, commands, entries and desk steps, by any workers, with any
  settings and clocks.  The log collects the sends authorized by \<^verbatim>\<open>prepare_claim\<close>.
\<close>

inductive outbox_run :: "(string \<Rightarrow> string) \<Rightarrow> outbox \<Rightarrow> (int \<times> int) list \<Rightarrow> outbox \<Rightarrow> bool" for digest s0 where
  run_start: "outbox_run digest s0 [] s0"
| run_desk: "outbox_run digest s0 sends s \<Longrightarrow> desk_step digest (bx_desk s) d \<Longrightarrow> outbox_run digest s0 sends (s\<lparr>bx_desk := d\<rparr>)"
| run_enqueue: "outbox_run digest s0 sends s \<Longrightarrow>
    enqueue env ctx now scope contact_id intent expected kind cycle_id idem invite request s = Inr (m, s') \<Longrightarrow>
    outbox_run digest s0 sends s'"
| run_invite: "outbox_run digest s0 sends s \<Longrightarrow>
    enqueue_portal_invite env ctx now scope lower invite contact kind s = Inr (m, s') \<Longrightarrow> outbox_run digest s0 sends s'"
| run_claim: "outbox_run digest s0 sends s \<Longrightarrow> claim_batch env ctx ck skipped tid s = Inr (claims, s') \<Longrightarrow>
    outbox_run digest s0 sends s'"
| run_prepared: "outbox_run digest s0 sends s \<Longrightarrow> prepare_claim env ctx ck later claim s = Inr ((m, secrets), s') \<Longrightarrow>
    outbox_run digest s0 (sends @ send_log m) s'"
| run_finalize: "outbox_run digest s0 sends s \<Longrightarrow> gateway_reply reply \<Longrightarrow>
    finalize_send env ctx ck claim reply s = Inr (changed, s') \<Longrightarrow> outbox_run digest s0 sends s'"
| run_decide: "outbox_run digest s0 sends s \<Longrightarrow> decide env ctx now actor mid expected action text s = Inr (m, s') \<Longrightarrow>
    outbox_run digest s0 sends s'"
| run_retry: "outbox_run digest s0 sends s \<Longrightarrow> retry_dead_letter env ctx ck actor mid expected s = Inr (m, s') \<Longrightarrow>
    outbox_run digest s0 sends s'"
| run_close: "outbox_run digest s0 sends s \<Longrightarrow> cancel_dead_letter env ctx ck actor mid expected s = Inr (m, s') \<Longrightarrow>
    outbox_run digest s0 sends s'"
| run_pause: "outbox_run digest s0 sends s \<Longrightarrow> set_pause ctx ck actor paused expected s = Inr (c, s') \<Longrightarrow>
    outbox_run digest s0 sends s'"
| run_cancel: "outbox_run digest s0 sends s \<Longrightarrow> cancel_obsolete_reminders env ctx ck skipped tid s = (r, s') \<Longrightarrow>
    outbox_run digest s0 sends s'"

lemma entered_path: "entered s m s' \<Longrightarrow> outbox_path s [] s'"
  by (rule path_enter[OF path_refl])

lemma run_path: "outbox_run digest s0 sends s \<Longrightarrow> outbox_ok s0 \<Longrightarrow> outbox_path s0 sends s"
proof (induction rule: outbox_run.induct)
  case run_start
  show ?case by (rule path_refl)
next
  case (run_desk sends s d)
  have "quiet s (s\<lparr>bx_desk := d\<rparr>)" by (simp add: quiet_def grows_def)
  then show ?case using path_quiet run_desk.IH run_desk.prems by blast
next
  case (run_enqueue sends s env ctx now scope contact_id intent expected kind cycle_id idem invite request m s')
  have p: "outbox_path s0 sends s" using run_enqueue.IH run_enqueue.prems .
  have "outbox_path s [] s'"
    using enqueue_entered[OF run_enqueue.hyps(2) path_ok[OF p run_enqueue.prems]] entered_path path_refl by blast
  then show ?case using path_trans[OF p] by fastforce
next
  case (run_invite sends s env ctx now scope lower invite contact kind m s')
  have p: "outbox_path s0 sends s" using run_invite.IH run_invite.prems .
  have "outbox_path s [] s'" using enqueue_portal_invite_entered[OF run_invite.hyps(2)] entered_path path_refl by blast
  then show ?case using path_trans[OF p] by fastforce
next
  case (run_claim sends s env ctx ck skipped tid claims s')
  have p: "outbox_path s0 sends s" using run_claim.IH run_claim.prems .
  show ?case using path_trans[OF p claim_batch_path[OF run_claim.hyps(2) path_ok[OF p run_claim.prems]]] by simp
next
  case (run_prepared sends s env ctx ck later claim m secrets s')
  have p: "outbox_path s0 sends s" using run_prepared.IH run_prepared.prems .
  show ?case using path_trans[OF p prepare_claim_path[OF run_prepared.hyps(2) path_ok[OF p run_prepared.prems]]] .
next
  case (run_finalize sends s reply env ctx ck claim changed s')
  have p: "outbox_path s0 sends s" using run_finalize.IH run_finalize.prems .
  show ?case
    using path_trans[OF p finalize_send_path[OF run_finalize.hyps(3,2) path_ok[OF p run_finalize.prems]]] by simp
next
  case (run_decide sends s env ctx now actor mid expected action remark m s')
  have p: "outbox_path s0 sends s" using run_decide.IH run_decide.prems .
  show ?case using path_trans[OF p decide_path[OF run_decide.hyps(2)]] by simp
next
  case (run_retry sends s env ctx ck actor mid expected m s')
  have p: "outbox_path s0 sends s" using run_retry.IH run_retry.prems .
  show ?case using path_trans[OF p retry_dead_letter_path[OF run_retry.hyps(2) path_ok[OF p run_retry.prems]]] by simp
next
  case (run_close sends s env ctx ck actor mid expected m s')
  have p: "outbox_path s0 sends s" using run_close.IH run_close.prems .
  show ?case using path_trans[OF p cancel_dead_letter_path[OF run_close.hyps(2)]] by simp
next
  case (run_pause sends s ctx ck actor paused expected c s')
  have p: "outbox_path s0 sends s" using run_pause.IH run_pause.prems .
  show ?case by (rule path_quiet[OF p set_pause_quiet[OF run_pause.hyps(2)]])
next
  case (run_cancel sends s env ctx ck skipped tid r s')
  have p: "outbox_path s0 sends s" using run_cancel.IH run_cancel.prems .
  show ?case
    using path_trans[OF p cancel_each_path[OF run_cancel.hyps(2)[unfolded cancel_obsolete_reminders_def Let_def] path_ok[OF p run_cancel.prems]]]
    by simp
qed

end
