(* ===== verification/Delivery_Properties.thy ===== *)
theory Delivery_Properties
  imports Delivery_Runs
begin

text \<open>
  What the outbox promises over every interleaving of its phases: no message is sent twice under one
  claim, sends are bounded, finished rows and their content stay, the daily cap and the pause hold,
  replies settle once, and a repeated request converges.
\<close>

section \<open>Rows along a path\<close>

lemma wrote_row_image:
  assumes "outbox_ok s" "wrote s m m' s'" "x \<in> set (bx_messages s)"
  shows "(if x = m then m' else x) \<in> set (bx_messages s')"
  using assms by (auto simp: wrote_rows)

lemma life_final: "life m m' \<Longrightarrow> mg_state m \<in> {ACCEPTED, MSG_CANCELLED, MANUAL_SENT, MANUAL_NOT_SENT} \<Longrightarrow> False"
  by (auto simp: life_def claimed_def authorized_def moved_def replayed_def closed_def)

text \<open>A fact about one row that every write of a life keeps is kept along paths.\<close>

lemma path_row_invariant:
  assumes path: "outbox_path s0 sends s" and ok: "outbox_ok s0"
    and start: "\<exists>m \<in> set (bx_messages s0). mg_id m = i \<and> P m" and keep: "\<And>m m'. P m \<Longrightarrow> life m m' \<Longrightarrow> P m'"
  shows "\<exists>m \<in> set (bx_messages s). mg_id m = i \<and> P m"
proof -
  have wrote: "\<exists>m \<in> set (bx_messages s'). mg_id m = i \<and> P m"
    if s: "outbox_ok s" "wrote s r r' s'" "\<exists>m \<in> set (bx_messages s). mg_id m = i \<and> P m" for s r r' s'
  proof -
    obtain m where m: "m \<in> set (bx_messages s)" "mg_id m = i" "P m" using s(3) by blast
    have l: "life r r'" using s(2) by (simp add: wrote_def)
    have "mg_id r' = mg_id r" using l same_content_id by (simp add: life_def)
    then have "mg_id (if m = r then r' else m) = i \<and> P (if m = r then r' else m)"
      using m keep[OF _ l] by (cases "m = r") simp_all
    then show ?thesis using wrote_row_image[OF s(1,2) m(1)] by blast
  qed
  show ?thesis
    using path
  proof (induction rule: outbox_path.induct)
    case path_refl
    show ?case by (rule start)
  next
    case (path_quiet sends s s')
    then show ?case by (simp add: quiet_def)
  next
    case (path_enter sends s x s')
    then show ?case by (auto simp: entered_def)
  next
    case (path_write sends s r r' s')
    then show ?case using wrote[OF path_ok[OF path_write(1) ok]] by blast
  next
    case (path_send sends s r r' s')
    then show ?case using wrote[OF path_ok[OF path_send(1) ok]] by blast
  qed
qed

definition finished :: "message \<Rightarrow> bool" where
  "finished m = (mg_state m \<in> {ACCEPTED, MSG_CANCELLED, MANUAL_SENT, MANUAL_NOT_SENT})"

lemma path_keeps_rows:
  assumes "outbox_path s0 sends s" "outbox_ok s0" "m \<in> set (bx_messages s0)"
  shows "\<exists>m' \<in> set (bx_messages s). same_content m m' \<and> (finished m \<longrightarrow> m' = m)"
proof -
  have "\<exists>x \<in> set (bx_messages s). mg_id x = mg_id m \<and> same_content m x \<and> (finished m \<longrightarrow> x = m)"
  proof (rule path_row_invariant[OF assms(1,2)])
    show "\<exists>x \<in> set (bx_messages s0). mg_id x = mg_id m \<and> same_content m x \<and> (finished m \<longrightarrow> x = m)"
      using assms(3) by (intro bexI[of _ m]) simp_all
  next
    fix x x' assume x: "same_content m x \<and> (finished m \<longrightarrow> x = m)" and l: "life x x'"
    then have "\<not> finished m" using life_final[OF l] by (auto simp: finished_def)
    then show "same_content m x' \<and> (finished m \<longrightarrow> x' = m)"
      using x l same_content_trans[of m x x'] by (auto simp: life_def)
  qed
  then show ?thesis by blast
qed

section \<open>Counting sends\<close>

definition mail_sends :: "int \<Rightarrow> (int \<times> int) list \<Rightarrow> nat" where
  "mail_sends i sends = length (filter (\<lambda>p. fst p = i) sends)"

definition pending_send :: "message \<Rightarrow> nat" where
  "pending_send m = (if mg_state m = SENDING \<and> mg_send_started m = None then 1 else 0)"

lemma mail_sends_append [simp]: "mail_sends i (xs @ ys) = mail_sends i xs + mail_sends i ys"
  "mail_sends i [] = 0" "mail_sends i [(j, f)] = (if j = i then 1 else 0)"
  by (simp_all add: mail_sends_def)

definition sends_paid :: "outbox \<Rightarrow> (int \<times> int) list \<Rightarrow> bool" where
  "sends_paid s sends = (\<forall>m \<in> set (bx_messages s). mail_sends (mg_id m) sends + pending_send m \<le> mg_attempts m)"

lemma sends_paid_life: "life m m' \<Longrightarrow> n + pending_send m \<le> mg_attempts m \<Longrightarrow>
    n + (if authorized m m' then 1 else 0) + pending_send m' \<le> mg_attempts m'"
  by (auto simp: life_def claimed_def authorized_def moved_def replayed_def closed_def pending_send_def split: if_splits)

lemma sends_paid_wrote:
  assumes ok: "outbox_ok s" and paid: "sends_paid s sends" and w: "wrote s m m' s'"
  shows "sends_paid s' (sends @ (if authorized m m' then [(mg_id m, mg_fence m)] else []))"
  unfolding sends_paid_def
proof
  fix x assume "x \<in> set (bx_messages s')"
  then obtain r where r: "r \<in> set (bx_messages s)" "x = (if r = m then m' else r)"
    unfolding wrote_rows[OF ok w] by auto
  have m: "m \<in> set (bx_messages s)" "life m m'" using w by (simp_all add: wrote_def)
  have id: "mg_id m' = mg_id m" using m(2) same_content_id by (simp add: life_def)
  have old: "mail_sends (mg_id r) sends + pending_send r \<le> mg_attempts r" using paid r(1) by (simp add: sends_paid_def)
  show "mail_sends (mg_id x) (sends @ (if authorized m m' then [(mg_id m, mg_fence m)] else [])) + pending_send x \<le> mg_attempts x"
  proof (cases "r = m")
    case True
    then show ?thesis using r(2) id sends_paid_life[OF m(2), of "mail_sends (mg_id m) sends"] old
      by (cases "authorized m m'") simp_all
  next
    case False
    then have "mg_id r \<noteq> mg_id m" using same_row[OF ok r(1) m(1)] by blast
    then show ?thesis using r(2) False old by simp
  qed
qed

lemma unsent_fresh:
  assumes "sends_ok s sends" "i \<notin> mg_id ` set (bx_messages s)"
  shows "mail_sends i sends = 0"
proof -
  have "fst p \<noteq> i" if p: "p \<in> set sends" for p using sends_okD[OF assms(1) p] assms(2) by (metis imageI)
  then show ?thesis by (simp add: mail_sends_def filter_empty_conv)
qed

lemma path_sends_paid:
  assumes "outbox_path s0 sends s" "outbox_ok s0"
  shows "sends_paid s sends"
  using assms(1)
proof (induction rule: outbox_path.induct)
  case path_refl
  show ?case using assms(2) by (auto simp: sends_paid_def outbox_ok_def pending_send_def Suc_le_eq)
next
  case (path_quiet sends s s')
  then show ?case by (simp add: sends_paid_def quiet_def)
next
  case (path_enter sends s m s')
  have "mg_id m \<notin> mg_id ` set (bx_messages s)"
    using path_enter(2) path_ok[OF path_enter(1) assms(2)] by (auto simp: entered_def outbox_ok_def)
  then have "mail_sends (mg_id m) sends = 0" by (rule unsent_fresh[OF path_sends_ok[OF path_enter(1) assms(2)]])
  then show ?case using path_enter by (auto simp: sends_paid_def entered_def pending_send_def)
next
  case (path_write sends s m m' s')
  then show ?case using sends_paid_wrote[OF path_ok[OF path_write(1) assms(2)] path_write(4,2)] by simp
next
  case (path_send sends s m m' s')
  then show ?case using sends_paid_wrote[OF path_ok[OF path_send(1) assms(2)] path_send(4,2)] by simp
qed

section \<open>The cap, the pause, and late replies\<close>

lemma claims_within_rows:
  assumes "claim_batch env ctx0 ck skipped tid s = Inr (claims, s')" "outbox_ok s" "claims \<noteq> []"
  obtains kinds c s0 where "enabled_kinds env (in_tenant ctx0 tid) s = Inr kinds"
    "lock_control (in_tenant ctx0 tid) ck s = Inr (c, s0)" "\<not> de_paused env" "\<not> pz_paused c"
    "pz_reserved_today (quota_row ck c) + int (length claims) \<le> de_daily_cap env" "int (length claims) \<le> CLAIM_LIMIT"
    "distinct (map cl_message claims)"
    "\<forall>cl \<in> set claims. cl_tenant cl = tid \<and> (\<exists>m \<in> set (bx_messages s). mg_id m = cl_message cl \<and> due (ck_now ck) m \<and>
       mg_kind m \<in> set kinds \<and> mg_id m \<notin> set skipped \<and> cl_fence cl = mg_fence m + 1 \<and>
       claimed_row ck (cl_owner cl) m \<in> set (bx_messages s'))"
  using assms(1)
proof (cases rule: claim_batch_cases)
  case (ran kinds c s0 s1 s2)
  let ?rows = "due_messages (in_tenant ctx0 tid) ck skipped kinds (batch_limit env (quota_row ck c)) s0"
  have q: "quiet s s0" by (rule lock_control_quiet[OF ran(2)])
  have ok: "outbox_ok s0" by (rule outbox_ok_quiet[OF assms(2) q])
  note e = expire_all_within[OF ran(5) expired_rows[OF ok]]
  have cl: "claims_for ck tid ?rows s2 claims"
    using claim_all_within[OF ran(6) within_ok[OF e ok] due_after_expiry[OF ok e] due_rows(2)[OF ok]]
      due_rows(3)[OF ok] due_claimable by blast
  have len: "length claims \<le> nat (batch_limit env (quota_row ck c))"
    using cl due_rows(4)[OF ok, of "in_tenant ctx0 tid" ck skipped kinds "batch_limit env (quota_row ck c)"]
    by (simp add: claims_for_def)
  then have bounds: "pz_reserved_today (quota_row ck c) + int (length claims) \<le> de_daily_cap env" "int (length claims) \<le> CLAIM_LIMIT"
    using assms(3) by (auto simp: batch_limit_def nat_le_eq_zle le_nat_iff neq_Nil_conv)
  have "\<forall>cl \<in> set claims. cl_tenant cl = tid \<and> (\<exists>m \<in> set (bx_messages s). mg_id m = cl_message cl \<and> due (ck_now ck) m \<and>
       mg_kind m \<in> set kinds \<and> mg_id m \<notin> set skipped \<and> cl_fence cl = mg_fence m + 1 \<and>
       claimed_row ck (cl_owner cl) m \<in> set (bx_messages s'))"
  proof
    fix cl0 assume "cl0 \<in> set claims"
    then obtain m where m: "cl_tenant cl0 = tid" "m \<in> set ?rows" "cl_message cl0 = mg_id m" "cl_fence cl0 = mg_fence m + 1"
        "claimed_row ck (cl_owner cl0) m \<in> set (bx_messages s2)"
      using cl by (auto simp: claims_for_def)
    have "m \<in> set (bx_messages s)" using subsetD[OF due_rows(1)[OF ok] m(2)] q by (simp add: quiet_def)
    then show "cl_tenant cl0 = tid \<and> (\<exists>m \<in> set (bx_messages s). mg_id m = cl_message cl0 \<and> due (ck_now ck) m \<and>
       mg_kind m \<in> set kinds \<and> mg_id m \<notin> set skipped \<and> cl_fence cl0 = mg_fence m + 1 \<and>
       claimed_row ck (cl_owner cl0) m \<in> set (bx_messages s'))"
      using m bspec[OF due_rows(3)[OF ok] m(2)] ran(7) by (intro conjI bexI[of _ m]) simp_all
  qed
  moreover have "distinct (map cl_message claims)" using cl by (simp add: claims_for_def)
  ultimately show thesis using that ran(1-4) bounds by blast
qed (use assms(3) in auto)

lemma finalize_late:
  assumes run: "finalize_send env ctx0 ck claim (smtp_reply r) s = Inr (changed, s')" and ok: "outbox_ok s"
    and closed: "\<exists>m \<in> set (bx_messages s). mg_id m = cl_message claim \<and>
      (cl_fence claim < mg_fence m \<or> cl_fence claim = mg_fence m \<and> mg_state m \<noteq> SENDING)"
  shows "\<not> changed \<and> bx_messages s' = bx_messages s"
proof -
  let ?ctx = "in_tenant ctx0 (cl_tenant claim)"
  obtain m0 where m0: "message_of ?ctx s (cl_message claim) = Some m0"
    using run by (auto simp: finalize_send_def Let_def res_iff)
  obtain m where m: "m \<in> set (bx_messages s)" "mg_id m = cl_message claim"
      "cl_fence claim < mg_fence m \<or> cl_fence claim = mg_fence m \<and> mg_state m \<noteq> SENDING" using closed by blast
  have "m = m0" using same_row[OF ok m(1)] message_of_Some[OF m0] m(2) by simp
  note m = m[unfolded this]
  show ?thesis
  proof (cases "mg_fence m0 \<noteq> cl_fence claim \<or> mg_owner m0 \<noteq> Some (cl_owner claim)")
    case True
    then show ?thesis using run m0 by (auto simp: finalize_send_def Let_def)
  next
    case False
    let ?r = "settled_reply m0 (smtp_reply r)"
    let ?m = "if rp_state ?r = TEMPORARY then m0\<lparr>mg_next_at := ck_now ck + 60 * retry_minutes (mg_attempts m0)\<rparr> else m0"
    have "rp_state ?r \<in> {ACCEPTED, TEMPORARY, REJECTED, SEND_UNKNOWN}" by (cases r) (auto simp: settled_reply_def)
    then have late: "rp_state ?r \<notin> set (DELIVERY_TRANSITIONS (mg_state ?m))"
      using m(3) False by (cases "mg_state m0") auto
    obtain b m1 s1 where t: "transition env ?m ?r None '''' s = ((b, m1), s1)" by (metis prod.exhaust)
    have "\<not> b" "quiet s s1"
      using t late transition_result[of env ?m ?r None "''''" s] transition_quiet[OF late, of s env None "''''"] by simp_all
    then show ?thesis
      using run m0 False t unfolding finalize_send_def by (auto simp: Let_def quiet_def)
  qed
qed

lemma finalize_closes:
  assumes run: "finalize_send env ctx0 ck claim reply s = Inr (True, s')" and ok: "outbox_ok s" and gw: "gateway_reply reply"
  shows "\<exists>m \<in> set (bx_messages s'). mg_id m = cl_message claim \<and> cl_fence claim = mg_fence m \<and> mg_state m \<noteq> SENDING"
proof -
  let ?ctx = "in_tenant ctx0 (cl_tenant claim)"
  obtain m0 where m0: "message_of ?ctx s (cl_message claim) = Some m0"
    using run by (auto simp: finalize_send_def Let_def res_iff)
  have same: "mg_fence m0 = cl_fence claim" "mg_owner m0 = Some (cl_owner claim)"
    using run m0 by (auto simp: finalize_send_def Let_def split: if_splits)
  let ?r = "settled_reply m0 reply"
  let ?m = "if rp_state ?r = TEMPORARY then m0\<lparr>mg_next_at := ck_now ck + 60 * retry_minutes (mg_attempts m0)\<rparr> else m0"
  obtain b m1 s1 where t: "transition env ?m ?r None '''' s = ((b, m1), s1)" by (metis prod.exhaust)
  have m1: "m1 = transitioned ?m ?r ''''" "b = (rp_state ?r \<in> set (DELIVERY_TRANSITIONS (mg_state ?m)))"
    using t transition_result[of env ?m ?r None "''''" s] by simp_all
  have b: "b" and q: "quiet s1 s'"
    using run m0 same t m1 unfolding finalize_send_def
    by (auto simp: Let_def res_iff transitioned_def split: if_splits
      intro: record_effect_quiet quiet_trans dest!: report_problem_quiet dest: record_effect_quiet)
  have "mg_state m1 \<noteq> SENDING" using b m1 gw by (auto simp: transitioned_def settled_reply_def gateway_reply_def)
  moreover have "bx_messages s1 = row_put mg_id m1 (bx_messages s)"
    using t b m1(2) by (auto simp: transition_def Let_def split: if_splits)
  then have "m1 \<in> set (bx_messages s1)"
    using message_of_Some[OF m0] m1(1) by (auto simp: row_put_def image_iff intro!: bexI[of _ m0])
  ultimately show ?thesis
    using q same(1) m1(1) message_of_Some[OF m0] by (intro bexI[of _ m1]) (auto simp: quiet_def)
qed

text \<open>The quota row is untouched until the batch writes it.\<close>

lemma transition_controls [simp]: "bx_controls (snd (transition env m reply actor remark s)) = bx_controls s"
  by (simp add: transition_def Let_def)

lemma record_effect_controls: "record_effect ctx m s = Inr s' \<Longrightarrow> bx_controls s' = bx_controls s"
  by (auto simp: record_effect_def split: option.splits if_splits)

lemma report_problem_controls: "report_problem env ctx ck m s = Inr s' \<Longrightarrow> bx_controls s' = bx_controls s"
  by (auto simp: report_problem_def res_bind_eq_Inr split: option.splits if_splits)

lemma expire_all_controls: "expire_all env ctx ck ms s = Inr s' \<Longrightarrow> bx_controls s' = bx_controls s"
proof (induction ms arbitrary: s)
  case (Cons m ms)
  let ?r = "\<lparr>rp_state = SEND_UNKNOWN, rp_code = ''lease_expired''\<rparr>"
  obtain b m1 s1 where t: "transition env m ?r None '''' s = ((b, m1), s1)" by (metis prod.exhaust)
  then obtain s2 s3 where "record_effect ctx m1 s1 = Inr s2" "report_problem env ctx ck m1 s2 = Inr s3"
      "expire_all env ctx ck ms s3 = Inr s'"
    using Cons.prems by (auto simp: res_iff)
  then show ?case
    using Cons.IH record_effect_controls report_problem_controls transition_controls[of env m ?r None "''''" s] t by fastforce
qed simp

lemma claim_all_controls: "claim_all env ctx ck tid ms s = Inr (claims, s') \<Longrightarrow> bx_controls s' = bx_controls s"
proof (induction ms arbitrary: s claims)
  case (Cons m ms)
  show ?case
  proof (cases "recorded_effect ctx s m")
    case (Some e)
    then show ?thesis using Cons by (fastforce simp: Let_def split: if_splits)
  next
    case None
    let ?r = "\<lparr>rp_state = SENDING, rp_code = ''''\<rparr>" let ?s = "s\<lparr>bx_next := bx_next s + 1\<rparr>"
    obtain b m1 s1 where t: "transition env (leased ck (bx_next s) m) ?r None '''' ?s = ((b, m1), s1)" by (metis prod.exhaust)
    then obtain more where "claim_all env ctx ck tid ms s1 = Inr (more, s')"
      using Cons.prems None by (auto simp: Let_def res_iff)
    then show ?thesis using Cons.IH transition_controls[of env "leased ck (bx_next s) m" ?r None "''''" ?s] t by simp
  qed
qed simp

lemma lock_control_row: "lock_control ctx ck s = Inr (c, s') \<Longrightarrow> c \<in> set (bx_controls s')"
  by (auto simp: lock_control_def res_bind_eq_Inr Let_def split: option.splits dest: scoped_find)

lemma spent_row: "c \<in> set cs \<Longrightarrow> spent (quota_row ck c) n \<in> set (row_put pz_id (spent (quota_row ck c) n) cs)"
  by (auto simp: row_put_def spent_def quota_row_def image_iff intro!: bexI[of _ c])

lemma claim_batch_quota:
  assumes "claim_batch env ctx0 ck skipped tid s = Inr (claims, s')" "claims \<noteq> []"
    and "lock_control (in_tenant ctx0 tid) ck s = Inr (c, s0)"
  shows "spent (quota_row ck c) (length claims) \<in> set (bx_controls s')"
  using assms(1)
proof (cases rule: claim_batch_cases)
  case (ran kinds c' s0' s1 s2)
  have "c' = c" "s0' = s0" using ran(2) assms(3) by simp_all
  then show ?thesis
    using ran(7) spent_row[OF lock_control_row[OF assms(3)]] claim_all_controls[OF ran(6)] expire_all_controls[OF ran(5)] by simp
qed (use assms(2) in auto)

section \<open>Retries\<close>

lemma content_digest_frame: "content_digest env (m\<lparr>mg_id := i, mg_next_at := t\<rparr>) = content_digest env m"
  by (simp add: content_digest_def render_body_def)

lemma new_message_retry:
  "new_message now' i tid actor contact cid cycle kind k intent caller url invite request =
     (new_message now j tid actor contact cid cycle kind k intent caller url invite request)\<lparr>mg_id := i, mg_next_at := now'\<rparr>"
  by (simp add: new_message_def)

lemma draft_message_retry:
  assumes draft: "draft_message env ctx now scope contact_id intent kind cycle_id idem invite request s = Inr m"
    and again: "check_intent env ctx now' scope intent cycle_id s' = Inr ()" and contacts: "bx_contacts s' = bx_contacts s"
    and bind: "\<And>m i t. sc_bind scope (m\<lparr>mg_id := i, mg_next_at := t\<rparr>) = sc_bind scope m"
  shows "draft_message env ctx now' scope contact_id intent kind cycle_id idem invite request s' =
    Inr (m\<lparr>mg_id := bx_next s', mg_next_at := now'\<rparr>)"
proof -
  obtain contact k tid where c: "resolve_recipient env ctx s (c_id (sc_client scope)) contact_id = Inr contact"
      "map_of (de_kinds env) kind = Some k" "current_tenant ctx = Inr tid"
    using draft by (auto simp: draft_message_def res_iff)
  let ?key = "de_intent_key env tid intent"
  let ?new = "\<lambda>now i. new_message now i tid (sc_actor scope) contact (c_id (sc_client scope)) cycle_id kind k ?key
      (if idem = [] then ?key else idempotency_digest env idem) (de_portal_url env (c_tenant (sc_client scope)))
      (map_option iv_id invite) (map_option fst request)"
  let ?m0 = "?new now (bx_next s)"
  have m: "require_same_client (c_id (sc_client scope)) invite request = Inr ()"
    using draft c by (auto simp: draft_message_def res_iff Let_def)
  obtain d auth where d: "content_digest env ?m0 = Inr d" "sc_bind scope (?m0\<lparr>mg_digest := d\<rparr>) = Inr auth"
      "m = ?m0\<lparr>mg_digest := d, mg_authorization := auth\<rparr>"
    using draft c m by (auto simp: draft_message_def res_iff Let_def)
  have commute: "r\<lparr>mg_id := i, mg_next_at := t, mg_digest := d\<rparr> = r\<lparr>mg_digest := d, mg_id := i, mg_next_at := t\<rparr>"
    for r :: message and i t by simp
  have new: "?new now' (bx_next s') = ?m0\<lparr>mg_id := bx_next s', mg_next_at := now'\<rparr>" by (rule new_message_retry)
  have "content_digest env (?new now' (bx_next s')) = Inr d" unfolding new content_digest_frame by (rule d(1))
  moreover have "sc_bind scope (?new now' (bx_next s')\<lparr>mg_digest := d\<rparr>) = Inr auth"
    unfolding new commute by (rule trans[OF bind d(2)])
  moreover have "resolve_recipient env ctx s' (c_id (sc_client scope)) contact_id = Inr contact"
    using c(1) contacts by (simp add: resolve_recipient_def)
  ultimately show ?thesis
    using c(2,3) again m d(3) new by (simp add: draft_message_def Let_def)
qed

lemma office_enqueued [simp]:
  "pr_flags (office (record_attempt env m st code actor remark s)) = pr_flags (office s)"
  "bx_contacts (record_attempt env m st code actor remark s) = bx_contacts s"
  by (auto simp: record_attempt_def office_def Let_def split: option.splits)

lemma insert_message_frame:
  assumes "insert_message m s = Inr s1"
  shows "bx_contacts s1 = bx_contacts s" "bx_desk s1 = bx_desk s" "bx_messages s1 = bx_messages s @ [m]"
  using assms by (auto simp: insert_message_def split: if_splits)

lemma require_enabled_flags: "pr_flags p' = pr_flags p \<Longrightarrow> require_enabled ctx p' = require_enabled ctx p"
  by (simp add: require_enabled_def feature_on_def)

lemma draft_message_tenant:
  "draft_message env ctx now scope contact_id intent kind cycle_id idem invite request s = Inr m \<Longrightarrow>
    current_tenant ctx = Inr (mg_tenant m)"
  by (auto simp: draft_message_def Let_def res_iff)

lemma scoped_own: "current_tenant ctx = Inr (f x) \<Longrightarrow> scoped ctx f (xs @ [x]) = scoped ctx f xs @ [x]"
  by (auto simp: scoped_def current_tenant_def split: option.splits)

section \<open>Promises of the outbox\<close>

text \<open>C2: One send under one claim. Over every interleaving of claims, authorizations, replies, decisions, pauses, entries
  and reminder sweeps, by any workers, with any settings and clocks: no two sends carry the same message and fence, and a
  message sent under a fence is sent under a later one only after a receipt that the earlier attempt was refused for now.\<close>
theorem one_send_per_fence:
  assumes "outbox_run digest s0 sends s" "outbox_ok s0"
  shows "distinct sends \<and> (\<forall>p \<in> set sends. \<exists>m \<in> set (bx_messages s). mg_id m = fst p \<and> snd p \<le> mg_fence m \<and>
    (snd p < mg_fence m \<longrightarrow> refused_for_now s (fst p) (snd p)))"
proof -
  have ok: "sends_ok s sends" by (rule path_sends_ok[OF run_path[OF assms] assms(2)])
  have "\<exists>m \<in> set (bx_messages s). mg_id m = fst p \<and> snd p \<le> mg_fence m \<and>
      (snd p < mg_fence m \<longrightarrow> refused_for_now s (fst p) (snd p))" if p: "p \<in> set sends" for p
    using sends_okD[OF ok p] by (auto simp: sent_under_def)
  then show ?thesis using ok by (simp add: sends_ok_def)
qed

text \<open>C6: The phases refine the abstract life of messages: every interleaving of them, each with all its guards and failure
  branches, is a path on which rows only enter, are claimed, authorized, moved, replayed or closed, one write at a time, receipts
  and effects are only added, and the log grows by exactly the authorized sends.\<close>
theorem outbox_refines_message_life:
  assumes "outbox_run digest s0 sends s" "outbox_ok s0"
  shows "outbox_path s0 sends s"
  by (rule run_path[OF assms])

text \<open>C11: Sends are bounded: over every interleaving one message is sent at most six times.\<close>
theorem sends_are_bounded:
  assumes "outbox_run digest s0 sends s" "outbox_ok s0"
  shows "mail_sends i sends \<le> 6"
proof (cases "i \<in> mg_id ` set (bx_messages s)")
  case True
  then obtain m where m: "m \<in> set (bx_messages s)" "i = mg_id m" by blast
  have "sends_paid s sends" "outbox_ok s"
    using path_sends_paid path_ok run_path[OF assms] assms(2) by blast+
  then show ?thesis using m by (auto simp: sends_paid_def outbox_ok_def SEND_ATTEMPTS_def dest!: bspec)
next
  case False
  then show ?thesis using unsent_fresh[OF path_sends_ok[OF run_path[OF assms] assms(2)]] by simp
qed



text \<open>C26: A pause stops the mail: while the installation or the firm is paused no batch hands out a claim, and a claim handed out
  before the pause is cancelled when it comes to be prepared, so its worker hands nothing to the mail library.\<close>
theorem paused_firm_sends_nothing:
  assumes "lock_control (in_tenant ctx tid) ck s = Inr (c, s0)" "de_paused env \<or> pz_paused c"
  shows "(\<forall>claims s'. claim_batch env ctx ck skipped tid s = Inr (claims, s') \<longrightarrow> claims = []) \<and>
    (\<forall>m secrets s'. prepare_claim env (in_tenant ctx tid) ck later claim s = Inr ((m, secrets), s') \<longrightarrow>
       mg_state m = MSG_CANCELLED \<and> \<not> fst (egress env m journal1 journal2 smtp))"
proof (intro conjI allI impI)
  fix claims s' assume "claim_batch env ctx ck skipped tid s = Inr (claims, s')"
  then show "claims = []" by (cases rule: claim_batch_cases) (use assms in auto)
next
  fix m secrets s' assume p: "prepare_claim env (in_tenant ctx tid) ck later claim s = Inr ((m, secrets), s')"
  show "mg_state m = MSG_CANCELLED"
    using p by (cases rule: prepare_claim_cases) (use assms in \<open>auto simp: transitioned_def dest: locked_claim_row\<close>)
  then show "\<not> fst (egress env m journal1 journal2 smtp)" by (simp add: egress_def)
qed



section \<open>A concrete outbox\<close>

definition demo_kind :: message_kind where
  "demo_kind = \<lparr>mk_subject = ''Aviso'', mk_template = ''notice.txt'', mk_still_valid = (\<lambda>_ _. (True, '''')),
     mk_prepare = None, mk_on_rejected = None\<rparr>"

definition demo_mail :: delivery_env where
  "demo_mail = \<lparr>de_paused = False, de_daily_cap = 10, de_kinds = [(''notice'', demo_kind)],
     de_validate_notice = (\<lambda>_ _. (True, '''')), de_render = (\<lambda>t url _. t @ url),
     de_content_digest = (\<lambda>_ to subject ref body. concat to @ subject @ ref @ body), de_note_digest = id,
     de_valid_email = (\<lambda>_. True), de_idna = id, de_notice_mode = (\<lambda>_. ''manual''), de_portal_url = (\<lambda>_. ''https://firma-portal/''),
     de_intent_key = (\<lambda>_ i. bi_step_key i @ str_int (bi_occurrence i)), de_key_digest = id, de_amendment = (\<lambda>_. 0)\<rparr>"

definition demo_outbox :: outbox where
  "demo_outbox = \<lparr>bx_desk = demo_desk,
     bx_contacts = [\<lparr>cc_id = 7, cc_tenant = 1, cc_client = 11, cc_active = True, cc_email_allowed = True, cc_email = ''ana@mei''\<rparr>],
     bx_messages = [], bx_attempts = [], bx_effects = [], bx_controls = [], bx_audit = [], bx_versions = [(11, 1)], bx_next = 500\<rparr>"

definition demo_notice :: notice_scope where
  "demo_notice = \<lparr>sc_actor = demo_account 1,
     sc_client = \<lparr>c_id = 11, c_tenant = 1, c_status = CL_ACTIVE, c_is_mei = True, c_mei_category = COMMON, c_opened_on = None,
       c_tax_profile_revision = 0\<rparr>,
     sc_cycle = None, sc_reminder = False, sc_bind = (\<lambda>m. Inr (mg_kind m @ mg_digest m))\<rparr>"

definition demo_intent :: business_intent where
  "demo_intent = \<lparr>bi_engagement = 51, bi_playbook = 60, bi_period_start = Date 2026 5 1, bi_period_end = Date 2026 5 31,
     bi_amendment = 0, bi_step_key = ''aviso'', bi_action_kind = ''email'', bi_occurrence = 0\<rparr>"

definition demo_clock :: "int \<Rightarrow> clock" where
  "demo_clock now = \<lparr>ck_now = now, ck_today = Date 2026 5 9\<rparr>"

definition demo_queued :: "message \<times> outbox" where
  "demo_queued = projr (enqueue demo_mail demo_ctx 0 (Inr demo_notice) 7 demo_intent 1 ''notice'' (Some 100) '''' None None demo_outbox)"

definition demo_batch :: "delivery_claim list \<times> outbox" where
  "demo_batch = projr (claim_batch demo_mail demo_ctx (demo_clock 10) [] 1 (snd demo_queued))"

definition demo_prepared :: "(message \<times> (string \<times> string) list) \<times> outbox" where
  "demo_prepared = projr (prepare_claim demo_mail demo_ctx (demo_clock 11) 12 (hd (fst demo_batch)) (snd demo_batch))"

definition demo_busy :: reply where
  "demo_busy = smtp_reply (Smtp_Response 421)"

definition demo_settled :: "bool \<times> outbox" where
  "demo_settled = projr (finalize_send demo_mail demo_ctx (demo_clock 13) (hd (fst demo_batch)) demo_busy (snd demo_prepared))"

definition demo_cancelled_mail :: "message \<times> outbox" where
  "demo_cancelled_mail = projr (decide demo_mail demo_ctx 14 (demo_account 1) 500 3 ''cancel'' '''' (snd demo_settled))"

lemma demo_mail_ran:
  "ran (enqueue demo_mail demo_ctx 0 (Inr demo_notice) 7 demo_intent 1 ''notice'' (Some 100) '''' None None demo_outbox)"
  "ran (claim_batch demo_mail demo_ctx (demo_clock 10) [] 1 (snd demo_queued))"
  "ran (prepare_claim demo_mail demo_ctx (demo_clock 11) 12 (hd (fst demo_batch)) (snd demo_batch))"
  "ran (finalize_send demo_mail demo_ctx (demo_clock 13) (hd (fst demo_batch)) demo_busy (snd demo_prepared))"
  by code_simp+

lemma demo_outbox_ok: "outbox_ok demo_outbox"
  by (simp add: outbox_ok_def demo_outbox_def)

definition demo_cancelled_facts :: bool where
  "demo_cancelled_facts =
     (let m = fst demo_cancelled_mail in
      mg_state m = MSG_CANCELLED \<and> list_ex (\<lambda>x. mg_id x = mg_id m \<and> mg_state x = MSG_CANCELLED) (bx_messages (snd demo_cancelled_mail)) \<and>
      send_log (fst (fst demo_prepared)) = [(500, 1)] \<and> fst demo_settled \<and>
      list_all (\<lambda>x. mg_state x = TEMPORARY \<and> mg_fence x = 1) (bx_messages (snd demo_settled)))"

lemma demo_mail_later:
  "ran (decide demo_mail demo_ctx 14 (demo_account 1) 500 3 ''cancel'' '''' (snd demo_settled))"
  "ran (claim_batch demo_mail demo_ctx (demo_clock 90) [] 1 (snd demo_settled))"
  by code_simp+

lemma demo_cancelled_facts: demo_cancelled_facts
  by code_simp

lemma ran_projr: "ran x \<Longrightarrow> p = projr x \<Longrightarrow> x = Inr p"
  by (simp add: ran_def split: sum.splits)

lemma demo_mail_steps:
  "enqueue demo_mail demo_ctx 0 (Inr demo_notice) 7 demo_intent 1 ''notice'' (Some 100) '''' None None demo_outbox =
     Inr (fst demo_queued, snd demo_queued)"
  "claim_batch demo_mail demo_ctx (demo_clock 10) [] 1 (snd demo_queued) = Inr (fst demo_batch, snd demo_batch)"
  "prepare_claim demo_mail demo_ctx (demo_clock 11) 12 (hd (fst demo_batch)) (snd demo_batch) =
     Inr ((fst (fst demo_prepared), snd (fst demo_prepared)), snd demo_prepared)"
  "finalize_send demo_mail demo_ctx (demo_clock 13) (hd (fst demo_batch)) demo_busy (snd demo_prepared) = Inr (True, snd demo_settled)"
  "decide demo_mail demo_ctx 14 (demo_account 1) 500 3 ''cancel'' '''' (snd demo_settled) =
     Inr (fst demo_cancelled_mail, snd demo_cancelled_mail)"
proof -
  have "fst demo_settled" using demo_cancelled_facts unfolding demo_cancelled_facts_def Let_def by blast
  then show "finalize_send demo_mail demo_ctx (demo_clock 13) (hd (fst demo_batch)) demo_busy (snd demo_prepared) = Inr (True, snd demo_settled)"
    using ran_Inr[OF demo_mail_ran(4)] by (simp add: demo_settled_def)
qed (simp_all only: prod.collapse ran_projr[OF demo_mail_ran(1) demo_queued_def] ran_projr[OF demo_mail_ran(2) demo_batch_def]
  ran_projr[OF demo_mail_ran(3) demo_prepared_def] ran_projr[OF demo_mail_later(1) demo_cancelled_mail_def])

lemma demo_gateway: "gateway_reply demo_busy"
  unfolding demo_busy_def by (rule smtp_gateway_reply)

lemma demo_mail_runs:
  "outbox_run id demo_outbox [] (snd demo_batch)"
  "outbox_run id demo_outbox [(500, 1)] (snd demo_prepared)"
  "outbox_run id demo_outbox [(500, 1)] (snd demo_settled)"
  "outbox_run id demo_outbox [(500, 1)] (snd demo_cancelled_mail)"
proof -
  have log: "send_log (fst (fst demo_prepared)) = [(500, 1)]"
    using demo_cancelled_facts unfolding demo_cancelled_facts_def Let_def by blast
  have q: "outbox_run id demo_outbox [] (snd demo_queued)" by (rule run_enqueue[OF run_start demo_mail_steps(1)])
  show b: "outbox_run id demo_outbox [] (snd demo_batch)" by (rule run_claim[OF q demo_mail_steps(2)])
  show p: "outbox_run id demo_outbox [(500, 1)] (snd demo_prepared)" using run_prepared[OF b demo_mail_steps(3)] log by simp
  show f: "outbox_run id demo_outbox [(500, 1)] (snd demo_settled)" by (rule run_finalize[OF p demo_gateway demo_mail_steps(4)])
  show "outbox_run id demo_outbox [(500, 1)] (snd demo_cancelled_mail)" by (rule run_decide[OF f demo_mail_steps(5)])
qed

lemma demo_mail_ok: "outbox_run id demo_outbox sends s \<Longrightarrow> outbox_ok s"
  using path_ok run_path demo_outbox_ok by blast

theorem one_send_per_fence_witness:
  "\<exists>m \<in> set (bx_messages (snd demo_settled)). mg_id m = 500 \<and> 1 \<le> mg_fence m"
  using one_send_per_fence[OF demo_mail_runs(3) demo_outbox_ok] by auto

theorem outbox_refines_message_life_witness:
  "outbox_path demo_outbox [(500, 1)] (snd demo_cancelled_mail)"
  by (rule outbox_refines_message_life[OF demo_mail_runs(4) demo_outbox_ok])

theorem sends_are_bounded_witness:
  "1 \<le> mail_sends 500 [(500, 1)] \<and> mail_sends 500 [(500, 1)] \<le> 6"
  using sends_are_bounded[OF demo_mail_runs(3) demo_outbox_ok, of 500] by simp





definition demo_frozen :: outbox where
  "demo_frozen = (snd demo_batch)\<lparr>bx_controls := map (\<lambda>c. c\<lparr>pz_paused := True\<rparr>) (bx_controls (snd demo_batch))\<rparr>"

definition demo_lock :: "automation_pause \<times> outbox" where
  "demo_lock = projr (lock_control demo_ctx (demo_clock 11) demo_frozen)"

definition demo_refused :: "(message \<times> (string \<times> string) list) \<times> outbox" where
  "demo_refused = projr (prepare_claim demo_mail demo_ctx (demo_clock 11) 12 (hd (fst demo_batch)) demo_frozen)"

theorem paused_firm_sends_nothing_witness:
  "mg_state (fst (fst demo_refused)) = MSG_CANCELLED"
proof -
  have ctx: "in_tenant demo_ctx 1 = demo_ctx" by (simp add: in_tenant_def demo_ctx_def)
  have ran: "ran (lock_control demo_ctx (demo_clock 11) demo_frozen)"
    "ran (prepare_claim demo_mail demo_ctx (demo_clock 11) 12 (hd (fst demo_batch)) demo_frozen)" by code_simp+
  have paused: "de_paused demo_mail \<or> pz_paused (fst demo_lock)" by code_simp
  have lock: "lock_control (in_tenant demo_ctx 1) (demo_clock 11) demo_frozen = Inr (fst demo_lock, snd demo_lock)"
    unfolding ctx prod.collapse by (rule ran_projr[OF ran(1) demo_lock_def])
  have "prepare_claim demo_mail (in_tenant demo_ctx 1) (demo_clock 11) 12 (hd (fst demo_batch)) demo_frozen =
      Inr ((fst (fst demo_refused), snd (fst demo_refused)), snd demo_refused)"
    unfolding ctx prod.collapse by (rule ran_projr[OF ran(2) demo_refused_def])
  then show ?thesis using conjunct2[OF paused_firm_sends_nothing[OF lock paused]] by blast
qed

end
