(* ===== verification/Recovery_Properties.thy ===== *)
theory Recovery_Properties
  imports Delivery_Properties
begin

text \<open>
  Dead letters and the replay of the journal: a refusal is closed once, replaying a journal twice
  changes nothing more, and what the journal shows as begun, refused or accepted is not sent again.
\<close>

section \<open>A closed refusal\<close>

lemma close_rejection_row:
  assumes "m \<in> set (bx_messages s)"
  shows "closed_message code m \<in> set (bx_messages (close_rejection env m actor code s))"
  using assms by (auto simp: close_rejection_def row_put_def closed_message_def image_iff intro!: bexI[of _ m])

lemma retry_closes:
  assumes "retry_dead_letter env ctx ck actor mid expected s = Inr (x, s')"
  shows "\<exists>m \<in> set (bx_messages s'). mg_id m = mid \<and> mg_state m = MSG_CANCELLED"
  using assms
proof (rule retry_dead_letter_parts)
  fix fresh m s0 s1 st
  assume l: "locked_dead_letter env ctx ck actor mid expected True s = Inr ((fresh, m), s0)"
    and i: "insert_message x s0 = Inr s1" and q: "quiet (close_rejection env m fresh ''staff_retry'' s1) s'"
  have "m \<in> set (bx_messages s1)" "mg_id m = mid"
    using locked_dead_letter_row[OF l] i by (auto simp: insert_message_def split: if_splits)
  then show ?thesis
    using close_rejection_row[of m s1 "''staff_retry''" env fresh] q
    by (intro bexI[of _ "closed_message ''staff_retry'' m"]) (simp_all add: quiet_def closed_message_def)
qed

lemma dead_letter_needs_refusal:
  assumes "outbox_ok s" "m \<in> set (bx_messages s)" "mg_id m = mid" "mg_state m \<noteq> REJECTED"
  shows "locked_dead_letter env ctx ck actor mid expected for_retry s \<noteq> Inr r"
proof
  assume "locked_dead_letter env ctx ck actor mid expected for_retry s = Inr r"
  then have "locked_dead_letter env ctx ck actor mid expected for_retry s = Inr ((fst (fst r), snd (fst r)), snd r)" by simp
  note row = locked_dead_letter_row[OF this]
  have m: "snd (fst r) \<in> set (bx_messages s)" using row by (auto simp: quiet_def)
  show False using same_row[OF assms(1,2) m] row assms(3,4) by simp
qed

text \<open>C31: A refusal is closed once: after a manager had a refused message sent again, whatever happens in between, nobody can have
  that same message sent a second time or close it, whatever revision the request carries.\<close>
theorem refusal_closed_once:
  assumes "retry_dead_letter env ctx ck actor mid expected s = Inr (x, s1)" "outbox_ok s" "outbox_run digest s1 sends s2"
  shows "retry_dead_letter env' ctx' ck' actor' mid expected' s2 \<noteq> Inr r \<and>
    cancel_dead_letter env' ctx' ck' actor' mid expected' s2 \<noteq> Inr r"
proof -
  have ok: "outbox_ok s1" by (rule path_ok[OF retry_dead_letter_path[OF assms(1,2)] assms(2)])
  have p: "outbox_path s1 sends s2" by (rule run_path[OF assms(3) ok])
  obtain m where "m \<in> set (bx_messages s2)" "mg_id m = mid" "mg_state m = MSG_CANCELLED"
    using path_row_invariant[OF p ok retry_closes[OF assms(1)]] life_final by blast
  then have "locked_dead_letter env' ctx' ck' actor' mid expected' b s2 \<noteq> Inr q" for b q
    using dead_letter_needs_refusal[OF path_ok[OF p ok]] by simp
  then show ?thesis by (auto simp: retry_dead_letter_def cancel_dead_letter_def res_bind_eq_Inr)
qed

section \<open>Replay\<close>

lemma find_map: "find P (map f xs) = map_option f (find (P \<circ> f) xs)"
  by (induction xs) simp_all

lemma scoped_put:
  assumes "outbox_ok s" "m \<in> set (bx_messages s)" "mg_id m' = mg_id m" "mg_tenant m' = mg_tenant m" "P m' = P m"
  shows "find P (scoped ctx mg_tenant (row_put mg_id m' (bx_messages s))) =
    map_option (\<lambda>r. if r = m then m' else r) (find P (scoped ctx mg_tenant (bx_messages s)))"
proof -
  let ?f = "\<lambda>r. if r = m then m' else r"
  have rows: "row_put mg_id m' (bx_messages s) = map ?f (bx_messages s)"
    using assms(1-3) row_put_map[of mg_id "bx_messages s" m m'] by (simp add: outbox_ok_def)
  have "scoped ctx mg_tenant (map ?f (bx_messages s)) = map ?f (scoped ctx mg_tenant (bx_messages s))"
    using assms(4) by (auto simp: scoped_def filter_map comp_def intro!: arg_cong[of _ _ "map ?f"] filter_cong split: option.splits)
  moreover have "P \<circ> ?f = P" using assms(5) by (intro ext) simp
  ultimately show ?thesis by (simp add: rows find_map)
qed

definition journaled_row :: "authz_ctx \<Rightarrow> effect_record \<Rightarrow> outbox \<Rightarrow> message option" where
  "journaled_row ctx r s =
     find (\<lambda>m. mg_client m = jr_client r \<and> mg_intent m = jr_intent r) (scoped ctx mg_tenant (bx_messages s))"

definition journaled_effect :: "authz_ctx \<Rightarrow> int \<Rightarrow> effect_record \<Rightarrow> outbox \<Rightarrow> delivery_effect option" where
  "journaled_effect ctx tid r s =
     find (\<lambda>e. ef_tenant e = tid \<and> ef_client e = jr_client r \<and> ef_intent e = jr_intent r) (scoped ctx ef_tenant (bx_effects s))"

lemma restore_intent_cases:
  assumes "restore_intent env ctx ck tid rows s = Inr (n, s')"
  obtains (same) "n = 0" "s' = s" "\<And>env' ck'. restore_intent env' ctx ck' tid rows s = Inr (0, s)"
  | (receipt) r rs outcome where "rows = r # rs" "\<not> list_ex (\<lambda>x. jr_digest x \<noteq> jr_digest r) rows" "journal_outcome rows = Inr outcome"
      "journaled_row ctx r s = None" "outcome \<in> set BARRIERS" "journaled_effect ctx tid r s = None"
      "s' = s\<lparr>bx_effects := bx_effects s @ [\<lparr>ef_tenant = tid, ef_client = jr_client r, ef_message = None,
         ef_intent = jr_intent r, ef_digest = jr_digest r, ef_outcome = outcome\<rparr>]\<rparr>"
  | (moved) r rs outcome m where "rows = r # rs" "\<not> list_ex (\<lambda>x. jr_digest x \<noteq> jr_digest r) rows" "journal_outcome rows = Inr outcome"
      "journaled_row ctx r s = Some m" "mg_digest m = jr_digest r" "\<not> keeps_state m (capped_outcome m outcome)"
      "bx_messages s' = row_put mg_id (m\<lparr>mg_state := capped_outcome m outcome, mg_version := mg_version m + 1,
         mg_error := ''journal_replayed''\<rparr>) (bx_messages s)"
proof -
  obtain r rs where r: "rows = r # rs" using assms by (cases rows) (simp_all add: restore_intent_def)
  have d: "\<not> list_ex (\<lambda>x. jr_digest x \<noteq> jr_digest r) rows" using assms r by (auto simp: restore_intent_def split: if_splits)
  obtain outcome where o: "journal_outcome rows = Inr outcome"
    using assms r d by (cases "journal_outcome rows") (simp_all add: restore_intent_def)
  show thesis
  proof (cases "journaled_row ctx r s")
    case None
    then show thesis
      using assms r d o same receipt[OF r d o None]
      by (auto simp: restore_intent_def journaled_row_def journaled_effect_def split: if_splits option.splits)
  next
    case (Some m)
    have dg: "mg_digest m = jr_digest r"
      using assms r d o Some by (auto simp: restore_intent_def journaled_row_def split: if_splits)
    show thesis
    proof (cases "keeps_state m (capped_outcome m outcome)")
      case True
      then show thesis
        using assms r d o Some dg same by (simp add: restore_intent_def journaled_row_def)
    next
      case False
      let ?m = "m\<lparr>mg_state := capped_outcome m outcome, mg_version := mg_version m + 1, mg_error := ''journal_replayed''\<rparr>"
      let ?s = "record_attempt env ?m (capped_outcome m outcome) ''journal_replayed'' None '''' (save_message ?m s)"
      obtain s2 s3 where s: "(if capped_outcome m outcome \<in> set BARRIERS then record_effect ctx ?m ?s else Inr ?s) = Inr s2"
          "(if capped_outcome m outcome = SEND_UNKNOWN \<or> capped_outcome m outcome = REJECTED
            then report_problem env ctx ck ?m s2 else Inr s2) = Inr s3" "s' = s3"
        using assms r d o Some dg False by (auto simp: restore_intent_def journaled_row_def Let_def res_bind_eq_Inr)
      have "quiet ?s s2" using s(1) record_effect_quiet[of ctx ?m ?s s2] by (auto simp: BARRIERS_def split: if_splits)
      moreover have "quiet s2 s'" using s(2,3) report_problem_quiet by (auto split: if_splits)
      ultimately have "bx_messages s' = row_put mg_id ?m (bx_messages s)" by (simp add: quiet_def)
      then show thesis by (rule moved[OF r d o Some dg False])
    qed
  qed
qed

lemma restored_row:
  assumes "outbox_ok s" "journaled_row ctx r s = Some m" "bx_messages s' = row_put mg_id (m\<lparr>mg_state := st, mg_version := v, mg_error := e\<rparr>) (bx_messages s)"
  shows "journaled_row ctx r s' = Some (m\<lparr>mg_state := st, mg_version := v, mg_error := e\<rparr>)"
proof -
  have "m \<in> set (bx_messages s)" using scoped_find[OF assms(2)[unfolded journaled_row_def]] .
  then show ?thesis
    using assms(2) scoped_put[OF assms(1), of m "m\<lparr>mg_state := st, mg_version := v, mg_error := e\<rparr>"
        "\<lambda>m. mg_client m = jr_client r \<and> mg_intent m = jr_intent r" ctx]
    by (simp add: journaled_row_def assms(3))
qed

text \<open>C30: Replay converges: replaying the journal of an effect over restored tables and then replaying it again finds nothing left
  to do and leaves every table as the first replay left it.\<close>
theorem replay_converges:
  assumes "restore_intent env (in_tenant ctx tid) ck tid rows s = Inr (n, s')" "outbox_ok s"
  shows "restore_intent env' (in_tenant ctx tid) ck' tid rows s' = Inr (0, s')"
  using assms(1)
proof (cases rule: restore_intent_cases)
  case same
  show ?thesis using same(3) by (simp add: same(2))
next
  case (receipt r rs outcome)
  let ?e = "\<lparr>ef_tenant = tid, ef_client = jr_client r, ef_message = None, ef_intent = jr_intent r, ef_digest = jr_digest r,
      ef_outcome = outcome\<rparr>"
  have "scoped (in_tenant ctx tid) ef_tenant (bx_effects s @ [?e]) = scoped (in_tenant ctx tid) ef_tenant (bx_effects s) @ [?e]"
    by (simp add: scoped_def in_tenant_def)
  then have "journaled_effect (in_tenant ctx tid) tid r s' = Some ?e"
    unfolding journaled_effect_def receipt(7)
    by (simp add: find_append_None[OF receipt(6)[unfolded journaled_effect_def]])
  moreover have "journaled_row (in_tenant ctx tid) r s' = None" using receipt(4) by (simp add: journaled_row_def receipt(7))
  ultimately show ?thesis
    using receipt(1-3,5) by (simp add: restore_intent_def journaled_row_def journaled_effect_def)
next
  case (moved r rs outcome m)
  let ?m = "m\<lparr>mg_state := capped_outcome m outcome, mg_version := mg_version m + 1, mg_error := ''journal_replayed''\<rparr>"
  have "journaled_row (in_tenant ctx tid) r s' = Some ?m" by (rule restored_row[OF assms(2) moved(4,7)])
  moreover have "capped_outcome ?m outcome = capped_outcome m outcome" by (simp add: capped_outcome_def)
  then have "keeps_state ?m (capped_outcome ?m outcome)" by (simp add: keeps_state_def)
  ultimately show ?thesis
    using moved(1-3,5) by (simp add: restore_intent_def journaled_row_def)
qed

lemma restored_row_final:
  assumes "keeps_state m outcome" "outcome \<in> {ACCEPTED, REJECTED, SEND_UNKNOWN}"
  shows "mg_state m \<notin> {QUEUED, TEMPORARY, SENDING}"
  using assms by (auto simp: keeps_state_def)


section \<open>A concrete restore\<close>

definition demo_journal :: "message_state \<Rightarrow> effect_record list" where
  "demo_journal outcome =
     (let m = fst (fst demo_prepared);
          row = (\<lambda>st t. \<lparr>jr_client = mg_client m, jr_intent = mg_intent m, jr_digest = mg_digest m, jr_attempt = the (mg_owner m),
                   jr_outcome = st, jr_at = t\<rparr>)
      in [row INTENT_STARTED 12, row outcome 13])"

definition demo_restored :: "nat \<times> outbox" where
  "demo_restored = projr (restore_intent demo_mail demo_ctx (demo_clock 200) 1 (demo_journal ACCEPTED) (snd demo_queued))"

lemma demo_restored_ran:
  "restore_intent demo_mail demo_ctx (demo_clock 200) 1 (demo_journal ACCEPTED) (snd demo_queued) = Inr (fst demo_restored, snd demo_restored)"
proof -
  have "ran (restore_intent demo_mail demo_ctx (demo_clock 200) 1 (demo_journal ACCEPTED) (snd demo_queued))" by code_simp
  then show ?thesis unfolding prod.collapse by (rule ran_projr[OF _ demo_restored_def])
qed

lemma demo_in_tenant: "in_tenant demo_ctx 1 = demo_ctx"
  by (simp add: in_tenant_def demo_ctx_def)

lemma demo_queued_ok: "outbox_ok (snd demo_queued)"
  by (rule demo_mail_ok[OF run_enqueue[OF run_start demo_mail_steps(1)]])

theorem replay_converges_witness:
  "restore_intent demo_mail demo_ctx (demo_clock 900) 1 (demo_journal ACCEPTED) (snd demo_restored) = Inr (0, snd demo_restored)"
  using replay_converges[of demo_mail demo_ctx 1 "demo_clock 200" "demo_journal ACCEPTED" "snd demo_queued" "fst demo_restored" "snd demo_restored"]
    demo_restored_ran demo_queued_ok demo_in_tenant by simp

definition demo_record :: effect_record where
  "demo_record = hd (demo_journal ACCEPTED)"

lemma demo_journal_split: "demo_journal ACCEPTED = demo_record # tl (demo_journal ACCEPTED)"
  by (simp add: demo_record_def demo_journal_def Let_def)


text \<open>
  A message refused for now and then cancelled by the team comes back to life in a replay: the guard
  knows the codes of closed refusals, the firm's own decision carries another.
\<close>

lemma cancelled_mail_comes_back:
  "list_ex (\<lambda>m. mg_id m = 500 \<and> mg_state m = MSG_CANCELLED) (bx_messages (snd demo_cancelled_mail)) \<and>
   list_ex (\<lambda>m. mg_id m = 500 \<and> due 300 m) (bx_messages (snd (projr (restore_intent demo_mail demo_ctx (demo_clock 200) 1
     (demo_journal TEMPORARY) (snd demo_cancelled_mail)))))"
  by code_simp

section \<open>A concrete refusal\<close>

definition demo_manned :: outbox where
  "demo_manned =
     (let s = snd demo_prepared; d = bx_desk s; p = dk_practice d; a = pr_authz p in
      s\<lparr>bx_desk := d\<lparr>dk_practice := p\<lparr>pr_authz := a\<lparr>ad_capabilities := AUTOMATIONS_MANAGE # ad_capabilities a,
            ad_role_grants := demo_grant OWNER AUTOMATIONS_MANAGE FULL # ad_role_grants a\<rparr>\<rparr>,
          dk_reasons := (''delivery_rejected'', \<lparr>rs_next_action = ''Revise o contato'', rs_blocks_completion = True,
            rs_client_visible = False, rs_label = '''', rs_client_message = ''''\<rparr>) # dk_reasons d\<rparr>\<rparr>)"

definition demo_rejected :: "bool \<times> outbox" where
  "demo_rejected = projr (finalize_send demo_mail demo_ctx (demo_clock 13) (hd (fst demo_batch)) (smtp_reply (Smtp_Response 550)) demo_manned)"

definition demo_retried :: "message \<times> outbox" where
  "demo_retried = projr (retry_dead_letter demo_mail demo_ctx (demo_clock 20) (demo_account 1) 500 3 (snd demo_rejected))"

lemma demo_refusal_ran:
  "ran (finalize_send demo_mail demo_ctx (demo_clock 13) (hd (fst demo_batch)) (smtp_reply (Smtp_Response 550)) demo_manned)"
  "ran (retry_dead_letter demo_mail demo_ctx (demo_clock 20) (demo_account 1) 500 3 (snd demo_rejected))"
  by code_simp+

theorem refusal_closed_once_witness:
  "\<forall>r. retry_dead_letter demo_mail demo_ctx (demo_clock 30) (demo_account 1) 500 4 (snd demo_retried) \<noteq> Inr r \<and>
   cancel_dead_letter demo_mail demo_ctx (demo_clock 30) (demo_account 1) 500 4 (snd demo_retried) \<noteq> Inr r"
proof (rule allI, rule refusal_closed_once)
  show "retry_dead_letter demo_mail demo_ctx (demo_clock 20) (demo_account 1) 500 3 (snd demo_rejected) =
      Inr (fst demo_retried, snd demo_retried)"
    unfolding prod.collapse by (rule ran_projr[OF demo_refusal_ran(2) demo_retried_def])
  have manned: "outbox_ok demo_manned"
    using demo_mail_ok[OF demo_mail_runs(2)] by (simp add: demo_manned_def Let_def outbox_ok_def)
  have "finalize_send demo_mail demo_ctx (demo_clock 13) (hd (fst demo_batch)) (smtp_reply (Smtp_Response 550)) demo_manned =
      Inr (fst demo_rejected, snd demo_rejected)"
    unfolding prod.collapse by (rule ran_projr[OF demo_refusal_ran(1) demo_rejected_def])
  then show "outbox_ok (snd demo_rejected)" by (rule path_ok[OF finalize_send_path[OF _ smtp_gateway_reply manned] manned])
  show "outbox_run id (snd demo_retried) [] (snd demo_retried)" by (rule run_start)
qed

end
