(* ===== verification/Spec2Isabelle.thy ===== *)
theory Spec2Isabelle
  imports Fiscal_Documents Due_Dates Tax_Timeline Provider_Replies Revenue_Threshold
    Reviewer_Grants Exception_Properties Recovery_Properties
begin

text \<open>
  Verification library for the core of app-mei, a multi-tenant Django product for accounting firms
  that serve Brazilian microentrepreneurs (MEI).  The library models the decisions and the state
  changes of the product's services, written in Python under \<^verbatim>\<open>src/apps\<close>; screens, storage and
  third-party services are around it.

  \<^bold>\<open>The parts of the program and how they meet.\<close>  A firm (tenant) has clients, and members with roles.
  Authorization decides who may do what to which client.  Reference data (due rules, fiscal
  parameters, a client's tax timeline) is effective-dated: what holds on a day is the latest row
  covering it.  A firm writes playbooks, versioned checklists with dependencies and due rules; a
  cycle is a client's month under one published version, with one task per step.  What goes wrong
  in a cycle becomes an owned exception.  Mail to clients leaves through the outbox, and calls to
  the fiscal provider through a fenced protocol that reserves money first.  Both outbound channels
  answer to an independent journal and open exceptions when an outcome is unknown or refused.

  \<^bold>\<open>Conventions\<close> (\<^verbatim>\<open>Mei_Prelude\<close>).  A service is a function from its arguments and the tables it
  reads or writes, a record of lists of rows, to \<open>error + (result * tables)\<close>: \<open>Inl\<close> is the exception
  that leaves the transaction and takes its writes with it, \<open>Inr\<close> is the commit.  Row locks are not
  state: they make a transaction atomic, which is what one function application is, and every
  safety result quantifies over the order of committed transactions.  A lock that is passed over
  (\<^verbatim>\<open>SKIP LOCKED\<close>) is an argument naming the rows others hold.  Keys are integers drawn from a
  counter of the state where the code draws a random UUID; instants are integers of seconds; Python's
  unbounded integers are \<open>int\<close>; \<^verbatim>\<open>date\<close> is the calendar of years 1 to 9999 with its overflow as an
  error (\<^verbatim>\<open>Py_Date\<close>); \<^verbatim>\<open>Decimal\<close> is a rational rounded to 28 digits, ties to even (\<^verbatim>\<open>Py_Decimal\<close>).
  Strings are ASCII or UTF-8 bytes.  A scoped table answers with the rows of the tenant in context.

  \<^bold>\<open>Which theory models which part.\<close>

  \<^item> \<^verbatim>\<open>Fiscal_Documents\<close>: \<^verbatim>\<open>apps/fiscal\<close>, CPF and CNPJ numbers.  A locale states the modulo-11 scheme;
    both document kinds interpret it.
  \<^item> \<^verbatim>\<open>Effective_Dating\<close>: the locale of effective-dated rows, interpreted by the due-rule eras, the
    fiscal parameters and the tax claims in their own theories.
  \<^item> \<^verbatim>\<open>Holidays\<close>, \<^verbatim>\<open>Due_Dates\<close>: \<^verbatim>\<open>apps/obligations/holidays.py\<close>, \<^verbatim>\<open>rules.py\<close> and \<^verbatim>\<open>calendar.py\<close>.
    The walk to a business day ends because the calendar does, and is shown to find the nearest one.
  \<^item> \<^verbatim>\<open>Revenue_Threshold\<close>: \<^verbatim>\<open>apps/obligations/parameters.py\<close> and \<^verbatim>\<open>threshold.py\<close>, the yearly ceiling.
  \<^item> \<^verbatim>\<open>Tax_Timeline\<close>: \<^verbatim>\<open>apps/clients/services.py\<close> with the fences of \<^verbatim>\<open>apps/tenants\<close>; a correction
    changes belief on exactly the days it names.
  \<^item> \<^verbatim>\<open>Permission_Matrix\<close>, \<^verbatim>\<open>Authorization\<close>, \<^verbatim>\<open>Authorization_Guarantees\<close>, \<^verbatim>\<open>Reviewer_Grants\<close>:
    \<^verbatim>\<open>apps/authz\<close>; levels in bulk and singly, portfolios, support sessions, the reviewer decision and
    the authority an approval rests on.
  \<^item> \<^verbatim>\<open>Feature_Flags\<close>: \<^verbatim>\<open>apps/core/flags.py\<close>.
  \<^item> \<^verbatim>\<open>Step_Graph\<close>, \<^verbatim>\<open>Playbook_Rules\<close>, \<^verbatim>\<open>Playbook_Services\<close>, \<^verbatim>\<open>Playbook_Guarantees\<close>,
    \<^verbatim>\<open>Playbook_Properties\<close>: \<^verbatim>\<open>apps/cycles/rules.py\<close>, \<^verbatim>\<open>targeting.py\<close> and \<^verbatim>\<open>services/playbooks.py\<close>.
  \<^item> \<^verbatim>\<open>Practice\<close>, \<^verbatim>\<open>Service_Cycles\<close>, \<^verbatim>\<open>Cycle_Guarantees\<close>, \<^verbatim>\<open>Cycle_Properties\<close>: the tables of a practice
    and \<^verbatim>\<open>apps/cycles/services/cycle.py\<close>.
  \<^item> \<^verbatim>\<open>Cycle_Exceptions\<close>, \<^verbatim>\<open>Exception_Properties\<close>: \<^verbatim>\<open>apps/cycles/services/exceptions.py\<close>.
  \<^item> \<^verbatim>\<open>Delivery_Outbox\<close>, \<^verbatim>\<open>Delivery_Enqueue\<close>, \<^verbatim>\<open>Delivery_Recovery\<close>: \<^verbatim>\<open>apps/delivery\<close>; the dispatcher's
    phases (\<^verbatim>\<open>services.py\<close>, \<^verbatim>\<open>policy.py\<close>, \<^verbatim>\<open>gateway.py\<close>, \<^verbatim>\<open>reminder_cancellation.py\<close>), entry
    (\<^verbatim>\<open>outbox.py\<close>), dead letters and restore replay (\<^verbatim>\<open>automations.py\<close>, \<^verbatim>\<open>replay.py\<close>).
    \<^verbatim>\<open>Delivery_Guarantees\<close> states the abstract life of messages, \<^verbatim>\<open>Delivery_Runs\<close> shows every phase to
    be a path of it, \<^verbatim>\<open>Delivery_Properties\<close> and \<^verbatim>\<open>Recovery_Properties\<close> hold the promises.
  \<^item> \<^verbatim>\<open>Provider_Model\<close>, \<^verbatim>\<open>Provider_Budget\<close>, \<^verbatim>\<open>Provider_Calls\<close>, \<^verbatim>\<open>Provider_Safety\<close>,
    \<^verbatim>\<open>Provider_Guarantees\<close>, \<^verbatim>\<open>Provider_Replies\<close>: \<^verbatim>\<open>apps/integrations\<close>; contracts and rows, money,
    the phased call protocol, the lease automaton it refines and what follows.  The locale
    \<open>admission_hooks\<close> is the contract the protocol asks of an admission policy; the budget policy
    of the code interprets it.

  \<^bold>\<open>What the groups of lemmas show.\<close>
  Each component's lemmas say when an operation succeeds and what it leaves, error branches
  included.  The stateful components then have an invariant over histories: \<open>db_ok\<close> for
  the provider tables, \<open>practice_sound\<close> for playbooks and cycles together, \<open>desk_ok\<close> for exceptions,
  \<open>outbox_ok\<close> for mail.  Histories interleave the commands of the components that share tables:
  \<open>practice_step\<close> joins playbook and cycle commands, \<open>desk_step\<close> adds exceptions, and \<open>outbox_run\<close>
  adds the outbox on top, so a promise about mail holds while work on the cycle goes on.  Two
  refinements carry the safety of the outbound channels: the call protocol implements a lease
  automaton, and the outbox implements a life of messages; at-most-once sending, bounds on attempts
  and finality are proved on the abstract side.

  \<^bold>\<open>Termination and bounds.\<close>
  Loops are structural recursion except where noted.  The depth-first search of \<^verbatim>\<open>Step_Graph\<close> has
  a termination measure; the walk to a business day is bounded by the calendar; the search for a
  free playbook key (\<^verbatim>\<open>itertools.count\<close>) is a \<^verbatim>\<open>partial_function\<close> with a proof that it always answers.
  No definition runs on fuel.  The limits of the code are kept: six sends per message, a batch of
  fifty, a lease of 120 seconds, three dispatches per provider call.

  \<^bold>\<open>Arguments of the model.\<close>
  Hash functions, template rendering, the e-mail validator, IDNA and \<^verbatim>\<open>str.lower\<close> are functions given
  to the definitions, with no law assumed.  The hooks of registered message kinds and the answer of
  the notice authority are arguments too; the one law used of them, stated as a hypothesis where it
  is used, is that the authorization bound to a queued message does not depend on the row's own
  identifier or schedule.

  \<^bold>\<open>Not modelled, and why.\<close>
  Views, forms, middleware, templates and Celery tasks: request plumbing around the services.
  Sign-in, MFA and invitations: third-party authentication.  Row-level security and database
  triggers: they can only refuse more.  Approvals and their signed manifests, completion snapshots,
  evidence storage, publications, bulk operations and exports (\<^verbatim>\<open>apps/cycles\<close>), the observation
  chains, coverage and calendar generation (\<^verbatim>\<open>apps/obligations\<close>), the notice authority, the reminder
  sweep and the journal's storage (\<^verbatim>\<open>apps/delivery\<close>), provider replay, firm-level calls and authority
  custody (\<^verbatim>\<open>apps/integrations\<close>), spreadsheet import (\<^verbatim>\<open>apps/clients/importing.py\<close>): core logic still
  open to the library.  Messages made by executed proposals enter the outbox elsewhere
  (\<^verbatim>\<open>apps/cycles/effects/executors.py\<close>) and the retention job blanks a message's subject: neither is a
  step of \<open>outbox_run\<close>, and a restore replay, which runs while dispatch is paused, is treated apart.
\<close>

end
